(* ===== verification/Prelude.thy ===== *)
theory Prelude
  imports Main "HOL-Library.Word" "HOL-Library.Char_ord" "HOL-Library.List_Lexorder"
begin

text \<open>
  Shared vocabulary of the development: the machine types of the C++ sources, the
  reading of \<open>std::string\<close> as a list of 8-bit characters, C strings, the outcome of
  running a C++ function (it returns, it never returns, or its behaviour is undefined),
  HTTP replies, and the lemma collections the component theories extend.
\<close>

unbundle bit_operations_syntax

named_theorems model_defs \<open>definitions that unfold one operation of the model\<close>

section \<open>Machine types\<close>

type_synonym u8 = "8 word"
type_synonym u32 = "32 word"
type_synonym s32 = "32 word"
type_synonym u64 = "64 word"

text \<open>
  A \<open>std::string\<close> is a list of characters. \<open>uc\<close> reads a character as
  \<open>unsigned char\<close>; \<open>sc\<close> stores an \<open>unsigned char\<close> back.
\<close>

definition uc :: "char \<Rightarrow> u8" where
  "uc c = word_of_nat (of_char c)"

definition sc :: "u8 \<Rightarrow> char" where
  "sc w = char_of (unat w)"

lemma unat_uc [simp]: "unat (uc c) = of_char c"
proof -
  have "of_char c < (256::nat)" by simp
  then show ?thesis
    by (simp add: uc_def unat_of_nat)
qed

lemma sc_uc [simp]: "sc (uc c) = c"
  by (simp add: sc_def)

lemma uc_sc [simp]: "uc (sc w) = w"
proof -
  have "unat w < 256" using unsigned_less [of w] by simp
  then show ?thesis
    by (simp add: uc_def sc_def)
qed

lemma uc_eq_iff [simp]: "uc c = uc d \<longleftrightarrow> c = d"
  by (metis sc_uc)

lemma sc_eq_iff [simp]: "sc v = sc w \<longleftrightarrow> v = w"
  by (metis uc_sc)

lemma map_sc_uc [simp]: "map (sc \<circ> uc) s = s"
  by (induction s) simp_all

lemma map_uc_sc [simp]: "map (uc \<circ> sc) s = s"
  by (induction s) simp_all

section \<open>C strings\<close>

abbreviation nul :: char where
  "nul \<equiv> CHR 0x00"

text \<open>What a C function sees of \<open>s.c_str()\<close>: the characters before the first NUL.\<close>

definition c_str :: "string \<Rightarrow> string" where
  "c_str s = takeWhile (\<lambda>c. c \<noteq> nul) s"

lemma c_str_no_nul [simp]: "nul \<notin> set s \<Longrightarrow> c_str s = s"
  by (auto simp: c_str_def takeWhile_eq_all_conv)

lemma nul_notin_c_str [simp]: "nul \<notin> set (c_str s)"
  by (auto simp: c_str_def dest: set_takeWhileD)

lemma c_str_idem [simp]: "c_str (c_str s) = c_str s"
  by simp

section \<open>The outcome of a C++ call\<close>

text \<open>
  \<open>Ret x\<close>: the call returns \<open>x\<close>. \<open>Diverge\<close>: the call never returns (a spinning
  loop). \<open>Undef\<close>: the C++ standard gives the call no meaning (an out-of-range access,
  a dangling pointer), so nothing may be concluded from it.
\<close>

datatype 'a outcome = Ret 'a | Diverge | Undef

fun obind :: "'a outcome \<Rightarrow> ('a \<Rightarrow> 'b outcome) \<Rightarrow> 'b outcome" where
  "obind (Ret x) f = f x"
| "obind Diverge f = Diverge"
| "obind Undef f = Undef"

lemma obind_eq_Ret:
  "obind m f = Ret y \<longleftrightarrow> (\<exists>x. m = Ret x \<and> f x = Ret y)"
  by (cases m) simp_all

lemma obind_RetE [elim]:
  assumes "obind m f = Ret y"
  obtains x where "m = Ret x" and "f x = Ret y"
  using assms by (auto simp: obind_eq_Ret)

lemma obind_Ret_right [simp]: "obind m Ret = m"
  by (cases m) simp_all

lemma obind_assoc: "obind (obind m f) g = obind m (\<lambda>x. obind (f x) g)"
  by (cases m) simp_all

definition returns :: "'a outcome \<Rightarrow> bool" where
  "returns m \<longleftrightarrow> (case m of Ret _ \<Rightarrow> True | _ \<Rightarrow> False)"

lemma returns_iff: "returns m \<longleftrightarrow> (\<exists>x. m = Ret x)"
  by (cases m) (simp_all add: returns_def)

lemma returns_Ret [simp]: "returns (Ret x)" "\<not> returns Diverge" "\<not> returns Undef"
  by (simp_all add: returns_def)

section \<open>HTTP replies\<close>

text \<open>
  A handler answers with status 200 (\<open>HTTP_OK\<close>) or 400 (\<open>HTTP_BADREQUEST\<close>) and a body.
\<close>

datatype reply = Reply_ok string | Reply_bad string

fun body_of :: "reply \<Rightarrow> string" where
  "body_of (Reply_ok b) = b"
| "body_of (Reply_bad b) = b"

fun is_ok :: "reply \<Rightarrow> bool" where
  "is_ok (Reply_ok _) = True"
| "is_ok (Reply_bad _) = False"

section \<open>Lists\<close>

lemma list_update_append_length [simp]:
  "(xs @ y # ys)[length xs := z] = xs @ z # ys"
  by (induction xs) simp_all

lemma takeWhile_map_fst_sorted:
  assumes "sorted (map fst xs)" and "(k :: 'k :: linorder) \<notin> fst ` set xs"
  shows "takeWhile (\<lambda>p. fst p < k) xs @ dropWhile (\<lambda>p. fst p \<le> k) xs = xs"
proof -
  have "dropWhile (\<lambda>p. fst p \<le> k) xs = dropWhile (\<lambda>p. fst p < k) xs"
    using assms by (induction xs) (auto simp: le_less)
  then show ?thesis by simp
qed

lemma sorted_le_last:
  "sorted xs \<Longrightarrow> x \<in> set xs \<Longrightarrow> x \<le> (last xs :: 'k :: linorder)"
  by (cases xs rule: rev_cases) (auto simp: sorted_append)

lemma sorted_distinct_mid:
  assumes "sorted xs" "sorted ys" "distinct xs" "distinct ys"
    and lo: "\<And>x. x \<in> set xs \<Longrightarrow> x < (k :: 'k :: linorder)"
    and hi: "\<And>y. y \<in> set ys \<Longrightarrow> k < y"
  shows "sorted (xs @ k # ys) \<and> distinct (xs @ k # ys)"
proof -
  have lt: "\<And>x y. x \<in> set xs \<Longrightarrow> y \<in> set ys \<Longrightarrow> x < y"
    using lo hi less_trans by blast
  have "set xs \<inter> set ys = {}" "k \<notin> set xs" "k \<notin> set ys"
    using lt lo hi by fastforce+
  moreover have "\<And>x y. x \<in> set xs \<Longrightarrow> y \<in> set (k # ys) \<Longrightarrow> x \<le> y"
    using lt lo by (auto simp: less_imp_le)
  moreover have "\<And>y. y \<in> set ys \<Longrightarrow> k \<le> y"
    using hi by (simp add: less_imp_le)
  ultimately show ?thesis
    using assms(1-4) by (auto simp: sorted_append)
qed

lemma set_dropWhile_le_sorted:
  assumes "sorted (map fst xs)" and "p \<in> set (dropWhile (\<lambda>p. fst p \<le> (k :: 'k :: linorder)) xs)"
  shows "k < fst p"
  using assms
proof (induction xs)
  case Nil
  then show ?case by simp
next
  case (Cons x xs)
  then show ?case
    by (cases "fst x \<le> k") (auto simp: not_le dest: less_le_trans)
qed

end
