(* ===== verification/Std_Map.thy ===== *)
theory Std_Map
  imports Prelude
begin

text \<open>
  \<open>std::map\<close> as the sources use it: an association list sorted by key, without
  duplicates, so that iteration order and \<open>begin()\<close> are visible. The ordered-map
  interface is a locale; the LRU index, the configuration maps, the gossip table and
  the reference key-value store use its facts through the interpretation \<open>om\<close>.
\<close>

section \<open>Operations\<close>

type_synonym ('k, 'v) omap = "('k \<times> 'v) list"

definition om_ok :: "('k :: linorder, 'v) omap \<Rightarrow> bool" where
  "om_ok m \<longleftrightarrow> sorted (map fst m) \<and> distinct (map fst m)"

definition om_find :: "('k, 'v) omap \<Rightarrow> 'k \<Rightarrow> 'v option" where
  "om_find m k = map_of m k"

definition om_set :: "'k \<Rightarrow> 'v \<Rightarrow> ('k :: linorder, 'v) omap \<Rightarrow> ('k, 'v) omap" where
  "om_set k v m = takeWhile (\<lambda>p. fst p < k) m @ (k, v) # dropWhile (\<lambda>p. fst p \<le> k) m"

definition om_erase :: "'k \<Rightarrow> ('k, 'v) omap \<Rightarrow> ('k, 'v) omap" where
  "om_erase k m = filter (\<lambda>p. fst p \<noteq> k) m"

definition om_count :: "('k, 'v) omap \<Rightarrow> 'k \<Rightarrow> nat" where
  "om_count m k = (if om_find m k = None then 0 else 1)"

section \<open>The ordered-map interface\<close>

locale ordered_map =
  fixes find :: "'m \<Rightarrow> 'k :: linorder \<Rightarrow> 'v option"
    and put :: "'k \<Rightarrow> 'v \<Rightarrow> 'm \<Rightarrow> 'm"
    and erase :: "'k \<Rightarrow> 'm \<Rightarrow> 'm"
    and keys :: "'m \<Rightarrow> 'k list"
    and ok :: "'m \<Rightarrow> bool"
  assumes find_put: "ok m \<Longrightarrow> find (put k v m) = (find m)(k \<mapsto> v)"
    and find_erase: "ok m \<Longrightarrow> find (erase k m) = (find m)(k := None)"
    and ok_put: "ok m \<Longrightarrow> ok (put k v m)"
    and ok_erase: "ok m \<Longrightarrow> ok (erase k m)"
    and keys_sorted: "ok m \<Longrightarrow> sorted (keys m) \<and> distinct (keys m)"
    and keys_dom: "ok m \<Longrightarrow> set (keys m) = dom (find m)"
begin

lemma find_put_same [simp]: "ok m \<Longrightarrow> find (put k v m) k = Some v"
  by (simp add: find_put)

lemma find_put_other [simp]: "ok m \<Longrightarrow> k \<noteq> j \<Longrightarrow> find (put k v m) j = find m j"
  by (simp add: find_put)

lemma set_keys_put: "ok m \<Longrightarrow> set (keys (put k v m)) = insert k (set (keys m))"
  by (simp add: keys_dom ok_put find_put)

lemma set_keys_erase: "ok m \<Longrightarrow> set (keys (erase k m)) = set (keys m) - {k}"
  by (auto simp: keys_dom ok_erase find_erase)

lemma keys_unique:
  assumes "ok m" and "ok n" and "dom (find m) = dom (find n)"
  shows "keys m = keys n"
  using keys_sorted [OF assms(1)] keys_sorted [OF assms(2)] keys_dom [OF assms(1)]
    keys_dom [OF assms(2)] assms(3)
  by (intro sorted_distinct_set_unique) simp_all

lemma keys_put_new:
  assumes "ok m" and "\<And>j. j \<in> set (keys m) \<Longrightarrow> j < k"
  shows "keys (put k v m) = keys m @ [k]"
proof -
  have "k \<notin> set (keys m)" using assms(2) by blast
  then have "sorted (keys m @ [k]) \<and> distinct (keys m @ [k])"
    using assms keys_sorted by (auto simp: sorted_append less_imp_le)
  moreover have "set (keys (put k v m)) = set (keys m @ [k])"
    using assms(1) by (simp add: set_keys_put)
  ultimately show ?thesis
    using keys_sorted [OF ok_put [OF assms(1), of k v]]
    by (intro sorted_distinct_set_unique) simp_all
qed

end

section \<open>The sorted association list provides it\<close>

lemma om_ok_Nil [simp]: "om_ok []"
  by (simp add: om_ok_def)

lemma om_ok_take_drop:
  assumes "om_ok m"
  shows "om_ok (takeWhile (\<lambda>p. fst p < k) m @ (k, v) # dropWhile (\<lambda>p. fst p \<le> k) m)"
proof -
  have s: "sorted (map fst m)" and d: "distinct (map fst m)"
    using assms by (simp_all add: om_ok_def)
  have tm: "map fst (takeWhile (\<lambda>p. fst p < k) m) = takeWhile (\<lambda>x. x < k) (map fst m)"
    by (simp add: takeWhile_map comp_def)
  have dm: "map fst (dropWhile (\<lambda>p. fst p \<le> k) m) = dropWhile (\<lambda>x. x \<le> k) (map fst m)"
    by (simp add: dropWhile_map comp_def)
  have tw: "sorted (map fst (takeWhile (\<lambda>p. fst p < k) m))"
    using s unfolding tm by (rule sorted_takeWhile)
  have dw: "sorted (map fst (dropWhile (\<lambda>p. fst p \<le> k) m))"
    using s unfolding dm by (rule sorted_dropWhile)
  have dtw: "distinct (map fst (takeWhile (\<lambda>p. fst p < k) m))"
    using d unfolding tm by (rule distinct_takeWhile)
  have ddw: "distinct (map fst (dropWhile (\<lambda>p. fst p \<le> k) m))"
    using d unfolding dm by (rule distinct_dropWhile)
  have lo: "\<And>p. p \<in> set (takeWhile (\<lambda>p. fst p < k) m) \<Longrightarrow> fst p < k"
    by (auto dest: set_takeWhileD)
  have hi: "\<And>p. p \<in> set (dropWhile (\<lambda>p. fst p \<le> k) m) \<Longrightarrow> k < fst p"
    using s by (rule set_dropWhile_le_sorted)
  have "sorted (map fst (takeWhile (\<lambda>p. fst p < k) m)
        @ k # map fst (dropWhile (\<lambda>p. fst p \<le> k) m))
      \<and> distinct (map fst (takeWhile (\<lambda>p. fst p < k) m)
        @ k # map fst (dropWhile (\<lambda>p. fst p \<le> k) m))"
    using tw dw dtw ddw lo hi by (intro sorted_distinct_mid) auto
  then show ?thesis by (simp add: om_ok_def)
qed

lemma om_ok_om_set: "om_ok m \<Longrightarrow> om_ok (om_set k v m)"
  by (simp add: om_set_def om_ok_take_drop)

lemma om_ok_om_erase: "om_ok m \<Longrightarrow> om_ok (om_erase k m)"
  by (auto simp: om_ok_def om_erase_def sorted_filter distinct_map_filter)

lemma map_of_takeWhile_lt:
  assumes "sorted (map fst m)"
  shows "map_of (takeWhile (\<lambda>p. fst p < (k :: 'k :: linorder)) m) j
    = (if j < k then map_of m j else None)"
  using assms
proof (induction m)
  case Nil
  then show ?case by simp
next
  case (Cons p m)
  have "\<not> fst p < k \<Longrightarrow> j < k \<Longrightarrow> map_of (p # m) j = None"
    using Cons.prems by (force simp: map_of_eq_None_iff)
  then show ?case using Cons by (cases p) auto
qed

lemma map_of_dropWhile_le:
  assumes "sorted (map fst m)"
  shows "map_of (dropWhile (\<lambda>p. fst p \<le> (k :: 'k :: linorder)) m) j
    = (if k < j then map_of m j else None)"
  using assms
proof (induction m)
  case Nil
  then show ?case by simp
next
  case (Cons p m)
  have "\<not> fst p \<le> k \<Longrightarrow> \<not> k < j \<Longrightarrow> map_of (p # m) j = None"
    using Cons.prems by (force simp: map_of_eq_None_iff)
  then show ?case using Cons by (cases p) auto
qed

lemma om_find_om_set: "om_ok m \<Longrightarrow> om_find (om_set k v m) = (om_find m)(k \<mapsto> v)"
  by (rule ext)
    (auto simp: om_find_def om_set_def om_ok_def map_add_def
      map_of_takeWhile_lt map_of_dropWhile_le split: option.splits)

lemma om_find_om_erase: "om_find (om_erase k m) = (om_find m)(k := None)"
  by (rule ext) (induction m, auto simp: om_find_def om_erase_def)

lemma om_keys:
  "om_ok m \<Longrightarrow> sorted (map fst m)"
  "om_ok m \<Longrightarrow> distinct (map fst m)"
  "fst ` set m = dom (om_find m)"
  by (simp_all add: om_ok_def om_find_def [abs_def] dom_map_of_conv_image_fst [symmetric])

interpretation om: ordered_map om_find om_set om_erase "map fst" om_ok
  by unfold_locales
    (auto simp: om_find_om_set om_find_om_erase om_ok_om_set om_ok_om_erase om_keys)

lemma om_find_Nil [simp]: "om_find [] k = None"
  by (simp add: om_find_def)

lemma om_find_mem: "om_ok m \<Longrightarrow> om_find m k = Some v \<longleftrightarrow> (k, v) \<in> set m"
  by (simp add: om_find_def om_ok_def)

lemma om_count_pos [simp]: "om_count m k = 0 \<longleftrightarrow> om_find m k = None"
  by (simp add: om_count_def)

lemma om_set_last:
  assumes "om_ok m" and "\<And>j. j \<in> fst ` set m \<Longrightarrow> j < k"
  shows "om_set k v m = m @ [(k, v)]"
proof -
  have "takeWhile (\<lambda>p. fst p < k) m = m"
    using assms(2) by (auto simp: takeWhile_eq_all_conv)
  moreover have "dropWhile (\<lambda>p. fst p \<le> k) m = []"
    using assms(2) by (auto simp: dropWhile_eq_Nil_conv less_imp_le)
  ultimately show ?thesis by (simp add: om_set_def)
qed

lemma om_erase_absent: "om_find m k = None \<Longrightarrow> om_erase k m = m"
  by (auto simp: om_erase_def om_find_def map_of_eq_None_iff intro!: filter_True)

lemma om_erase_om_set_new:
  assumes "om_ok m" and "om_find m k = None"
  shows "om_erase k (om_set k v m) = m"
proof -
  have new: "k \<notin> fst ` set m" using assms(2) by (simp add: om_find_def map_of_eq_None_iff)
  have "takeWhile (\<lambda>p. fst p < k) m @ dropWhile (\<lambda>p. fst p \<le> k) m = m"
    using assms(1) new by (intro takeWhile_map_fst_sorted) (auto simp: om_ok_def)
  moreover have "filter (\<lambda>p. fst p \<noteq> k) m = m"
    using new by (auto intro!: filter_True)
  moreover have "om_erase k (om_set k v m)
      = om_erase k (takeWhile (\<lambda>p. fst p < k) m @ dropWhile (\<lambda>p. fst p \<le> k) m)"
    by (simp add: om_erase_def om_set_def)
  ultimately show ?thesis by (simp add: om_erase_def)
qed

lemma om_eqI:
  assumes "om_ok m" and "om_ok n" and "om_find m = om_find n"
  shows "m = n"
proof -
  have "map_of m = map_of n"
    using assms(3) by (simp add: om_find_def fun_eq_iff)
  then have eq: "set m = set n"
    using assms(1,2) by (simp add: om_ok_def map_of_inject_set)
  show ?thesis
    using assms(1,2) eq
    by (intro map_sorted_distinct_set_unique [where f = fst])
      (auto simp: om_ok_def distinct_map)
qed

lemma om_set_idem: "om_ok m \<Longrightarrow> om_set k v (om_set k w m) = om_set k v m"
  by (rule om_eqI) (simp_all add: om.find_put om.ok_put)

lemma om_erase_idem: "om_erase k (om_erase k m) = om_erase k m"
  by (simp add: om_erase_def)

end
