(* ===== verification/Text_Format.thy ===== *)
theory Text_Format
  imports Prelude
begin

text \<open>
  The parts of the C library's formatted text the sources use: \<open>%u\<close>, \<open>%llu\<close>, \<open>%d\<close> of
  \<open>sprintf\<close>, \<open>atoi\<close> on configuration values, and \<open>sscanf(s, "%llu %llu", ...)\<close> on vote
  tickets. A conversion whose value does not fit is undefined in C and is \<open>Undef\<close> here.
\<close>

section \<open>Printing\<close>

definition digit_char :: "nat \<Rightarrow> char" where
  "digit_char d = char_of (48 + d)"

fun print_nat :: "nat \<Rightarrow> string" where
  "print_nat n = (if n < 10 then [digit_char n] else print_nat (n div 10) @ [digit_char (n mod 10)])"

declare print_nat.simps [simp del]

definition print_u32 :: "u32 \<Rightarrow> string" where
  "print_u32 w = print_nat (unat w)"

definition print_u64 :: "u64 \<Rightarrow> string" where
  "print_u64 w = print_nat (unat w)"

text \<open>\<open>%d\<close> of a 32-bit value.\<close>

definition print_d :: "u32 \<Rightarrow> string" where
  "print_d w = (if sint w < 0 then CHR ''-'' # print_nat (nat (- sint w)) else print_nat (nat (sint w)))"

section \<open>Reading\<close>

definition is_space :: "char \<Rightarrow> bool" where
  "is_space c \<longleftrightarrow> c \<in> {CHR '' '', CHR 0x09, CHR 0x0A, CHR 0x0B, CHR 0x0C, CHR 0x0D}"

definition is_digit :: "char \<Rightarrow> bool" where
  "is_digit c \<longleftrightarrow> 48 \<le> (of_char c :: nat) \<and> of_char c \<le> (57 :: nat)"

definition digits_val :: "string \<Rightarrow> nat" where
  "digits_val ds = foldl (\<lambda>acc c. acc * 10 + (of_char c - 48)) 0 ds"

text \<open>An optional sign: whether it is a minus, and the text behind it.\<close>

fun scan_sign :: "string \<Rightarrow> bool \<times> string" where
  "scan_sign [] = (False, [])"
| "scan_sign (c # cs) =
     (if c = CHR ''-'' then (True, cs) else if c = CHR ''+'' then (False, cs) else (False, c # cs))"

definition atoi :: "string \<Rightarrow> int outcome" where
  "atoi s =
     (let (neg, t) = scan_sign (dropWhile is_space (c_str s));
          n = int (digits_val (takeWhile is_digit t));
          v = (if neg then - n else n)
      in if - (2 ^ 31) \<le> v \<and> v < 2 ^ 31 then Ret v else Undef)"

text \<open>
  One \<open>%llu\<close>: None when no digit follows, otherwise the value (a minus sign wraps) and the
  rest of the input.
\<close>

definition scan_llu :: "string \<Rightarrow> (u64 \<times> string) option outcome" where
  "scan_llu s =
     (let (neg, t) = scan_sign (dropWhile is_space s);
          ds = takeWhile is_digit t;
          n = digits_val ds
      in if ds = [] then Ret None
         else if 2 ^ 64 \<le> n then Undef
         else Ret (Some (if neg then - word_of_nat n else word_of_nat n, dropWhile is_digit t)))"

text \<open>
  \<open>sscanf(s, "%llu %llu", &a, &b)\<close>: which of the two variables were assigned.
\<close>

definition scan_llu2 :: "string \<Rightarrow> (u64 option \<times> u64 option) outcome" where
  "scan_llu2 s =
     obind (scan_llu (c_str s)) (\<lambda>r.
       case r of
         None \<Rightarrow> Ret (None, None)
       | Some (a, rest) \<Rightarrow>
           obind (scan_llu rest) (\<lambda>r2. Ret (Some a, map_option fst r2)))"

section \<open>Reading back what was printed\<close>

lemma of_char_digit: "d < 10 \<Longrightarrow> of_char (digit_char d) = 48 + d"
  by (simp add: digit_char_def)

lemma is_digit_digit: "d < 10 \<Longrightarrow> is_digit (digit_char d)"
  by (simp add: is_digit_def of_char_digit)

lemma print_nat_digits: "c \<in> set (print_nat n) \<Longrightarrow> is_digit c"
proof (induction n rule: print_nat.induct)
  case (1 n)
  show ?case
    using "1.prems" "1.IH" by (subst (asm) print_nat.simps) (auto split: if_splits intro: is_digit_digit)
qed

lemma print_nat_nonempty: "print_nat n \<noteq> []"
  by (subst print_nat.simps) simp

lemma digits_val_snoc: "digits_val (ds @ [c]) = digits_val ds * 10 + (of_char c - 48)"
  by (simp add: digits_val_def)

lemma digits_val_print: "digits_val (print_nat n) = n"
proof (induction n rule: print_nat.induct)
  case (1 n)
  show ?case
  proof (cases "n < 10")
    case True
    then show ?thesis
      by (subst print_nat.simps) (simp add: digits_val_def of_char_digit)
  next
    case False
    then have "digits_val (print_nat (n div 10)) = n div 10" by (rule "1.IH")
    with False show ?thesis
      by (subst print_nat.simps) (simp add: digits_val_snoc of_char_digit)
  qed
qed

lemma digit_not_special:
  assumes "is_digit c"
  shows "\<not> is_space c" "c \<noteq> CHR ''-''" "c \<noteq> CHR ''+''" "c \<noteq> nul"
  using assms by (auto simp: is_digit_def is_space_def)

lemma scan_print:
  assumes "n < 2 ^ 64" and "rest = [] \<or> \<not> is_digit (hd rest)"
  shows "scan_llu (print_nat n @ rest) = Ret (Some (word_of_nat n, rest))"
proof -
  obtain c cs where pc: "print_nat n = c # cs"
    using print_nat_nonempty [of n] by (cases "print_nat n") auto
  have c: "is_digit c" using print_nat_digits [of c n] by (simp add: pc)
  have sign: "scan_sign (dropWhile is_space (print_nat n @ rest)) = (False, print_nat n @ rest)"
    using digit_not_special [OF c] by (simp add: pc)
  have tw: "takeWhile is_digit (print_nat n @ rest) = print_nat n"
    using assms(2) print_nat_digits by (cases rest) (auto simp: takeWhile_append)
  have dw: "dropWhile is_digit (print_nat n @ rest) = rest"
    using assms(2) print_nat_digits by (cases rest) (auto simp: dropWhile_append)
  show ?thesis
    using assms(1) by (simp add: scan_llu_def sign tw dw print_nat_nonempty digits_val_print)
qed

lemma atoi_print: "n < 2 ^ 31 \<Longrightarrow> atoi (print_nat n) = Ret (int n)"
proof -
  assume n: "n < 2 ^ 31"
  obtain c cs where pc: "print_nat n = c # cs"
    using print_nat_nonempty [of n] by (cases "print_nat n") auto
  have c: "is_digit c" using print_nat_digits [of c n] by (simp add: pc)
  have cs: "c_str (print_nat n) = print_nat n"
    using print_nat_digits digit_not_special(4) by (intro c_str_no_nul) blast
  have sign: "scan_sign (dropWhile is_space (print_nat n)) = (False, print_nat n)"
    using digit_not_special [OF c] by (simp add: pc)
  have tw: "takeWhile is_digit (print_nat n) = print_nat n"
    using print_nat_digits by (simp add: takeWhile_eq_all_conv)
  show ?thesis using n by (simp add: atoi_def cs sign tw digits_val_print)
qed

definition ticket :: "u64 \<Rightarrow> u64 \<Rightarrow> string" where
  "ticket e v = print_u64 e @ '' '' @ print_u64 v"

lemma scan_skip_space: "scan_llu (CHR '' '' # s) = scan_llu s"
  by (simp add: scan_llu_def is_space_def)

lemma scan_ticket: "scan_llu2 (ticket e v) = Ret (Some e, Some v)"
proof -
  have b: "unat e < 2 ^ 64" "unat v < 2 ^ 64"
    using unsigned_less [of e] unsigned_less [of v] by simp_all
  have nn: "nul \<notin> set (ticket e v)"
    using print_nat_digits digit_not_special(4) by (auto simp: ticket_def print_u64_def)
  have 1: "scan_llu (print_nat (unat e) @ '' '' @ print_nat (unat v))
      = Ret (Some (e, '' '' @ print_nat (unat v)))"
    by (subst scan_print) (use b in \<open>simp_all add: is_digit_def\<close>)
  have 2: "scan_llu (print_nat (unat v)) = Ret (Some (v, []))"
    using scan_print [of "unat v" "[]"] b by simp
  show ?thesis
    using 1 2 by (simp add: scan_llu2_def c_str_no_nul [OF nn])
      (simp add: ticket_def print_u64_def scan_skip_space)
qed

end
