(* ===== verification/Config_Files.thy ===== *)
theory Config_Files
  imports Std_Map Text_Format
begin

text \<open>
  Configuration files: the key names of \<open>common/kyrin_constants.cc\<close>, the reader and the lookup
  of \<open>common/configs/kyrin_base_config.cc\<close>, and the accessors of the four configuration
  classes built on it. A file is its contents, or None when it cannot be opened; a file
  stream that cannot be opened extracts nothing.
\<close>

section \<open>Key names\<close>

datatype json_key =
    K_server_type | K_kbid | K_master_server_count | K_chunk_seed_count | K_machine_address
  | K_master_upload_file_port | K_master_upload_file_backlog
  | K_master_get_oplog_port | K_master_get_oplog_backlog
  | K_master_confirm_oplog_port | K_master_confirm_oplog_backlog | K_master_sentinel_port
  | K_master_server_threads | K_master_userdata_database_path | K_master_oplog_database_path
  | K_slavenode_redis_host | K_slavenode_redis_port
  | K_slavenode_download_file_port | K_slavenode_download_file_backlog
  | K_chunk_gossip_server_port | K_chunk_gossip_server_backlog
  | K_chunk_machine_address | K_chunk_role
  | K_chunk_upload_chunk_file_port | K_chunk_upload_chunk_file_backlog
  | K_chunk_download_chunk_file_port | K_chunk_download_chunk_file_backlog
  | K_chunk_set_file_key_info_port | K_chunk_set_file_key_info_backlog
  | K_chunk_get_file_key_info_port | K_chunk_get_file_key_info_backlog
  | K_keycenter_redis_host | K_keycenter_redis_port
  | K_keycenter_set_kyrin_key_port | K_keycenter_set_kyrin_key_backlog
  | K_keycenter_get_kyrin_key_port | K_keycenter_get_kyrin_key_backlog
  | K_chunk_keyinfo_database_path

fun json_name :: "json_key \<Rightarrow> string" where
  "json_name K_server_type = ''ServerType''"
| "json_name K_kbid = ''Kbid''"
| "json_name K_master_server_count = ''MasterServerCount''"
| "json_name K_chunk_seed_count = ''ChunkSeedCount''"
| "json_name K_machine_address = ''MachineAddress''"
| "json_name K_master_upload_file_port = ''MasterUploadFilePort''"
| "json_name K_master_upload_file_backlog = ''MasterUploadFileBacklog''"
| "json_name K_master_get_oplog_port = ''MasterGetOplogPort''"
| "json_name K_master_get_oplog_backlog = ''MasterGetOplogBacklog''"
| "json_name K_master_confirm_oplog_port = ''MasterConfirmOplogPort''"
| "json_name K_master_confirm_oplog_backlog = ''MasterConfirmOplogBacklog''"
| "json_name K_master_sentinel_port = ''MasterSentinelPort''"
| "json_name K_master_server_threads = ''MasterServerThreads''"
| "json_name K_master_userdata_database_path = ''MasterUserdataDatabasePath''"
| "json_name K_master_oplog_database_path = ''MasterOplogDatabasePath''"
| "json_name K_slavenode_redis_host = ''SlavenodeRedisHost''"
| "json_name K_slavenode_redis_port = ''SlavenodeRedisPort''"
| "json_name K_slavenode_download_file_port = ''SlavenodeDownloadFilePort''"
| "json_name K_slavenode_download_file_backlog = ''SlavenodeDownloadFileBacklog''"
| "json_name K_chunk_gossip_server_port = ''ChunkGossipServerPort''"
| "json_name K_chunk_gossip_server_backlog = ''ChunkGossipServerBacklog''"
| "json_name K_chunk_machine_address = ''ChunkMachineAddress''"
| "json_name K_chunk_role = ''ChunkRole''"
| "json_name K_chunk_upload_chunk_file_port = ''ChunkUploadChunkFilePort''"
| "json_name K_chunk_upload_chunk_file_backlog = ''ChunkUploadChunkFileBacklog''"
| "json_name K_chunk_download_chunk_file_port = ''ChunkDownloadChunkFilePort''"
| "json_name K_chunk_download_chunk_file_backlog = ''ChunkDownloadChunkFileBacklog''"
| "json_name K_chunk_set_file_key_info_port = ''ChunkSetFileKeyInfoPort''"
| "json_name K_chunk_set_file_key_info_backlog = ''ChunkSetFileKeyInfoBacklog''"
| "json_name K_chunk_get_file_key_info_port = ''ChunkGetFileKeyInfoPort''"
| "json_name K_chunk_get_file_key_info_backlog = ''ChunkGetFileKeyInfoBacklog''"
| "json_name K_keycenter_redis_host = ''KeyCenterRedisHost''"
| "json_name K_keycenter_redis_port = ''KeyCenterRedisPort''"
| "json_name K_keycenter_set_kyrin_key_port = ''KeyCenterSetKyrinKeyPort''"
| "json_name K_keycenter_set_kyrin_key_backlog = ''KeyCenterSetKyrinKeyBacklog''"
| "json_name K_keycenter_get_kyrin_key_port = ''KeyCenterGetKyrinKeyPort''"
| "json_name K_keycenter_get_kyrin_key_backlog = ''KeyCenterGetKyrinKeyBacklog''"
| "json_name K_chunk_keyinfo_database_path = ''ChunkKeyinfoDatabasePath''"

text \<open>\<open>k_config_filepath\<close> and the two sizes of the same file.\<close>

definition k_config_filepath :: string where
  "k_config_filepath = ''kyrinbox_config.json''"

definition k_server_max_post_data_size :: nat where
  "k_server_max_post_data_size = 1024 * 64"

definition k_server_max_get_oplog_size :: nat where
  "k_server_max_get_oplog_size = 100"

section \<open>The reader\<close>

type_synonym config = "(string, string) omap"

text \<open>\<open>file >> word\<close>, repeated: the maximal runs of non-space characters.\<close>

function tokens :: "string \<Rightarrow> string list" where
  "tokens s =
     (let t = dropWhile is_space s in
      if t = [] then []
      else takeWhile (\<lambda>c. \<not> is_space c) t # tokens (dropWhile (\<lambda>c. \<not> is_space c) t))"
  by auto
termination
proof (relation "measure length")
  fix s t :: string
  assume t: "t = dropWhile is_space s" and ne: "t \<noteq> []"
  then have "\<not> is_space (hd t)" using hd_dropWhile by blast
  then have "length (dropWhile (\<lambda>c. \<not> is_space c) t) < length t"
    using ne by (cases t) (auto simp: length_dropWhile_le le_imp_less_Suc)
  also have "length t \<le> length s" by (simp add: t length_dropWhile_le)
  finally show "(dropWhile (\<lambda>c. \<not> is_space c) t, s) \<in> measure length" by simp
qed simp

declare tokens.simps [simp del]

text \<open>
  \<open>w.substr(1, w.length() - k)\<close> of a non-empty word; the length wraps below zero, and a count
  beyond the end takes the rest.
\<close>

definition inner :: "nat \<Rightarrow> string \<Rightarrow> string" where
  "inner k w = (if length w < k then drop 1 w else take (length w - k) (drop 1 w))"

definition key_of :: "string \<Rightarrow> string" where
  "key_of key = inner 2 key"

definition value_of :: "string \<Rightarrow> string" where
  "value_of v = inner (if last v = CHR '','' then 3 else 2) v"

text \<open>\<open>while (file >> key >> value >> value) m[...] = ...\<close>: the middle word is thrown away.\<close>

fun read_entries :: "string list \<Rightarrow> config \<Rightarrow> config" where
  "read_entries (key # colon # v # ts) m = read_entries ts (om_set (key_of key) (value_of v) m)"
| "read_entries _ m = m"

text \<open>The result of a call is always true; this is the map it leaves in \<open>m_config_map\<close>.\<close>

definition read_config_file :: "string option \<Rightarrow> config" where
  "read_config_file file =
     (case file of None \<Rightarrow> [] | Some text \<Rightarrow> read_entries (drop 2 (tokens text)) [])"

text \<open>
  \<open>get_config\<close>: a missing key yields the value of the first key; \<open>begin()\<close> of an empty map
  may not be read.
\<close>

definition get_config :: "config \<Rightarrow> json_key \<Rightarrow> string outcome" where
  "get_config m key =
     (case om_find m (json_name key) of
        Some v \<Rightarrow> Ret v
      | None \<Rightarrow> (case m of [] \<Rightarrow> Undef | (_, v) # _ \<Rightarrow> Ret v))"

text \<open>\<open>atoi(get_config(key).c_str())\<close> as a \<open>uint32_t\<close> (or the same bits as an \<open>int\<close>).\<close>

definition get_number :: "config \<Rightarrow> json_key \<Rightarrow> u32 outcome" where
  "get_number m key = obind (get_config m key) (\<lambda>s. obind (atoi s) (\<lambda>i. Ret (word_of_int i)))"

section \<open>The configuration classes\<close>

text \<open>\<open>KyrinChunkConfig\<close>\<close>

definition gossip_server_port where
  "gossip_server_port m = get_number m K_chunk_gossip_server_port"
definition gossip_server_backlog where
  "gossip_server_backlog m = get_number m K_chunk_gossip_server_backlog"
definition chunk_machine_address where
  "chunk_machine_address m = get_config m K_chunk_machine_address"
definition role where
  "role m = get_config m K_chunk_role"
definition set_file_key_info_port where
  "set_file_key_info_port m = get_number m K_chunk_set_file_key_info_port"
definition set_file_key_info_backlog where
  "set_file_key_info_backlog m = get_number m K_chunk_set_file_key_info_backlog"
definition get_file_key_info_port where
  "get_file_key_info_port m = get_number m K_chunk_get_file_key_info_port"
definition get_file_key_info_backlog where
  "get_file_key_info_backlog m = get_number m K_chunk_get_file_key_info_backlog"
definition download_chunk_file_port where
  "download_chunk_file_port m = get_number m K_chunk_download_chunk_file_port"
definition download_chunk_file_backlog where
  "download_chunk_file_backlog m = get_number m K_chunk_download_chunk_file_backlog"
definition upload_chunk_file_port where
  "upload_chunk_file_port m = get_number m K_chunk_upload_chunk_file_port"
definition upload_chunk_file_backlog where
  "upload_chunk_file_backlog m = get_number m K_chunk_upload_chunk_file_backlog"
definition keyinfo_database_path where
  "keyinfo_database_path m = get_config m K_chunk_keyinfo_database_path"

text \<open>\<open>KyrinKeyCenterConfig\<close>\<close>

definition keycenter_machine_address where
  "keycenter_machine_address m = get_config m K_machine_address"
definition keycenter_redis_host where
  "keycenter_redis_host m = get_config m K_keycenter_redis_host"
definition keycenter_redis_port where
  "keycenter_redis_port m = get_number m K_keycenter_redis_port"
definition get_key_port where
  "get_key_port m = get_number m K_keycenter_get_kyrin_key_port"
definition get_key_backlog where
  "get_key_backlog m = get_number m K_keycenter_get_kyrin_key_backlog"
definition set_key_port where
  "set_key_port m = get_number m K_keycenter_set_kyrin_key_port"
definition set_key_backlog where
  "set_key_backlog m = get_number m K_keycenter_set_kyrin_key_backlog"

text \<open>\<open>KyrinMasterConfig\<close>\<close>

definition upload_file_port where
  "upload_file_port m = get_number m K_master_upload_file_port"
definition confirm_oplog_port where
  "confirm_oplog_port m = get_number m K_master_confirm_oplog_port"
definition get_oplog_port where
  "get_oplog_port m = get_number m K_master_get_oplog_port"
definition sentinel_port where
  "sentinel_port m = get_number m K_master_sentinel_port"
definition upload_file_backlog where
  "upload_file_backlog m = get_number m K_master_upload_file_backlog"
definition confirm_oplog_backlog where
  "confirm_oplog_backlog m = get_number m K_master_confirm_oplog_backlog"
definition get_oplog_backlog where
  "get_oplog_backlog m = get_number m K_master_get_oplog_backlog"
definition server_threads where
  "server_threads m = get_number m K_master_server_threads"
definition userdata_database_path where
  "userdata_database_path m = get_config m K_master_userdata_database_path"
definition oplog_database_path where
  "oplog_database_path m = get_config m K_master_oplog_database_path"
definition master_machine_address where
  "master_machine_address m = get_config m K_machine_address"

text \<open>\<open>KyrinSlavenodeConfig\<close>\<close>

definition slavenode_redis_host where
  "slavenode_redis_host m = get_config m K_slavenode_redis_host"
definition slavenode_redis_port where
  "slavenode_redis_port m = get_number m K_slavenode_redis_port"
definition download_file_port where
  "download_file_port m = get_number m K_slavenode_download_file_port"
definition download_file_backlog where
  "download_file_backlog m = get_number m K_slavenode_download_file_backlog"

section \<open>Reading back a rendered file\<close>

text \<open>
  The format the deployment files have: a first line without spaces, an opening brace, one
  line \<open>"key" : "value",\<close> per entry (no comma on the last), a closing brace.
\<close>

definition quoted :: "string \<Rightarrow> string" where
  "quoted s = [CHR 0x22] @ s @ [CHR 0x22]"

fun render_entries :: "(string \<times> string) list \<Rightarrow> string" where
  "render_entries [] = []"
| "render_entries [(k, v)] = ''    '' @ quoted k @ '' : '' @ quoted v @ [CHR 0x0A]"
| "render_entries ((k, v) # e # es) =
     ''    '' @ quoted k @ '' : '' @ quoted v @ '','' @ [CHR 0x0A] @ render_entries (e # es)"

definition render :: "string \<Rightarrow> (string \<times> string) list \<Rightarrow> string" where
  "render banner es = banner @ [CHR 0x0A] @ ''{'' @ [CHR 0x0A] @ render_entries es @ ''}''"

definition plain :: "string \<Rightarrow> bool" where
  "plain s \<longleftrightarrow> (\<forall>c \<in> set s. \<not> is_space c)"

fun entry_tokens :: "(string \<times> string) list \<Rightarrow> string list" where
  "entry_tokens [] = []"
| "entry_tokens [(k, v)] = [quoted k, '':'', quoted v]"
| "entry_tokens ((k, v) # e # es) =
     quoted k # '':'' # (quoted v @ '','') # entry_tokens (e # es)"

lemma tokens_Nil [simp]: "tokens [] = []"
  by (simp add: tokens.simps)

lemma tokens_space: "is_space c \<Longrightarrow> tokens (c # s) = tokens s"
  by (subst (1 2) tokens.simps) simp

lemma tokens_word:
  assumes "plain w" and "w \<noteq> []" and "is_space c"
  shows "tokens (w @ c # s) = w # tokens s"
proof -
  obtain a v where w: "w = a # v" using assms(2) by (cases w) auto
  have sp: "\<not> is_space a" using assms(1) by (simp add: w plain_def)
  have tw: "takeWhile (\<lambda>c. \<not> is_space c) (w @ c # s) = w"
    "dropWhile (\<lambda>c. \<not> is_space c) (w @ c # s) = c # s"
    using assms(1,3) by (simp_all add: plain_def takeWhile_append2 dropWhile_append2)
  have "tokens (w @ c # s) = w # tokens (c # s)"
    using tw sp by (subst tokens.simps) (simp add: w Let_def)
  then show ?thesis by (simp add: tokens_space assms(3))
qed

lemma tokens_last: "plain w \<Longrightarrow> w \<noteq> [] \<Longrightarrow> tokens w = [w]"
proof -
  assume w: "plain w" "w \<noteq> []"
  then have "dropWhile is_space w = w" "takeWhile (\<lambda>c. \<not> is_space c) w = w"
    by (auto simp: plain_def takeWhile_eq_all_conv neq_Nil_conv)
  moreover have "dropWhile (\<lambda>c. \<not> is_space c) w = []"
    using w by (simp add: plain_def)
  ultimately show ?thesis using w(2) by (subst tokens.simps) (simp only: Let_def, simp)
qed

lemma plain_quoted: "plain s \<Longrightarrow> plain (quoted s)" "quoted s \<noteq> []"
  by (auto simp: plain_def quoted_def is_space_def)

lemma is_space_lits: "is_space (CHR '' '')" "is_space (CHR 0x0A)"
  by (simp_all add: is_space_def)

lemma plain_append: "plain (s @ t) \<longleftrightarrow> plain s \<and> plain t"
  by (auto simp: plain_def)

lemma plain_lits: "plain '','' " "plain '':'' " "plain ''{'' " "plain ''}''"
  by (simp_all add: plain_def is_space_def)

lemmas tokenize = tokens_space is_space_lits tokens_word plain_quoted plain_append plain_lits

lemma tokens_colon: "tokens (CHR '':'' # CHR '' '' # s) = '':'' # tokens s"
  using tokens_word [of "'':''" "CHR '' ''" s] by (simp add: plain_lits is_space_lits)

lemma tokens_render_entries:
  assumes "\<forall>(k, v) \<in> set es. plain k \<and> plain v"
  shows "tokens (render_entries es @ ''}'') = entry_tokens es @ [''}'']"
  using assms
proof (induction es rule: entry_tokens.induct)
  case 1
  then show ?case by (simp add: tokens_last plain_lits)
next
  case (2 k v)
  then show ?case
    by (simp add: tokenize tokens_colon tokens_last plain_lits)
next
  case (3 k v e es)
  have line: "render_entries ((k, v) # e # es) @ ''}'' =
      CHR '' '' # CHR '' '' # CHR '' '' # CHR '' '' # (quoted k @ CHR '' '' # CHR '':'' # CHR '' '' #
        ((quoted v @ '','') @ CHR 0x0A # (render_entries (e # es) @ ''}'')))"
    by simp
  have "plain k" "plain v" using "3.prems" by auto
  then have "tokens (render_entries ((k, v) # e # es) @ ''}'') =
      quoted k # '':'' # (quoted v @ '','') # tokens (render_entries (e # es) @ ''}'')"
    unfolding line
    by (simp only: tokens_space is_space_lits tokens_colon
        tokens_word [OF _ _ is_space_lits(1)] tokens_word [OF _ _ is_space_lits(2)]
        plain_quoted plain_append plain_lits append_is_Nil_conv simp_thms)
  also have "tokens (render_entries (e # es) @ ''}'') = entry_tokens (e # es) @ [''}'']"
    using 3 by simp
  finally show ?case by simp
qed

lemma key_of_quoted [simp]: "key_of (quoted k) = k"
  by (simp add: key_of_def inner_def quoted_def)

lemma value_of_quoted [simp]: "value_of (quoted v) = v" "value_of (quoted v @ '','') = v"
  by (simp_all add: value_of_def inner_def quoted_def)

lemma read_entries_tokens:
  "read_entries (entry_tokens es @ [t]) m = fold (\<lambda>(k, v). om_set k v) es m"
  by (induction es arbitrary: m rule: entry_tokens.induct) simp_all

lemma om_ok_fold_set: "om_ok m \<Longrightarrow> om_ok (fold (\<lambda>(k, v). om_set k v) es m)"
  by (induction es arbitrary: m) (auto simp: om_ok_om_set)

lemma om_find_fold_set:
  "om_ok m \<Longrightarrow> om_find (fold (\<lambda>(k, v). om_set k v) es m) = om_find m ++ map_of (rev es)"
  by (induction es arbitrary: m) (auto simp: om_ok_om_set om_find_om_set)



lemma om_ok_read_entries: "om_ok m \<Longrightarrow> om_ok (read_entries ts m)"
  by (induction ts m rule: read_entries.induct) (simp_all add: om_ok_om_set)

lemma om_ok_read_config_file [simp]: "om_ok (read_config_file file)"
  by (auto simp: read_config_file_def om_ok_read_entries split: option.splits)

lemma get_config_total: "m \<noteq> [] \<Longrightarrow> returns (get_config m key)"
  by (auto simp: get_config_def returns_iff split: option.splits list.splits)

lemma get_config_present: "om_find m (json_name key) = Some v \<Longrightarrow> get_config m key = Ret v"
  by (simp add: get_config_def)

lemma get_number_present:
  "om_find m (json_name key) = Some (print_nat n) \<Longrightarrow> n < 2 ^ 31
    \<Longrightarrow> get_number m key = Ret (word_of_nat n)"
  by (simp add: get_number_def get_config_present atoi_print)

end
