(* ===== verification/Base64.thy ===== *)
theory Base64
  imports Prelude
begin

text \<open>
  \<open>src/common/crypto/kyrin_base64.cc\<close> and \<open>kyrin_hex.h\<close>: the byte-at-a-time encoder
  and decoder with their three- and four-byte buffers, and the hexadecimal printer. The
  buffers are kept as lists holding the bytes written so far (\<open>char_array_3[0..i-1]\<close>,
  \<open>char_array_4[0..i-1]\<close>). The theory proves the encoder equal to the RFC 4648 digit
  arithmetic, the round trip, and the facts the HTTP layer relies on (no NUL, four
  characters per started group of three bytes).
\<close>

unbundle bit_operations_syntax

section \<open>The alphabet\<close>

definition base64_chars :: string where
  "base64_chars =
     ''ABCDEFGHIJKLMNOPQRSTUVWXYZ'' @
     ''abcdefghijklmnopqrstuvwxyz'' @
     ''0123456789+/''"

text \<open>\<open>isalnum\<close> of the C locale.\<close>

definition is_alnum :: "char \<Rightarrow> bool" where
  "is_alnum c \<longleftrightarrow> (CHR ''A'' \<le> c \<and> c \<le> CHR ''Z'') \<or> (CHR ''a'' \<le> c \<and> c \<le> CHR ''z'')
     \<or> (CHR ''0'' \<le> c \<and> c \<le> CHR ''9'')"

definition is_base64 :: "char \<Rightarrow> bool" where
  "is_base64 c \<longleftrightarrow> is_alnum c \<or> c = CHR ''+'' \<or> c = CHR ''/''"

text \<open>
  \<open>base64_chars.find(c)\<close> stored in an \<open>unsigned char\<close>: \<open>npos\<close> becomes 255.
\<close>

fun str_find :: "string \<Rightarrow> char \<Rightarrow> nat \<Rightarrow> u64" where
  "str_find [] c i = - 1"
| "str_find (d # ds) c i = (if d = c then word_of_nat i else str_find ds c (Suc i))"

definition base64_find :: "char \<Rightarrow> u8" where
  "base64_find c = ucast (str_find base64_chars c 0)"

section \<open>Encoding\<close>

text \<open>\<open>char_array_4\<close> computed from \<open>char_array_3\<close> (lines 55 to 58 and 71 to 74).\<close>

definition enc_quad :: "u8 \<Rightarrow> u8 \<Rightarrow> u8 \<Rightarrow> u8 list" where
  "enc_quad a b c =
     [drop_bit 2 (a AND 0xfc),
      push_bit 4 (a AND 0x03) + drop_bit 4 (b AND 0xf0),
      push_bit 2 (b AND 0x0f) + drop_bit 6 (c AND 0xc0),
      c AND 0x3f]"

definition emit :: "u8 list \<Rightarrow> string" where
  "emit ws = map (\<lambda>w. base64_chars ! unat w) ws"

definition zero_fill :: "nat \<Rightarrow> u8 list \<Rightarrow> u8 list" where
  "zero_fill n ws = ws @ replicate (n - length ws) 0"

definition quad_of :: "u8 list \<Rightarrow> u8 list" where
  "quad_of ws = enc_quad (ws ! 0) (ws ! 1) (ws ! 2)"

text \<open>The block after the loop: \<open>buf\<close> holds \<open>i < 3\<close> bytes.\<close>

definition enc_tail :: "u8 list \<Rightarrow> string \<Rightarrow> string" where
  "enc_tail buf ret =
     (if buf = [] then ret
      else ret @ emit (take (length buf + 1) (quad_of (zero_fill 3 buf)))
               @ replicate (3 - length buf) (CHR ''=''))"

fun enc_loop :: "u8 list \<Rightarrow> u8 list \<Rightarrow> string \<Rightarrow> string" where
  "enc_loop [] buf ret = enc_tail buf ret"
| "enc_loop (w # ws) buf ret =
     (let buf' = buf @ [w] in
      if length buf' = 3 then enc_loop ws [] (ret @ emit (quad_of buf'))
      else enc_loop ws buf' ret)"

definition base64_encode :: "string \<Rightarrow> string" where
  "base64_encode s = enc_loop (map uc s) [] []"

section \<open>Decoding\<close>

text \<open>\<open>char_array_3\<close> computed from \<open>char_array_4\<close> (lines 102 to 104 and 119 to 121).\<close>

definition dec_triple :: "u8 \<Rightarrow> u8 \<Rightarrow> u8 \<Rightarrow> u8 \<Rightarrow> u8 list" where
  "dec_triple p q r s =
     [push_bit 2 p + drop_bit 4 (q AND 0x30),
      push_bit 4 (q AND 0xf) + drop_bit 2 (r AND 0x3c),
      push_bit 6 (r AND 0x3) + s]"

definition triple_of :: "string \<Rightarrow> u8 list" where
  "triple_of cs = dec_triple (base64_find (cs ! 0)) (base64_find (cs ! 1))
     (base64_find (cs ! 2)) (base64_find (cs ! 3))"

text \<open>The block after the loop: the unused slots are 0, for which \<open>find\<close> yields 255.\<close>

definition dec_tail :: "string \<Rightarrow> string \<Rightarrow> string" where
  "dec_tail buf ret =
     (if buf = [] then ret
      else ret @ map sc (take (length buf - 1)
             (triple_of (buf @ replicate (4 - length buf) nul))))"

fun dec_loop :: "string \<Rightarrow> string \<Rightarrow> string \<Rightarrow> string" where
  "dec_loop [] buf ret = dec_tail buf ret"
| "dec_loop (c # cs) buf ret =
     (if c \<noteq> CHR ''='' \<and> is_base64 c then
        (let buf' = buf @ [c] in
         if length buf' = 4 then dec_loop cs [] (ret @ map sc (triple_of buf'))
         else dec_loop cs buf' ret)
      else dec_tail buf ret)"

definition base64_decode :: "string \<Rightarrow> string" where
  "base64_decode s = dec_loop s [] []"

section \<open>Hexadecimal\<close>

definition hex_lut :: string where
  "hex_lut = ''0123456789abcdef''"

fun hex_loop :: "u8 list \<Rightarrow> string \<Rightarrow> string" where
  "hex_loop [] out = out"
| "hex_loop (w # ws) out =
     hex_loop ws (out @ [hex_lut ! unat (drop_bit 4 w)] @ [hex_lut ! unat (w AND 15)])"

definition string_to_hex :: "string \<Rightarrow> string" where
  "string_to_hex s = hex_loop (map uc s) []"

section \<open>Bit fields as arithmetic\<close>

lemma drop_masked:
  "unat (drop_bit 2 (a AND 0xfc) :: u8) = unat a div 4"
  "unat (drop_bit 4 (a AND 0xf0) :: u8) = unat a div 16"
  "unat (drop_bit 6 (a AND 0xc0) :: u8) = unat a div 64"
proof -
  have "drop_bit 2 (a AND 0xfc) = drop_bit 2 a" "drop_bit 4 (a AND 0xf0) = drop_bit 4 a"
    "drop_bit 6 (a AND 0xc0) = drop_bit 6 a"
    by (rule bit_word_eqI,
        auto simp: bit_simps numeral_eq_Suc less_Suc_eq dest: bit_imp_le_length)+
  then show "unat (drop_bit 2 (a AND 0xfc) :: u8) = unat a div 4"
    "unat (drop_bit 4 (a AND 0xf0) :: u8) = unat a div 16"
    "unat (drop_bit 6 (a AND 0xc0) :: u8) = unat a div 64"
    by (simp_all add: unat_drop_bit_eq drop_bit_eq_div unat_div_distrib)
qed

lemma drop_field:
  "unat (drop_bit 4 (b AND 0x30) :: u8) = unat b div 16 mod 4"
  "unat (drop_bit 2 (b AND 0x3c) :: u8) = unat b div 4 mod 16"
proof -
  have "drop_bit 4 (b AND 0x30) = take_bit 2 (drop_bit 4 b)"
    "drop_bit 2 (b AND 0x3c) = take_bit 4 (drop_bit 2 b)"
    by (rule bit_word_eqI, auto simp: bit_simps numeral_eq_Suc less_Suc_eq)+
  then show "unat (drop_bit 4 (b AND 0x30) :: u8) = unat b div 16 mod 4"
    "unat (drop_bit 2 (b AND 0x3c) :: u8) = unat b div 4 mod 16"
    by (simp_all add: drop_bit_eq_div take_bit_eq_mod unat_div_distrib unat_mod_distrib)
qed

lemma low_field:
  "unat (a AND 3 :: u8) = unat a mod 4"
  "unat (a AND 15 :: u8) = unat a mod 16"
  "unat (a AND 63 :: u8) = unat a mod 64"
proof -
  have "a AND 3 = take_bit 2 a" "a AND 15 = take_bit 4 a" "a AND 63 = take_bit 6 a"
    by (rule bit_word_eqI, auto simp: bit_simps numeral_eq_Suc less_Suc_eq)+
  then show "unat (a AND 3 :: u8) = unat a mod 4" "unat (a AND 15 :: u8) = unat a mod 16"
    "unat (a AND 63 :: u8) = unat a mod 64"
    by (simp_all add: take_bit_eq_mod unat_mod_distrib)
qed

lemma shift_up: "unat (push_bit n w :: u8) = unat w * 2 ^ n mod 256"
  by (simp only: unsigned_push_bit_eq) (simp add: take_bit_eq_mod push_bit_eq_mult)

lemma u8_less: "unat (w :: u8) < 256"
  using unsigned_less [of w] by simp

lemmas bit_fields = drop_masked drop_field low_field shift_up unat_word_ariths

lemma field_bounds:
  "unat (a :: u8) div 4 < 64" "unat a div 16 < 16" "unat a div 64 < 4"
  "unat a mod 4 < 4" "unat a mod 16 < 16" "unat a mod 64 < 64"
  using u8_less [of a] by (simp_all add: less_mult_imp_div_less)

lemma unat_enc_quad:
  "map unat (enc_quad a b c) =
     [unat a div 4, unat a mod 4 * 16 + unat b div 16,
      unat b mod 16 * 4 + unat c div 64, unat c mod 64]"
proof -
  have 1: "(unat a mod 4 * 16 mod 256 + unat b div 16) mod 256 = unat a mod 4 * 16 + unat b div 16"
    using field_bounds(4) [of a] field_bounds(2) [of b] by simp
  have 2: "(unat b mod 16 * 4 mod 256 + unat c div 64) mod 256
      = unat b mod 16 * 4 + unat c div 64"
    using field_bounds(5) [of b] field_bounds(3) [of c] by simp
  have n: "(2::nat) ^ 4 = 16" "(2::nat) ^ 2 = 4" "(2::nat) ^ LENGTH(8) = 256" by simp_all
  show ?thesis
    by (simp only: enc_quad_def list.map bit_fields n 1 2)
qed

lemma enc_quad_less: "w \<in> set (enc_quad a b c) \<Longrightarrow> unat w < 64"
proof -
  assume "w \<in> set (enc_quad a b c)"
  then have "unat w \<in> set (map unat (enc_quad a b c))" by simp
  then consider "unat w = unat a div 4" | "unat w = unat a mod 4 * 16 + unat b div 16"
    | "unat w = unat b mod 16 * 4 + unat c div 64" | "unat w = unat c mod 64"
    unfolding unat_enc_quad by auto
  then show ?thesis
    using field_bounds(1,4) [of a] field_bounds(2,5) [of b] field_bounds(3,6) [of c]
    by cases linarith+
qed

lemma dec_enc_quad:
  "dec_triple (enc_quad a b c ! 0) (enc_quad a b c ! 1) (enc_quad a b c ! 2) (enc_quad a b c ! 3)
     = [a, b, c]"
proof -
  have q: "unat (enc_quad a b c ! 0) = unat a div 4"
    "unat (enc_quad a b c ! 1) = unat a mod 4 * 16 + unat b div 16"
    "unat (enc_quad a b c ! 2) = unat b mod 16 * 4 + unat c div 64"
    "unat (enc_quad a b c ! 3) = unat c mod 64"
    using unat_enc_quad [of a b c] by (auto simp: enc_quad_def)
  have 0: "(unat a div 4 * 4 mod 256 + (unat a mod 4 * 16 + unat b div 16) div 16 mod 4) mod 256
      = unat a"
    using field_bounds [of a] field_bounds [of b] u8_less [of a] by simp
  have 1: "((unat a mod 4 * 16 + unat b div 16) mod 16 * 16 mod 256
      + (unat b mod 16 * 4 + unat c div 64) div 4 mod 16) mod 256 = unat b"
    using field_bounds [of b] field_bounds [of c] u8_less [of b] by simp
  have 2: "((unat b mod 16 * 4 + unat c div 64) mod 4 * 64 mod 256 + unat c mod 64) mod 256 = unat c"
    using field_bounds [of b] field_bounds [of c] u8_less [of c] by simp
  show ?thesis
    unfolding dec_triple_def list.inject word_unat_eq_iff
    unfolding bit_fields q
    using 0 1 2 by simp
qed

section \<open>The alphabet is inverted by \<open>find\<close>\<close>

lemma alphabet_table:
  "list_all (\<lambda>i. base64_find (base64_chars ! i) = word_of_nat i
     \<and> is_base64 (base64_chars ! i) \<and> base64_chars ! i \<noteq> CHR ''=''
     \<and> base64_chars ! i \<noteq> nul) [0..<64]"
  by code_simp

lemma alphabet_nth:
  assumes "i < 64"
  shows "base64_find (base64_chars ! i) = word_of_nat i" "is_base64 (base64_chars ! i)"
    "base64_chars ! i \<noteq> CHR ''=''" "base64_chars ! i \<noteq> nul"
  using alphabet_table assms by (simp_all add: list_all_iff)

lemma length_base64_chars [simp]: "length base64_chars = 64"
  by (simp add: base64_chars_def)

section \<open>Three bytes at a time\<close>

lemma enc_loop_acc: "enc_loop ws buf ret = ret @ enc_loop ws buf []"
proof (induction ws arbitrary: buf ret)
  case Nil
  show ?case by (simp add: enc_tail_def)
next
  case (Cons w ws)
  show ?case
    using Cons.IH [of "[]" "ret @ emit (quad_of (buf @ [w]))"]
      Cons.IH [of "[]" "emit (quad_of (buf @ [w]))"] Cons.IH [of "buf @ [w]" ret]
    by (simp add: Let_def)
qed

lemma enc_loop_three:
  "enc_loop (a # b # c # ws) [] [] = emit (enc_quad a b c) @ enc_loop ws [] []"
  using enc_loop_acc [of ws "[]" "emit (enc_quad a b c)"]
  by (simp add: quad_of_def)

lemma enc_loop_rest:
  "enc_loop [] [] [] = []"
  "enc_loop [a] [] [] = emit (take 2 (enc_quad a 0 0)) @ ''==''"
  "enc_loop [a, b] [] [] = emit (take 3 (enc_quad a b 0)) @ ''=''"
  by (simp_all add: enc_tail_def zero_fill_def quad_of_def enc_quad_def emit_def numeral_eq_Suc)

text \<open>Induction in steps of three, with the two partial groups.\<close>

fun thirds :: "'a list \<Rightarrow> unit" where
  "thirds (a # b # c # xs) = thirds xs"
| "thirds _ = ()"

lemmas thirds_induct [case_names full none one two] = thirds.induct

lemma dec_loop_acc: "dec_loop cs buf ret = ret @ dec_loop cs buf []"
proof (induction cs arbitrary: buf ret)
  case Nil
  show ?case by (simp add: dec_tail_def)
next
  case (Cons c cs)
  show ?case
    using Cons.IH [of "[]" "ret @ map sc (triple_of (buf @ [c]))"]
      Cons.IH [of "[]" "map sc (triple_of (buf @ [c]))"] Cons.IH [of "buf @ [c]" ret]
    by (simp add: Let_def dec_tail_def)
qed

lemma emit_good:
  assumes "unat w < 64"
  shows "base64_find (base64_chars ! unat w) = w" "is_base64 (base64_chars ! unat w)"
    "base64_chars ! unat w \<noteq> CHR ''=''" "base64_chars ! unat w \<noteq> nul"
  using alphabet_nth [OF assms] by simp_all

lemma enc_quad_digits:
  "unat (enc_quad a b c ! 0) < 64" "unat (enc_quad a b c ! 1) < 64"
  "unat (enc_quad a b c ! 2) < 64" "unat (enc_quad a b c ! 3) < 64"
  by (rule enc_quad_less [of _ a b c], simp only: enc_quad_def, simp)+

lemma enc_quad_eq:
  "enc_quad a b c =
     [enc_quad a b c ! 0, enc_quad a b c ! 1, enc_quad a b c ! 2, enc_quad a b c ! 3]"
  by (simp add: enc_quad_def)

lemma dec_loop_four:
  assumes "unat p < 64" "unat q < 64" "unat r < 64" "unat s < 64"
  shows "dec_loop (emit [p, q, r, s] @ cs) [] [] = map sc (dec_triple p q r s) @ dec_loop cs [] []"
  using dec_loop_acc [of cs "[]" "map sc (dec_triple p q r s)"]
  by (simp add: emit_def triple_of_def emit_good [OF assms(1)] emit_good [OF assms(2)]
      emit_good [OF assms(3)] emit_good [OF assms(4)])

lemma dec_loop_rest:
  assumes "unat p < 64" "unat q < 64" "unat r < 64"
  shows "dec_loop (emit [p, q] @ ''=='') [] [] = map sc (take 1 (dec_triple p q 255 255))"
    and "dec_loop (emit [p, q, r] @ ''='') [] [] = map sc (take 2 (dec_triple p q r 255))"
proof -
  have nul_find: "base64_find nul = 255" by code_simp
  show "dec_loop (emit [p, q] @ ''=='') [] [] = map sc (take 1 (dec_triple p q 255 255))"
    and "dec_loop (emit [p, q, r] @ ''='') [] [] = map sc (take 2 (dec_triple p q r 255))"
    by (simp_all add: emit_def triple_of_def dec_tail_def nul_find emit_good [OF assms(1)]
        emit_good [OF assms(2)] emit_good [OF assms(3)] numeral_eq_Suc)
qed

lemma dec_triple_prefix:
  "take 1 (dec_triple p q r s) = take 1 (dec_triple p q r' s')"
  "take 2 (dec_triple p q r s) = take 2 (dec_triple p q r s')"
  by (simp_all add: dec_triple_def)

lemma decode_encode_bytes: "dec_loop (enc_loop ws [] []) [] [] = map sc ws"
proof (induction ws rule: thirds_induct)
  case (full a b c ws)
  have "dec_loop (emit (enc_quad a b c) @ enc_loop ws [] []) [] []
      = map sc [a, b, c] @ dec_loop (enc_loop ws [] []) [] []"
    by (subst enc_quad_eq)
      (simp only: dec_loop_four [OF enc_quad_digits] dec_enc_quad)
  then show ?case by (simp add: enc_loop_three full.IH del: enc_loop.simps)
next
  case none
  show ?case by (simp add: enc_tail_def dec_tail_def)
next
  case (one a)
  have q: "take 2 (enc_quad a 0 0) = [enc_quad a 0 0 ! 0, enc_quad a 0 0 ! 1]"
    by (simp add: enc_quad_def)
  have "take 1 (dec_triple (enc_quad a 0 0 ! 0) (enc_quad a 0 0 ! 1) 255 255) = [a]"
    using dec_enc_quad [of a 0 0] dec_triple_prefix(1) by (metis take_Suc_Cons take_0 One_nat_def)
  then show ?case
    unfolding enc_loop_rest q
    by (simp only: dec_loop_rest(1) [OF enc_quad_digits(1,2) enc_quad_digits(3)])
next
  case (two a b)
  have q: "take 3 (enc_quad a b 0)
      = [enc_quad a b 0 ! 0, enc_quad a b 0 ! 1, enc_quad a b 0 ! 2]"
    by (simp add: enc_quad_def)
  have "take 2 (dec_triple (enc_quad a b 0 ! 0) (enc_quad a b 0 ! 1) (enc_quad a b 0 ! 2) 255)
      = [a, b]"
    using dec_enc_quad [of a b 0] dec_triple_prefix(2)
    by (metis take_Suc_Cons take_0 numeral_2_eq_2)
  then show ?case
    unfolding enc_loop_rest q
    by (simp only: dec_loop_rest(2) [OF enc_quad_digits(1-3)])
qed

section \<open>The codec interface\<close>

text \<open>
  What every handler relies on when it moves bytes through HTTP bodies and C strings.
\<close>

locale text_codec =
  fixes enc :: "'a \<Rightarrow> string" and dec :: "string \<Rightarrow> 'a"
  assumes dec_enc: "dec (enc x) = x"
    and enc_no_nul: "nul \<notin> set (enc x)"
begin

lemma enc_eq_iff: "enc x = enc y \<longleftrightarrow> x = y"
  by (metis dec_enc)

lemma enc_c_str: "c_str (enc x) = enc x"
  by (simp add: enc_no_nul)

lemma dec_c_str_enc: "dec (c_str (enc x)) = x"
  by (simp add: enc_c_str dec_enc)

end

lemma enc_loop_alphabet:
  "set (enc_loop ws [] []) \<subseteq> {base64_chars ! i | i. i < 64} \<union> {CHR ''=''}"
proof -
  have emit_set: "set (emit (take n (enc_quad a b c))) \<subseteq> {base64_chars ! i | i. i < 64}" for n a b c
    unfolding emit_def using enc_quad_less by (fastforce dest: in_set_takeD)
  have full: "set (emit (enc_quad a b c)) \<subseteq> {base64_chars ! i | i. i < 64}" for a b c
    using emit_set [of 4 a b c] by (simp add: enc_quad_def)
  show ?thesis
  proof (induction ws rule: thirds_induct)
    case (full a b c ws)
    then show ?case
      using \<open>set (emit (enc_quad a b c)) \<subseteq> _\<close>
      unfolding enc_loop_three by auto
  next
    case none
    show ?case by (simp add: enc_tail_def)
  next
    case (one a)
    show ?case unfolding enc_loop_rest using emit_set [of 2 a 0 0] by auto
  next
    case (two a b)
    show ?case unfolding enc_loop_rest using emit_set [of 3 a b 0] by auto
  qed
qed

lemma base64_no_nul: "nul \<notin> set (base64_encode s)"
proof
  assume "nul \<in> set (base64_encode s)"
  then have "nul \<in> {base64_chars ! i | i. i < 64}"
    using enc_loop_alphabet [of "map uc s"] by (auto simp: base64_encode_def)
  then obtain i where "i < 64" and "base64_chars ! i = nul" by auto
  then show False using alphabet_nth(4) by simp
qed

lemma base64_decode_encode: "base64_decode (base64_encode s) = s"
  by (simp add: base64_decode_def base64_encode_def decode_encode_bytes)

interpretation b64: text_codec base64_encode base64_decode
  by unfold_locales (simp_all add: base64_decode_encode base64_no_nul)

section \<open>The encoder against RFC 4648\<close>

text \<open>The reference: groups of bytes read as one big-endian number, cut into base-64 digits.\<close>

definition rfc_digit :: "nat \<Rightarrow> char" where
  "rfc_digit n = base64_chars ! (n mod 64)"

fun rfc4648 :: "nat list \<Rightarrow> string" where
  "rfc4648 (a # b # c # xs) =
     (let n = (a * 256 + b) * 256 + c
      in map rfc_digit [n div 64 ^ 3, n div 64 ^ 2, n div 64, n]) @ rfc4648 xs"
| "rfc4648 [a, b] =
     (let n = (a * 256 + b) * 4 in map rfc_digit [n div 64 ^ 2, n div 64, n]) @ ''=''"
| "rfc4648 [a] = (let n = a * 16 in map rfc_digit [n div 64, n]) @ ''==''"
| "rfc4648 [] = []"

lemma emit_unat: "emit ws = map (\<lambda>n. base64_chars ! n) (map unat ws)"
  by (simp add: emit_def)

lemma horner_digits:
  fixes p q r t :: nat
  assumes "p < 64" "q < 64" "r < 64" "t < 64"
  shows "(((p * 64 + q) * 64 + r) * 64 + t) div 64 ^ 3 mod 64 = p"
    "(((p * 64 + q) * 64 + r) * 64 + t) div 64 ^ 2 mod 64 = q"
    "(((p * 64 + q) * 64 + r) * 64 + t) div 64 mod 64 = r"
    "(((p * 64 + q) * 64 + r) * 64 + t) mod 64 = t"
    "((p * 64 + q) * 64 + r) div 64 ^ 2 mod 64 = p"
    "((p * 64 + q) * 64 + r) div 64 mod 64 = q"
    "((p * 64 + q) * 64 + r) mod 64 = r"
    "(p * 64 + q) div 64 mod 64 = p"
    "(p * 64 + q) mod 64 = q"
proof -
  have e: "n div 64 ^ 3 = n div 64 div 64 div 64" "n div 64 ^ 2 = n div 64 div 64" for n :: nat
    by (simp_all add: div_mult2_eq [symmetric])
  have d: "(x * 64 + y) div 64 = x" "(x * 64 + y) mod 64 = y" if "y < 64" for x y :: nat
    using that by simp_all
  show "(((p * 64 + q) * 64 + r) * 64 + t) div 64 ^ 3 mod 64 = p"
    "(((p * 64 + q) * 64 + r) * 64 + t) div 64 ^ 2 mod 64 = q"
    "(((p * 64 + q) * 64 + r) * 64 + t) div 64 mod 64 = r"
    "(((p * 64 + q) * 64 + r) * 64 + t) mod 64 = t"
    "((p * 64 + q) * 64 + r) div 64 ^ 2 mod 64 = p"
    "((p * 64 + q) * 64 + r) div 64 mod 64 = q"
    "((p * 64 + q) * 64 + r) mod 64 = r"
    "(p * 64 + q) div 64 mod 64 = p"
    "(p * 64 + q) mod 64 = q"
    using assms by (simp_all only: e d mod_less)
qed

lemma regroup:
  fixes p q r t u v :: nat
  shows "((4 * p + q) * 256 + (16 * r + t)) * 256 + (64 * u + v) =
      ((p * 64 + (q * 16 + r)) * 64 + (t * 4 + u)) * 64 + v"
    "((4 * p + q) * 256 + (16 * r + t)) * 4 = (p * 64 + (q * 16 + r)) * 64 + t * 4"
    "(4 * p + q) * 16 = p * 64 + q * 16"
  by simp_all

lemma group_horner:
  fixes a b c :: nat
  shows "(a * 256 + b) * 256 + c =
      ((a div 4 * 64 + (a mod 4 * 16 + b div 16)) * 64 + (b mod 16 * 4 + c div 64)) * 64 + c mod 64"
    "(a * 256 + b) * 4 = (a div 4 * 64 + (a mod 4 * 16 + b div 16)) * 64 + b mod 16 * 4"
    "a * 16 = a div 4 * 64 + a mod 4 * 16"
  using regroup(1) [of "a div 4" "a mod 4" "b div 16" "b mod 16" "c div 64" "c mod 64"]
    regroup(2) [of "a div 4" "a mod 4" "b div 16" "b mod 16"]
    regroup(3) [of "a div 4" "a mod 4"]
  unfolding mult_div_mod_eq by (simp_all only:)

lemma small_sums:
  fixes y z :: nat
  shows "y < 4 \<Longrightarrow> z < 16 \<Longrightarrow> y * 16 + z < 64" "y < 16 \<Longrightarrow> z < 4 \<Longrightarrow> y * 4 + z < 64"
    "y < 16 \<Longrightarrow> y * 4 < 64" "y < 4 \<Longrightarrow> y * 16 < 64"
  by simp_all

lemma digit_bounds:
  "unat (a :: u8) div 4 < 64" "unat a mod 4 * 16 + unat (b :: u8) div 16 < 64"
  "unat b mod 16 * 4 + unat (c :: u8) div 64 < 64" "unat c mod 64 < 64"
  "unat b mod 16 * 4 < 64" "unat a mod 4 * 16 < 64"
  by (rule field_bounds(1), rule small_sums(1) [OF field_bounds(4) field_bounds(2)],
      rule small_sums(2) [OF field_bounds(5) field_bounds(3)], rule field_bounds(6),
      rule small_sums(3) [OF field_bounds(5)], rule small_sums(4) [OF field_bounds(4)])

lemma emit_full: "emit (enc_quad a b c) = map (\<lambda>n. base64_chars ! n)
    [unat a div 4, unat a mod 4 * 16 + unat b div 16,
     unat b mod 16 * 4 + unat c div 64, unat c mod 64]"
  unfolding emit_unat unat_enc_quad ..

lemma emit_part:
  "emit (take 2 (enc_quad a 0 0)) = map (\<lambda>n. base64_chars ! n) [unat a div 4, unat a mod 4 * 16]"
  "emit (take 3 (enc_quad a b 0)) = map (\<lambda>n. base64_chars ! n)
    [unat a div 4, unat a mod 4 * 16 + unat b div 16, unat b mod 16 * 4]"
  unfolding emit_unat take_map [symmetric] unat_enc_quad by simp_all

lemma rfc_groups:
  "rfc4648 (unat (a :: u8) # unat (b :: u8) # unat (c :: u8) # xs) = emit (enc_quad a b c) @ rfc4648 xs"
  "rfc4648 [unat a, unat b] = emit (take 3 (enc_quad a b 0)) @ ''=''"
  "rfc4648 [unat a] = emit (take 2 (enc_quad a 0 0)) @ ''==''"
  unfolding rfc4648.simps Let_def emit_full emit_part list.map rfc_digit_def
    group_horner(1) [of "unat a" "unat b" "unat c"] group_horner(2) [of "unat a" "unat b"]
    group_horner(3) [of "unat a"]
    horner_digits [OF digit_bounds(1-4)] horner_digits(5-7) [OF digit_bounds(1,2,5,4)]
    horner_digits(8,9) [OF digit_bounds(1,6) digit_bounds(3,4)]
  by (rule refl)+

lemma enc_loop_rfc: "enc_loop ws [] [] = rfc4648 (map unat ws)"
  by (induction ws rule: thirds_induct)
    (simp_all add: enc_loop_three enc_loop_rest rfc_groups del: enc_loop.simps rfc4648.simps(1-3))

lemma length_rfc4648: "length (rfc4648 xs) = 4 * ((length xs + 2) div 3)"
  by (induction xs rule: rfc4648.induct) (simp_all add: Let_def, presburger)

lemma base64_length: "length (base64_encode s) = 4 * ((length s + 2) div 3)"
  by (simp add: base64_encode_def enc_loop_rfc length_rfc4648)

text \<open>
  C32: The byte-at-a-time encoder, with its masks and shifts on \<open>unsigned char\<close>, computes
  the base-64 text of RFC 4648 with padding: each group of three bytes is one number whose
  four base-64 digits index the alphabet.
\<close>

theorem base64_encode_rfc4648: "base64_encode s = rfc4648 (map of_char s)"
  by (simp add: base64_encode_def enc_loop_rfc comp_def)

text \<open>
  C31: Decoding inverts encoding for every byte string (NUL bytes included), and the encoded
  text contains no NUL, so it survives being passed as a C string.
\<close>

theorem base64_roundtrip:
  "base64_decode (base64_encode s) = s \<and> base64_decode (c_str (base64_encode s)) = s"
  by (simp add: b64.dec_enc b64.enc_c_str)

section \<open>What the decoder does with arbitrary text\<close>

abbreviation b64_prefix :: "string \<Rightarrow> string" where
  "b64_prefix s \<equiv> takeWhile (\<lambda>c. c \<noteq> CHR ''='' \<and> is_base64 c) s"

lemma dec_loop_prefix: "dec_loop cs buf ret = dec_loop (b64_prefix cs) buf ret"
  by (induction cs arbitrary: buf ret) (auto simp: Let_def)

lemma length_triple_of: "length (triple_of cs) = 3"
  by (simp add: triple_of_def dec_triple_def)

lemma dec_loop_length:
  assumes "list_all (\<lambda>c. c \<noteq> CHR ''='' \<and> is_base64 c) cs" and "length buf < 4"
  shows "length (dec_loop cs buf ret) =
    length ret + 3 * ((length buf + length cs) div 4) + ((length buf + length cs) mod 4 - 1)"
  using assms
proof (induction cs arbitrary: buf ret)
  case Nil
  then have "length buf - 1 < 3" and "length buf div 4 = 0" and "length buf mod 4 = length buf"
    by auto
  then show ?case by (simp add: dec_tail_def length_triple_of)
next
  case (Cons c cs)
  show ?case
  proof (cases "length buf = 3")
    case True
    then have e: "length buf + length (c # cs) = length cs + 4" by simp
    have "dec_loop (c # cs) buf ret = dec_loop cs [] (ret @ map sc (triple_of (buf @ [c])))"
      using Cons.prems True by (simp add: Let_def)
    moreover have "length (dec_loop cs [] (ret @ map sc (triple_of (buf @ [c]))))
        = length ret + 3 + 3 * (length cs div 4) + (length cs mod 4 - 1)"
      using Cons.prems by (subst Cons.IH) (simp_all add: length_triple_of)
    moreover have "(length cs + 4) div 4 = length cs div 4 + 1"
      "(length cs + 4) mod 4 = length cs mod 4"
      by simp_all
    ultimately show ?thesis unfolding e by (simp del: dec_loop.simps)
  next
    case False
    then show ?thesis using Cons by (simp add: Let_def)
  qed
qed

text \<open>
  On arbitrary input the decoder reads exactly the longest prefix of alphabet characters
  (it stops at the first \<open>=\<close> or foreign character and ignores the rest), and from \<open>n\<close> such
  characters it produces three bytes per full group of four and \<open>n mod 4 - 1\<close> bytes for a
  started group.
\<close>

theorem base64_decode_prefix:
  "base64_decode s = base64_decode (b64_prefix s)
   \<and> length (base64_decode s) =
       3 * (length (b64_prefix s) div 4) + (length (b64_prefix s) mod 4 - 1)"
proof
  show "base64_decode s = base64_decode (b64_prefix s)"
    unfolding base64_decode_def by (rule dec_loop_prefix)
  have "list_all (\<lambda>c. c \<noteq> CHR ''='' \<and> is_base64 c) (b64_prefix s)"
    by (auto simp: list_all_iff dest: set_takeWhileD)
  from dec_loop_length [OF this, of "[]" "[]"]
  show "length (base64_decode s) =
       3 * (length (b64_prefix s) div 4) + (length (b64_prefix s) mod 4 - 1)"
    unfolding base64_decode_def by (subst dec_loop_prefix) simp
qed

section \<open>The hexadecimal printer\<close>

lemma hex_loop_acc: "hex_loop ws out = out @ hex_loop ws []"
proof (induction ws arbitrary: out)
  case Nil
  show ?case by simp
next
  case (Cons w ws)
  show ?case
    using Cons.IH [of "out @ [hex_lut ! unat (drop_bit 4 w)] @ [hex_lut ! unat (w AND 15)]"]
      Cons.IH [of "[hex_lut ! unat (drop_bit 4 w), hex_lut ! unat (w AND 15)]"]
    by simp
qed

lemma hex_lut_nth_eq: "i < 16 \<Longrightarrow> j < 16 \<Longrightarrow> hex_lut ! i = hex_lut ! j \<longleftrightarrow> i = j"
  by (rule nth_eq_iff_index_eq) (simp_all add: hex_lut_def)

lemma hex_byte_inj:
  assumes "hex_lut ! unat (drop_bit 4 v) = hex_lut ! unat (drop_bit 4 w)"
    and "hex_lut ! unat (v AND 15) = hex_lut ! unat (w AND 15)"
  shows "v = (w :: u8)"
proof -
  have d: "unat (drop_bit 4 x) = unat x div 16" for x :: u8
    by (simp only: unat_drop_bit_eq) (simp add: drop_bit_eq_div)
  have "unat v div 16 = unat w div 16" "unat v mod 16 = unat w mod 16"
    using assms field_bounds [of v] field_bounds [of w]
    by (simp_all only: d low_field hex_lut_nth_eq)
  then show ?thesis by (metis div_mult_mod_eq word_unat_eq_iff)
qed

lemma hex_loop_inj: "hex_loop vs [] = hex_loop ws [] \<Longrightarrow> vs = ws"
proof (induction vs arbitrary: ws)
  case Nil
  then show ?case
    by (cases ws) (simp_all, subst (asm) hex_loop_acc, simp)
next
  case (Cons v vs)
  have hex_Cons: "hex_loop (x # xs) [] =
      hex_lut ! unat (drop_bit 4 x) # hex_lut ! unat (x AND 15) # hex_loop xs []" for x xs
    using hex_loop_acc [of xs "[hex_lut ! unat (drop_bit 4 x), hex_lut ! unat (x AND 15)]"]
    by simp
  obtain w ws' where w: "ws = w # ws'"
    using Cons.prems unfolding hex_Cons by (cases ws) auto
  have "hex_loop vs [] = hex_loop ws' []" and "v = w"
    using Cons.prems unfolding w hex_Cons by (auto intro: hex_byte_inj)
  then show ?case using Cons.IH w by blast
qed

lemma length_string_to_hex: "length (string_to_hex s) = 2 * length s"
proof -
  have "length (hex_loop ws out) = length out + 2 * length ws" for ws out
    by (induction ws arbitrary: out) simp_all
  then show ?thesis by (simp add: string_to_hex_def)
qed

lemma string_to_hex_inj: "string_to_hex s = string_to_hex t \<Longrightarrow> s = t"
proof -
  have "inj uc" by (simp add: inj_def)
  then show "string_to_hex s = string_to_hex t \<Longrightarrow> s = t"
    by (auto simp: string_to_hex_def inj_map_eq_map dest: hex_loop_inj)
qed

text \<open>
  The hexadecimal text of a digest has two characters per byte and determines it, so
  comparing digests by their text compares the digests.
\<close>

theorem string_to_hex_faithful:
  "length (string_to_hex s) = 2 * length s
   \<and> (string_to_hex s = string_to_hex t \<longleftrightarrow> s = t)"
  by (auto simp: length_string_to_hex dest: string_to_hex_inj)

end
