(* ===== verification/Base_Server.thy ===== *)
theory Base_Server
  imports Config_Files Base64
begin

text \<open>
  \<open>server/base/kyrin_base_server.cc\<close>: what a handler sees of a request and how it replies.
  libevent's request is a header lookup and the bytes of the input buffer; a handler's
  reply is a value. Sockets, event loops and threads are not modelled, and the allocation of
  the reply buffer is taken to succeed. SHA-1 is the parameter \<open>sha\<close>.
\<close>

record request =
  find_header :: "string \<Rightarrow> string option" \<comment> \<open>\<open>evhttp_find_header\<close> on the input headers\<close>
  input_buffer :: string

definition server_get_header :: "request \<Rightarrow> string \<Rightarrow> string \<Rightarrow> bool \<times> string" where
  "server_get_header req key value =
     (case find_header req key of None \<Rightarrow> (False, value) | Some v \<Rightarrow> (True, c_str v))"

text \<open>The body is copied, not drained: a second call reads it again.\<close>

definition server_get_postdata :: "request \<Rightarrow> string \<Rightarrow> bool \<times> string" where
  "server_get_postdata req post_data =
     (let post_size = length (input_buffer req) in
      if 0 < post_size \<and> post_size < k_server_max_post_data_size
      then (True, input_buffer req)
      else (False, post_data))"

text \<open>Replies are printed with \<open>"%s"\<close> and so end at the first NUL.\<close>

definition server_send_reply_ok :: "string \<Rightarrow> reply" where
  "server_send_reply_ok msg = Reply_ok (c_str msg)"

definition server_send_reply_bad :: "string \<Rightarrow> reply" where
  "server_send_reply_bad msg = Reply_bad (c_str msg)"

text \<open>\<open>common/crypto/kyrin_sha1.cc\<close>: the digest as hexadecimal text.\<close>

definition kyrin_sha1 :: "(string \<Rightarrow> string) \<Rightarrow> string \<Rightarrow> string" where
  "kyrin_sha1 sha data = string_to_hex (sha data)"

text \<open>The flag, the reply text and the digest \<open>server_get_digest\<close> leaves behind.\<close>

definition server_get_digest ::
  "(string \<Rightarrow> string) \<Rightarrow> request \<Rightarrow> string \<Rightarrow> string \<Rightarrow> bool \<times> string \<times> string" where
  "server_get_digest sha req reply digest =
     (let (got_data, post_data) = server_get_postdata req [] in
      if \<not> got_data then (False, ''Can't read post data..'', digest)
      else
        let (got_time, timestamp) = server_get_header req ''KYRIN-TIMESTAMP'' [] in
        if \<not> got_time then (False, ''Can't read post KYRIN-TIMESTAMP..'', digest)
        else (True, reply, kyrin_sha1 sha (timestamp @ post_data)))"

lemma get_postdata_True:
  "server_get_postdata req x = (True, body) \<longleftrightarrow>
     body = input_buffer req \<and> 0 < length body \<and> length body < k_server_max_post_data_size"
  by (auto simp: server_get_postdata_def Let_def)

lemma get_postdata_False:
  "server_get_postdata req x = (False, y) \<longleftrightarrow>
     y = x \<and> (input_buffer req = [] \<or> k_server_max_post_data_size \<le> length (input_buffer req))"
  by (auto simp: server_get_postdata_def Let_def)

lemma get_header_True:
  "server_get_header req key x = (True, v) \<longleftrightarrow> (\<exists>h. find_header req key = Some h \<and> v = c_str h)"
  by (auto simp: server_get_header_def split: option.splits)

lemma get_digest_True:
  "server_get_digest sha req r d = (True, r', d') \<longleftrightarrow>
     (\<exists>ts. server_get_postdata req [] = (True, input_buffer req)
       \<and> find_header req ''KYRIN-TIMESTAMP'' = Some ts
       \<and> r' = r \<and> d' = kyrin_sha1 sha (c_str ts @ input_buffer req))"
  by (auto simp: server_get_digest_def server_get_postdata_def server_get_header_def Let_def
      split: option.splits)

lemma kyrin_sha1_eq: "kyrin_sha1 sha s = kyrin_sha1 sha t \<longleftrightarrow> sha s = sha t"
  by (auto simp: kyrin_sha1_def dest: string_to_hex_inj)

lemma is_ok_replies [simp]:
  "is_ok (server_send_reply_ok msg)" "\<not> is_ok (server_send_reply_bad msg)"
  "body_of (server_send_reply_ok msg) = c_str msg" "body_of (server_send_reply_bad msg) = c_str msg"
  by (simp_all add: server_send_reply_ok_def server_send_reply_bad_def)

end
