(* ===== verification/Protobuf.thy ===== *)
theory Protobuf
  imports Text_Format "HOL-Library.Countable"
begin

text \<open>
  Protocol-buffer messages. The classes are generated by \<open>protoc\<close> from the \<open>.proto\<close> files, so
  a message type is a datatype with the fields of its \<open>.proto\<close> declaration, and its
  serialisation is a parameter: \<open>SerializeToString\<close> gives a success flag and the text,
  \<open>ParseFromString\<close> a success flag and the message left behind (a partly filled one when the
  flag is false). What the code relies on is that parsing undoes serialising.
\<close>

record 'm codec =
  ser :: "'m \<Rightarrow> bool \<times> string"
  parse :: "string \<Rightarrow> bool \<times> 'm"

locale message_codec =
  fixes P :: "'m codec"
  assumes parse_ser: "ser P m = (True, s) \<Longrightarrow> parse P s = (True, m)"
begin

lemma ser_inj: "ser P m = (True, s) \<Longrightarrow> ser P n = (True, s) \<Longrightarrow> m = n"
  using parse_ser [of m s] parse_ser [of n s] by simp

lemma parse_snd_ser: "fst (ser P m) \<Longrightarrow> parse P (snd (ser P m)) = (True, m)"
  by (rule parse_ser) (simp add: prod_eq_iff)

end

section \<open>A reference codec\<close>

text \<open>
  Any message type of this development is countable, and printing the number of a message
  is a serialisation with the contract above; its text holds digits only, and a text with any
  other character does not parse.
\<close>

definition ref_codec :: "('m :: countable) codec" where
  "ref_codec = \<lparr>ser = (\<lambda>m. (True, print_nat (to_nat m))),
     parse = (\<lambda>s. (list_all is_digit s, from_nat (digits_val s)))\<rparr>"

lemma ref_codec_simps [simp]:
  "ser ref_codec m = (True, print_nat (to_nat m))"
  "parse ref_codec (print_nat (to_nat m)) = (True, m)"
  by (simp_all add: ref_codec_def digits_val_print list_all_iff print_nat_digits)

lemma ref_codec_strict: "\<exists>c \<in> set s. \<not> is_digit c \<Longrightarrow> \<not> fst (parse ref_codec s)"
  by (auto simp: ref_codec_def list_all_iff)

interpretation ref_codec: message_codec "ref_codec :: ('m :: countable) codec"
  by unfold_locales auto

text \<open>
  The same with a tag in front, leaving a given message behind when a text without it is parsed.
\<close>

definition tagged_codec :: "'m \<Rightarrow> ('m :: countable) codec" where
  "tagged_codec d =
     \<lparr>ser = (\<lambda>m. (True, CHR ''p'' # snd (ser ref_codec m))),
      parse = (\<lambda>s. if s \<noteq> [] \<and> hd s = CHR ''p'' then parse ref_codec (tl s) else (False, d))\<rparr>"

lemma tagged_codec_ok: "message_codec (tagged_codec d)"
  by unfold_locales (auto simp: tagged_codec_def)

section \<open>A table codec\<close>

text \<open>
  A codec for a short list of messages, one character each, for concrete runs. A message
  outside the list does not serialise, any other text does not parse.
\<close>

fun position :: "'m \<Rightarrow> 'm list \<Rightarrow> nat" where
  "position m [] = 0"
| "position m (x # xs) = (if m = x then 0 else Suc (position m xs))"

definition table_codec :: "'m list \<Rightarrow> 'm codec" where
  "table_codec ms =
     \<lparr>ser = (\<lambda>m. if m \<in> set ms then (True, [char_of (48 + position m ms)]) else (False, [])),
      parse = (\<lambda>s. case s of
          [c] \<Rightarrow> (let i = of_char c in if 48 \<le> i \<and> i < 48 + length ms then (True, ms ! (i - 48)) else (False, hd ms))
        | _ \<Rightarrow> (False, hd ms))\<rparr>"

lemma position_less: "m \<in> set ms \<Longrightarrow> position m ms < length ms \<and> ms ! position m ms = m"
  by (induction ms) auto

lemma table_codec_ok:
  assumes "length ms < 200"
  shows "message_codec (table_codec ms)"
proof
  fix m s
  assume "ser (table_codec ms) m = (True, s)"
  then have m: "m \<in> set ms" "s = [char_of (48 + position m ms)]"
    by (auto simp: table_codec_def split: if_splits)
  then have "(48 + position m ms) mod 256 = 48 + position m ms" using position_less [OF m(1)] assms by simp
  then show "parse (table_codec ms) s = (True, m)"
    using m position_less [OF m(1)] by (simp add: table_codec_def Let_def)
qed

end
