(* ===== verification/Http_Client.thy ===== *)
theory Http_Client
  imports Text_Format
begin

text \<open>
  \<open>src/io/kyrin_http_client.cc\<close>: the blocking GET and POST the servers call each other
  with. libcurl and the network behind it are the parameter \<open>C\<close>, a record of the calls made
  on it, over an abstract world \<open>'w\<close> that each call may change. The \<open>timeout\<close> argument is
  accepted and never passed on, so it does not occur here. \<open>make_ev_request_get\<close>, a wrapper of
  libevent that no server calls, closes the theory.
\<close>

section \<open>libcurl as a parameter\<close>

datatype curl_opt = Curl_url string | Curl_post | Curl_postfields string
  | Curl_writefunction | Curl_writedata

record 'w curl_ops =
  curl_init :: "'w \<Rightarrow> bool \<times> 'w"
  curl_setopt :: "curl_opt \<Rightarrow> 'w \<Rightarrow> bool \<times> 'w"
  curl_perform :: "curl_opt list \<Rightarrow> 'w \<Rightarrow> (bool \<times> string list) \<times> 'w"
    \<comment> \<open>whether the result was \<open>CURLE_OK\<close>, and the blocks handed to the write callback\<close>

section \<open>The code\<close>

definition write_function :: "string \<Rightarrow> string \<Rightarrow> string" where
  "write_function data content = content @ data"

text \<open>\<open>sprintf(url, "http://%s:%d%s", host, port, uri)\<close>.\<close>

definition http_url :: "string \<Rightarrow> u32 \<Rightarrow> string \<Rightarrow> string" where
  "http_url host port uri = ''http://'' @ c_str host @ '':'' @ print_d port @ c_str uri"

text \<open>The chain of \<open>curl_easy_setopt\<close> calls stops at the first failure.\<close>

fun set_opts :: "'w curl_ops \<Rightarrow> curl_opt list \<Rightarrow> 'w \<Rightarrow> bool \<times> 'w" where
  "set_opts C [] w = (True, w)"
| "set_opts C (x # xs) w =
     (let (ok, w') = curl_setopt C x w in if ok then set_opts C xs w' else (False, w'))"

text \<open>
  The result: the returned flag, the string \<open>response\<close> refers to afterwards, the world. When
  no handle is made the call still returns true with \<open>response\<close> as it was; the URL buffer
  has 1024 bytes.
\<close>

definition curl_request ::
  "'w curl_ops \<Rightarrow> string \<Rightarrow> curl_opt list \<Rightarrow> string \<Rightarrow> 'w \<Rightarrow> (bool \<times> string \<times> 'w) outcome" where
  "curl_request C url opts response w =
     (let (handle, w1) = curl_init C w in
      if \<not> handle then Ret (True, response, w1)
      else if 1024 \<le> length url then Undef
      else
        let (ok, w2) = set_opts C opts w1 in
        if \<not> ok then Ret (False, [], w2)
        else
          let ((done, blocks), w3) = curl_perform C opts w2 in
          if done then Ret (True, fold write_function blocks response, w3)
          else Ret (False, [], w3))"

definition make_request_get ::
  "'w curl_ops \<Rightarrow> string \<Rightarrow> u32 \<Rightarrow> string \<Rightarrow> string \<Rightarrow> 'w \<Rightarrow> (bool \<times> string \<times> 'w) outcome" where
  "make_request_get C host port uri response w =
     curl_request C (http_url host port uri)
       [Curl_url (http_url host port uri), Curl_writefunction, Curl_writedata] response w"

definition make_request_post ::
  "'w curl_ops \<Rightarrow> string \<Rightarrow> u32 \<Rightarrow> string \<Rightarrow> string \<Rightarrow> string \<Rightarrow> 'w
     \<Rightarrow> (bool \<times> string \<times> 'w) outcome" where
  "make_request_post C host port uri response postdata w =
     curl_request C (http_url host port uri)
       [Curl_url (http_url host port uri), Curl_post, Curl_postfields (c_str postdata),
        Curl_writefunction, Curl_writedata] response w"

section \<open>Facts about requests\<close>

lemma fold_write_function: "fold write_function blocks response = response @ concat blocks"
  by (induction blocks arbitrary: response) (simp_all add: write_function_def)

lemma curl_request_not_Diverge: "curl_request C url opts response w \<noteq> Diverge"
  by (auto simp: curl_request_def Let_def split: prod.splits)

lemma curl_request_Ret:
  assumes "length url < 1024"
  shows "returns (curl_request C url opts response w)"
  using assms by (auto simp: curl_request_def Let_def returns_def split: prod.splits)

lemma curl_request_false:
  "curl_request C url opts response w = Ret (False, r, w') \<Longrightarrow> r = []"
  by (auto simp: curl_request_def Let_def split: prod.splits if_splits)

lemma curl_request_true:
  "curl_request C url opts response w = Ret (True, r, w') \<Longrightarrow> \<exists>body. r = response @ body"
  by (auto simp: curl_request_def Let_def fold_write_function split: prod.splits if_splits)

text \<open>
  A request either fails, and then leaves the empty string in \<open>response\<close> whatever it held
  before, or succeeds, and then appends the body to what \<open>response\<close> held; it returns
  whenever the URL fits its buffer. The body sent ends at the first NUL of \<open>postdata\<close>.
\<close>

theorem make_request_post_response:
  "(make_request_post C host port uri response postdata w = Ret (b, r, w') \<longrightarrow>
      (if b then \<exists>body. r = response @ body else r = []))
   \<and> (length (http_url host port uri) < 1024 \<longrightarrow>
      returns (make_request_post C host port uri response postdata w))
   \<and> make_request_post C host port uri response (c_str postdata) w
      = make_request_post C host port uri response postdata w"
  using curl_request_false curl_request_true curl_request_Ret
  by (cases b) (fastforce simp: make_request_post_def)+

section \<open>A reference network\<close>

text \<open>
  A network that answers by URL and posted text, used to show that hypotheses about the
  other servers can hold. The function may change the world, and may refuse (None).
\<close>

definition net_of :: "(string \<Rightarrow> string option \<Rightarrow> 'w \<Rightarrow> string option \<times> 'w) \<Rightarrow> 'w curl_ops" where
  "net_of f =
     \<lparr>curl_init = (\<lambda>w. (True, w)),
      curl_setopt = (\<lambda>_ w. (True, w)),
      curl_perform = (\<lambda>opts w.
        let url = (case [u. Curl_url u \<leftarrow> opts] of u # _ \<Rightarrow> u | [] \<Rightarrow> []);
            data = (case [d. Curl_postfields d \<leftarrow> opts] of d # _ \<Rightarrow> Some d | [] \<Rightarrow> None);
            (ans, w') = f url data w
        in case ans of None \<Rightarrow> ((False, []), w') | Some body \<Rightarrow> ((True, [body]), w'))\<rparr>"

lemma net_of_post:
  assumes "length (http_url host port uri) < 1024"
  shows "make_request_post (net_of f) host port uri response postdata w =
    (case f (http_url host port uri) (Some (c_str postdata)) w of
       (None, w') \<Rightarrow> Ret (False, [], w')
     | (Some body, w') \<Rightarrow> Ret (True, response @ body, w'))"
  using assms
  by (auto simp: make_request_post_def curl_request_def net_of_def Let_def fold_write_function
      split: prod.splits option.splits)

lemma net_of_get:
  assumes "length (http_url host port uri) < 1024"
  shows "make_request_get (net_of f) host port uri response w =
    (case f (http_url host port uri) None w of
       (None, w') \<Rightarrow> Ret (False, [], w')
     | (Some body, w') \<Rightarrow> Ret (True, response @ body, w'))"
  using assms
  by (auto simp: make_request_get_def curl_request_def net_of_def Let_def fold_write_function
      split: prod.splits option.splits)

lemma make_request_post_response_witness:
  "make_request_post (net_of (\<lambda>u d w. (Some ''pong'', w + 1))) ''h'' 80 ''/x'' ''>'' ''ping'' (0 :: nat)
     = Ret (True, ''>pong'', 1)
   \<and> (\<exists>body. ''>pong'' = ''>'' @ body)"
proof -
  have len: "length (http_url ''h'' 80 ''/x'') < 1024" by code_simp
  have "make_request_post (net_of (\<lambda>u d w. (Some ''pong'', w + 1))) ''h'' 80 ''/x'' ''>'' ''ping'' (0 :: nat)
     = Ret (True, ''>pong'', 1)"
    by (simp add: net_of_post [OF len])
  then show ?thesis
    using make_request_post_response [where b = True and host = "''h''" and port = 80 and uri = "''/x''"
        and response = "''>''" and postdata = "''ping''" and w = "0 :: nat" and r = "''>pong''" and w' = 1
        and C = "net_of (\<lambda>u d w. (Some ''pong'', w + 1))"]
    by simp
qed

section \<open>The request through libevent\<close>

text \<open>
  The calls it makes on libevent (the parameter \<open>E\<close>), in order; no result is looked at. The port of a
  connection has 16 bits. The warning in the source is the lemma: the call comes back only
  when the event loop does, which the callback has to break.
\<close>

datatype ev_call = Ev_base_new | Ev_connection string "16 word" | Ev_request | Ev_make string | Ev_timeout s32 | Ev_dispatch

fun ev_calls :: "(ev_call \<Rightarrow> 'w \<Rightarrow> 'w outcome) \<Rightarrow> ev_call list \<Rightarrow> 'w \<Rightarrow> 'w outcome" where
  "ev_calls E [] w = Ret w"
| "ev_calls E (x # xs) w = obind (E x w) (ev_calls E xs)"

definition make_ev_request_get ::
  "(ev_call \<Rightarrow> 'w \<Rightarrow> 'w outcome) \<Rightarrow> string \<Rightarrow> u32 \<Rightarrow> string \<Rightarrow> s32 \<Rightarrow> 'w \<Rightarrow> 'w outcome" where
  "make_ev_request_get E host port uri timeout w =
     ev_calls E [Ev_base_new, Ev_connection (c_str host) (ucast port), Ev_request, Ev_make (c_str uri),
       Ev_timeout timeout, Ev_dispatch] w"

lemma ev_request_waits:
  assumes "\<And>w. E Ev_dispatch w = Diverge"
  shows "\<not> returns (make_ev_request_get E host port uri timeout w)"
  using assms by (auto simp: make_ev_request_get_def returns_iff elim!: obind_RetE)

end
