(* ===== verification/Lru_Cache.thy ===== *)
theory Lru_Cache
  imports Std_Map
begin

text \<open>
  \<open>src/common/kyrin_lru_cache.h\<close>: a list of entries, newest first, and a map from keys to
  list iterators. Iterators are modelled as node addresses, so a stale iterator is visible:
  following one is \<open>Undef\<close>. Both operations run under the cache's mutex, so each is one
  atomic step. The theory proves the invariant between map and list, the refinement to a
  list of pairs in recency order, and the cache interface \<open>bounded_cache\<close>.
\<close>

section \<open>The code\<close>

record ('k, 'v) lru =
  m_capacity :: int
  m_map :: "('k, nat) omap"
  m_data :: "(nat \<times> 'k \<times> 'v) list"
  next_node :: nat \<comment> \<open>the allocator: addresses from here on are unused\<close>

definition lru_new :: "int \<Rightarrow> ('k, 'v) lru" where
  "lru_new capacity = \<lparr>m_capacity = capacity, m_map = [], m_data = [], next_node = 0\<rparr>"

definition node_at :: "nat \<Rightarrow> (nat \<times> 'k \<times> 'v) list \<Rightarrow> ('k \<times> 'v) option" where
  "node_at a d = map_of d a"

definition node_erase :: "nat \<Rightarrow> (nat \<times> 'k \<times> 'v) list \<Rightarrow> (nat \<times> 'k \<times> 'v) list" where
  "node_erase a d = filter (\<lambda>n. fst n \<noteq> a) d"

definition lru_get :: "'k :: linorder \<Rightarrow> ('k, 'v) lru \<Rightarrow> ('v option \<times> ('k, 'v) lru) outcome" where
  "lru_get key c =
     (case om_find (m_map c) key of
        None \<Rightarrow> Ret (None, c)
      | Some a \<Rightarrow>
          (case node_at a (m_data c) of
             None \<Rightarrow> Undef
           | Some (k, v) \<Rightarrow>
               Ret (Some v, c\<lparr>m_data := (a, k, v) # node_erase a (m_data c)\<rparr>)))"

text \<open>
  \<open>m_map.size() == m_capacity\<close> compares a \<open>size_t\<close> with an \<open>int\<close>: the \<open>int\<close> is converted
  to 64 unsigned bits.
\<close>

definition lru_full :: "('k, 'v) lru \<Rightarrow> bool" where
  "lru_full c \<longleftrightarrow> (word_of_nat (length (m_map c)) :: u64) = word_of_int (m_capacity c)"

definition lru_push :: "'k :: linorder \<Rightarrow> 'v \<Rightarrow> ('k, 'v) lru \<Rightarrow> ('k, 'v) lru" where
  "lru_push key value c =
     c\<lparr>m_data := (next_node c, key, value) # m_data c,
       m_map := om_set key (next_node c) (m_map c),
       next_node := Suc (next_node c)\<rparr>"

definition lru_set :: "'k :: linorder \<Rightarrow> 'v \<Rightarrow> ('k, 'v) lru \<Rightarrow> ('k, 'v) lru outcome" where
  "lru_set key value c =
     (case om_find (m_map c) key of
        Some a \<Rightarrow>
          (if node_at a (m_data c) = None then Undef
           else Ret (lru_push key value
                  (c\<lparr>m_data := node_erase a (m_data c), m_map := om_erase key (m_map c)\<rparr>)))
      | None \<Rightarrow>
          if lru_full c then
            (if m_data c = [] then Undef
             else Ret (lru_push key value
                    (c\<lparr>m_map := om_erase (fst (snd (last (m_data c)))) (m_map c),
                       m_data := butlast (m_data c)\<rparr>)))
          else Ret (lru_push key value c))"

section \<open>Invariant and abstraction\<close>

definition lru_abs :: "('k, 'v) lru \<Rightarrow> ('k \<times> 'v) list" where
  "lru_abs c = map snd (m_data c)"

definition lru_ok :: "('k :: linorder, 'v) lru \<Rightarrow> bool" where
  "lru_ok c \<longleftrightarrow>
     om_ok (m_map c)
     \<and> distinct (map fst (m_data c))
     \<and> distinct (map fst (lru_abs c))
     \<and> (\<forall>k a. om_find (m_map c) k = Some a \<longleftrightarrow> (\<exists>v. (a, k, v) \<in> set (m_data c)))
     \<and> (\<forall>n \<in> set (m_data c). fst n < next_node c)
     \<and> 1 \<le> m_capacity c \<and> m_capacity c < 2 ^ 31
     \<and> int (length (m_data c)) \<le> m_capacity c"

text \<open>The abstract cache: pairs in recency order.\<close>

definition spec_get :: "'k \<Rightarrow> ('k \<times> 'v) list \<Rightarrow> 'v option \<times> ('k \<times> 'v) list" where
  "spec_get k xs =
     (case map_of xs k of None \<Rightarrow> (None, xs)
      | Some v \<Rightarrow> (Some v, (k, v) # filter (\<lambda>p. fst p \<noteq> k) xs))"

definition spec_set :: "nat \<Rightarrow> 'k \<Rightarrow> 'v \<Rightarrow> ('k \<times> 'v) list \<Rightarrow> ('k \<times> 'v) list" where
  "spec_set cap k v xs =
     (k, v) # (if k \<in> fst ` set xs then filter (\<lambda>p. fst p \<noteq> k) xs
               else if length xs = cap then butlast xs else xs)"

lemma lru_ok_new: "1 \<le> cap \<Longrightarrow> cap < 2 ^ 31 \<Longrightarrow> lru_ok (lru_new cap)"
  by (simp add: lru_ok_def lru_new_def lru_abs_def)

section \<open>Map and list agree\<close>

lemmas lru_okD = lru_ok_def [THEN iffD1]

lemma key_node_iff:
  assumes "lru_ok c" and "(a, k, v) \<in> set (m_data c)" and "n \<in> set (m_data c)"
  shows "fst n = a \<longleftrightarrow> fst (snd n) = k"
proof -
  have d: "distinct (map fst (m_data c))" "distinct (map (fst \<circ> snd) (m_data c))"
    using assms(1) by (simp_all add: lru_ok_def lru_abs_def comp_def)
  have "n = (a, k, v)" if "fst n = a"
    using d(1) assms(2,3) that by (auto simp: distinct_map inj_on_def)
  moreover have "n = (a, k, v)" if "fst (snd n) = k"
    using d(2) assms(2,3) that unfolding distinct_map inj_on_def by fastforce
  ultimately show ?thesis by (metis fst_conv snd_conv)
qed

lemma lru_find_node:
  assumes "lru_ok c" and "om_find (m_map c) k = Some a"
  obtains v where "(a, k, v) \<in> set (m_data c)" and "node_at a (m_data c) = Some (k, v)"
    and "map_of (lru_abs c) k = Some v"
proof -
  obtain v where v: "(a, k, v) \<in> set (m_data c)"
    using assms by (auto simp: lru_ok_def)
  have "node_at a (m_data c) = Some (k, v)"
    using v assms(1) by (simp add: node_at_def lru_ok_def)
  moreover have "(k, v) \<in> set (lru_abs c)"
    using v by (force simp: lru_abs_def)
  then have "map_of (lru_abs c) k = Some v"
    using assms(1) by (simp add: lru_ok_def)
  ultimately show thesis using v that by blast
qed

lemma lru_find_None:
  assumes "lru_ok c" and "om_find (m_map c) k = None"
  shows "k \<notin> fst ` set (lru_abs c)" and "map_of (lru_abs c) k = None"
proof -
  show "k \<notin> fst ` set (lru_abs c)"
    using assms by (force simp: lru_ok_def lru_abs_def)
  then show "map_of (lru_abs c) k = None"
    by (simp add: map_of_eq_None_iff)
qed

lemma abs_node_erase:
  assumes "lru_ok c" and "(a, k, v) \<in> set (m_data c)"
  shows "map snd (node_erase a (m_data c)) = filter (\<lambda>p. fst p \<noteq> k) (lru_abs c)"
proof -
  have "node_erase a (m_data c) = filter (\<lambda>n. fst (snd n) \<noteq> k) (m_data c)"
    unfolding node_erase_def using key_node_iff [OF assms] by (intro filter_cong) auto
  then show ?thesis by (simp add: lru_abs_def filter_map comp_def)
qed

lemma lru_sizes:
  assumes "lru_ok c"
  shows "length (m_map c) = length (m_data c)"
proof -
  have "set (map fst (m_map c)) = set (map fst (lru_abs c))"
  proof -
    have "set (map fst (m_map c)) = dom (om_find (m_map c))"
      by (simp add: om_keys)
    also have "\<dots> = set (map fst (lru_abs c))"
      using assms by (force simp: lru_ok_def lru_abs_def dom_def)
    finally show ?thesis .
  qed
  moreover have "distinct (map fst (m_map c))" "distinct (map fst (lru_abs c))"
    using assms by (simp_all add: lru_ok_def om_ok_def)
  ultimately have "length (map fst (m_map c)) = length (map fst (lru_abs c))"
    by (metis distinct_card)
  then show ?thesis by (simp add: lru_abs_def)
qed

lemma lru_full_iff:
  assumes "lru_ok c"
  shows "lru_full c \<longleftrightarrow> length (lru_abs c) = nat (m_capacity c)"
proof -
  have b: "0 \<le> m_capacity c" "m_capacity c < 2 ^ 64" "int (length (m_data c)) < 2 ^ 64"
    using assms by (simp_all add: lru_ok_def)
  have "(word_of_int (int (length (m_map c))) :: u64) = word_of_int (m_capacity c)
      \<longleftrightarrow> int (length (m_map c)) = m_capacity c"
    by (rule word_of_int_inj) (use b lru_sizes [OF assms] in simp_all)
  then show ?thesis
    using b(1) lru_sizes [OF assms] by (auto simp: lru_full_def lru_abs_def)
qed

lemma butlast_node_erase:
  assumes "distinct (map fst d)" and "d \<noteq> []"
  shows "butlast d = node_erase (fst (last d)) d"
proof -
  obtain d' n where d: "d = d' @ [n]" using assms(2) by (metis rev_exhaust)
  have "node_erase (fst n) d' = d'"
    using assms(1) unfolding d node_erase_def by (intro filter_True) (force simp: image_iff)
  then show ?thesis by (simp add: d node_erase_def)
qed

section \<open>The operations keep the invariant and refine the abstract cache\<close>

definition lru_erase :: "nat \<Rightarrow> 'k :: linorder \<Rightarrow> ('k, 'v) lru \<Rightarrow> ('k, 'v) lru" where
  "lru_erase a k c = c\<lparr>m_data := node_erase a (m_data c), m_map := om_erase k (m_map c)\<rparr>"

lemma lru_erase_ok:
  assumes "lru_ok c" and mem: "(a, k, v) \<in> set (m_data c)"
  shows "lru_ok (lru_erase a k c)" and "om_find (m_map (lru_erase a k c)) k = None"
    and "lru_abs (lru_erase a k c) = filter (\<lambda>p. fst p \<noteq> k) (lru_abs c)"
    and "length (m_data (lru_erase a k c)) < length (m_data c)"
proof -
  have ok: "om_ok (m_map c)" using assms(1) by (simp add: lru_ok_def)
  show abs: "lru_abs (lru_erase a k c) = filter (\<lambda>p. fst p \<noteq> k) (lru_abs c)"
    using abs_node_erase [OF assms] by (simp add: lru_erase_def lru_abs_def)
  show "om_find (m_map (lru_erase a k c)) k = None"
    by (simp add: lru_erase_def om_find_om_erase)
  show short: "length (m_data (lru_erase a k c)) < length (m_data c)"
    using mem by (auto simp: lru_erase_def node_erase_def intro!: length_filter_less)
  have index: "om_find (om_erase k (m_map c)) j = Some b
      \<longleftrightarrow> (\<exists>w. (b, j, w) \<in> set (node_erase a (m_data c)))" for j b
  proof -
    have "om_find (m_map c) j = Some b \<longleftrightarrow> (\<exists>w. (b, j, w) \<in> set (m_data c))"
      using assms(1) by (simp add: lru_ok_def)
    moreover have "(b, j, w) \<in> set (node_erase a (m_data c))
        \<longleftrightarrow> (b, j, w) \<in> set (m_data c) \<and> j \<noteq> k" for w
      using key_node_iff [OF assms, of "(b, j, w)"] by (auto simp: node_erase_def)
    ultimately show ?thesis by (auto simp: om_find_om_erase)
  qed
  moreover have "distinct (map fst (node_erase a (m_data c)))"
    using assms(1) by (simp add: node_erase_def lru_ok_def distinct_map_filter)
  moreover have "distinct (map fst (filter (\<lambda>p. fst p \<noteq> k) (lru_abs c)))"
    using assms(1) by (simp add: lru_ok_def distinct_map_filter)
  moreover have "\<forall>n \<in> set (node_erase a (m_data c)). fst n < next_node c"
    using assms(1) by (simp add: node_erase_def lru_ok_def)
  ultimately show "lru_ok (lru_erase a k c)"
    using assms(1) om_ok_om_erase [OF ok, of k] abs short index
    by (simp add: lru_ok_def lru_erase_def)
qed

lemma lru_push_ok:
  assumes "lru_ok c" and new: "om_find (m_map c) k = None"
    and room: "int (length (m_data c)) < m_capacity c"
  shows "lru_ok (lru_push k v c)" and "lru_abs (lru_push k v c) = (k, v) # lru_abs c"
proof -
  show abs: "lru_abs (lru_push k v c) = (k, v) # lru_abs c"
    by (simp add: lru_push_def lru_abs_def)
  have ok: "om_ok (m_map c)" using assms(1) by (simp add: lru_ok_def)
  have fresh: "next_node c \<notin> fst ` set (m_data c)"
    using assms(1) by (force simp: lru_ok_def)
  have "om_find (om_set k (next_node c) (m_map c)) j = Some b
      \<longleftrightarrow> (\<exists>w. (b, j, w) \<in> set ((next_node c, k, v) # m_data c))" for j b
  proof -
    have "(b', k, w) \<notin> set (m_data c)" for b' w
      using assms(1) new by (force simp: lru_ok_def)
    then show ?thesis
      using assms(1) ok by (auto simp: om_find_om_set lru_ok_def)
  qed
  then show "lru_ok (lru_push k v c)"
    using assms(1) ok abs fresh room lru_find_None(1) [OF assms(1) new]
    by (auto simp: lru_ok_def lru_push_def om_ok_om_set less_Suc_eq)
qed

lemma lru_get_Ret:
  assumes "lru_ok c"
  shows "\<exists>c'. lru_get k c = Ret (fst (spec_get k (lru_abs c)), c') \<and> lru_ok c'
    \<and> lru_abs c' = snd (spec_get k (lru_abs c)) \<and> m_capacity c' = m_capacity c"
proof (cases "om_find (m_map c) k")
  case None
  then show ?thesis
    using assms lru_find_None(2) [OF assms None] by (simp add: lru_get_def spec_get_def)
next
  case (Some a)
  obtain v where mem: "(a, k, v) \<in> set (m_data c)" and node: "node_at a (m_data c) = Some (k, v)"
    and abs: "map_of (lru_abs c) k = Some v"
    using lru_find_node [OF assms Some] .
  let ?c = "c\<lparr>m_data := (a, k, v) # node_erase a (m_data c)\<rparr>"
  have same: "set (m_data ?c) = set (m_data c)"
    using mem key_node_iff [OF assms mem] assms
    by (force simp: node_erase_def lru_ok_def distinct_map inj_on_def)
  have len: "length (m_data ?c) \<le> length (m_data c)"
    using mem by (auto simp: node_erase_def Suc_le_eq intro!: length_filter_less)
  have da: "distinct (map fst (m_data ?c))"
    using assms by (auto simp: node_erase_def lru_ok_def distinct_map_filter)
  have absc: "lru_abs ?c = (k, v) # filter (\<lambda>p. fst p \<noteq> k) (lru_abs c)"
    using abs_node_erase [OF assms mem] by (simp add: lru_abs_def)
  have dk: "distinct (map fst (lru_abs ?c))"
    using assms unfolding absc by (auto simp: lru_ok_def distinct_map_filter)
  have "lru_ok ?c"
    using assms same len da dk unfolding lru_ok_def
    by (simp add: same [simplified] del: set_simps)
  then show ?thesis
    using Some node abs absc by (simp add: lru_get_def spec_get_def)
qed

text \<open>Storing under a key the cache holds replaces its entry.\<close>

lemma lru_set_present:
  assumes "lru_ok c" and "om_find (m_map c) k = Some a"
  shows "\<exists>c'. lru_set k v c = Ret c' \<and> lru_ok c'
    \<and> lru_abs c' = spec_set (nat (m_capacity c)) k v (lru_abs c) \<and> m_capacity c' = m_capacity c"
proof -
  obtain w where mem: "(a, k, w) \<in> set (m_data c)" and node: "node_at a (m_data c) = Some (k, w)"
    and abs: "map_of (lru_abs c) k = Some w"
    using lru_find_node [OF assms] .
  note e = lru_erase_ok [OF assms(1) mem]
  have cap: "m_capacity (lru_erase a k c) = m_capacity c" by (simp add: lru_erase_def)
  have room: "int (length (m_data (lru_erase a k c))) < m_capacity (lru_erase a k c)"
    using e(4) assms by (simp add: cap lru_ok_def)
  have "lru_set k v c = Ret (lru_push k v (lru_erase a k c))"
    using assms(2) node by (simp add: lru_set_def lru_erase_def)
  moreover have "k \<in> fst ` set (lru_abs c)"
    using abs by (metis domI dom_map_of_conv_image_fst)
  ultimately show ?thesis
    using lru_push_ok [OF e(1,2) room] e(3) cap
    by (simp add: spec_set_def lru_push_def)
qed

text \<open>Storing a new key in a full cache drops the least recently used entry.\<close>

lemma lru_set_evicting:
  assumes "lru_ok c" and "om_find (m_map c) k = None" and "lru_full c"
  shows "\<exists>c'. lru_set k v c = Ret c' \<and> lru_ok c'
    \<and> lru_abs c' = spec_set (nat (m_capacity c)) k v (lru_abs c) \<and> m_capacity c' = m_capacity c"
proof -
  have ne: "m_data c \<noteq> []"
    using assms lru_full_iff [OF assms(1)] by (auto simp: lru_ok_def lru_abs_def)
  obtain a k' w where l: "last (m_data c) = (a, k', w)" by (cases "last (m_data c)")
  then have mem: "(a, k', w) \<in> set (m_data c)" using ne last_in_set by force
  note e = lru_erase_ok [OF assms(1) mem]
  have bl: "butlast (m_data c) = node_erase a (m_data c)"
    using butlast_node_erase [of "m_data c"] assms ne l by (simp add: lru_ok_def)
  have cap: "m_capacity (lru_erase a k' c) = m_capacity c" by (simp add: lru_erase_def)
  have room: "int (length (m_data (lru_erase a k' c))) < m_capacity (lru_erase a k' c)"
    using e(4) assms by (simp add: cap lru_ok_def)
  have none: "om_find (m_map (lru_erase a k' c)) k = None"
    using assms(2) by (simp add: lru_erase_def om_find_om_erase)
  have "lru_set k v c = Ret (lru_push k v (lru_erase a k' c))"
    using assms ne l bl by (simp add: lru_set_def lru_erase_def lru_push_def)
  moreover have "lru_abs (lru_erase a k' c) = butlast (lru_abs c)"
    using bl by (simp add: lru_erase_def lru_abs_def flip: map_butlast)
  ultimately show ?thesis
    using lru_push_ok [OF e(1) none room] cap lru_find_None(1) [OF assms(1,2)] assms(3)
      lru_full_iff [OF assms(1)]
    by (simp add: spec_set_def lru_push_def)
qed

lemma lru_set_Ret:
  assumes "lru_ok c"
  shows "\<exists>c'. lru_set k v c = Ret c' \<and> lru_ok c'
    \<and> lru_abs c' = spec_set (nat (m_capacity c)) k v (lru_abs c) \<and> m_capacity c' = m_capacity c"
proof (cases "om_find (m_map c) k")
  case (Some a)
  then show ?thesis by (rule lru_set_present [OF assms])
next
  case None
  show ?thesis
  proof (cases "lru_full c")
    case True
    then show ?thesis by (rule lru_set_evicting [OF assms None])
  next
    case False
    then have room: "int (length (m_data c)) < m_capacity c"
      using lru_full_iff [OF assms] assms by (auto simp: lru_ok_def lru_abs_def)
    show ?thesis
      using None False lru_push_ok [OF assms None room] lru_find_None(1) [OF assms None] lru_full_iff [OF assms]
      by (simp add: lru_set_def spec_set_def lru_push_def)
  qed
qed

section \<open>The cache interface\<close>

text \<open>
  What the signature checker expects of its key cache: a hit returns the value stored last,
  a lookup disturbs nothing, and storing may evict other keys but never alters them.
\<close>

locale bounded_cache =
  fixes get :: "'k \<Rightarrow> 'c \<Rightarrow> ('v option \<times> 'c) outcome"
    and put :: "'k \<Rightarrow> 'v \<Rightarrow> 'c \<Rightarrow> 'c outcome"
    and content :: "'c \<Rightarrow> 'k \<Rightarrow> 'v option" and ok :: "'c \<Rightarrow> bool"
  assumes get_law: "ok c \<Longrightarrow>
      \<exists>c'. get k c = Ret (content c k, c') \<and> ok c' \<and> content c' = content c"
    and put_law: "ok c \<Longrightarrow>
      \<exists>c'. put k v c = Ret c' \<and> ok c' \<and> content c' k = Some v
        \<and> (\<forall>j w. j \<noteq> k \<longrightarrow> content c' j = Some w \<longrightarrow> content c j = Some w)"
begin

lemma get_value: "ok c \<Longrightarrow> get k c = Ret (r, c') \<Longrightarrow> r = content c k \<and> ok c' \<and> content c' = content c"
  using get_law [of c k] by auto

lemma put_then_get:
  "ok c \<Longrightarrow> put k v c = Ret c' \<Longrightarrow> \<exists>c''. get k c' = Ret (Some v, c'') \<and> ok c''"
  using put_law [of c k v] get_law [of c' k] by auto

lemma put_never_alters:
  "ok c \<Longrightarrow> put k v c = Ret c' \<Longrightarrow> j \<noteq> k \<Longrightarrow> content c' j = None \<or> content c' j = content c j"
  using put_law [of c k v] by (cases "content c' j") auto

lemma defined: "ok c \<Longrightarrow> get k c \<noteq> Undef \<and> put k v c \<noteq> Undef"
  using get_law [of c k] put_law [of c k v] by auto

end

definition lru_content :: "('k, 'v) lru \<Rightarrow> 'k \<Rightarrow> 'v option" where
  "lru_content c k = map_of (lru_abs c) k"

lemma map_of_filter_ne: "map_of (filter (\<lambda>p. fst p \<noteq> k) xs) j = (if j = k then None else map_of xs j)"
  by (induction xs) auto

lemma map_of_butlast:
  "distinct (map fst xs) \<Longrightarrow> map_of (butlast xs) j = Some w \<Longrightarrow> map_of xs j = Some w"
  by (cases xs rule: rev_cases) (auto simp: map_add_def map_of_eq_None_iff split: option.splits
      dest: map_of_SomeD)

lemma content_spec_get: "map_of (snd (spec_get k xs)) = map_of xs"
  by (rule ext) (auto simp: spec_get_def map_of_filter_ne split: option.splits)

lemma content_spec_set:
  assumes "distinct (map fst xs)" and "j \<noteq> k" and "map_of (spec_set n k v xs) j = Some w"
  shows "map_of xs j = Some w"
  using assms(3) map_of_butlast [OF assms(1), of j w] assms(2)
  by (auto simp: spec_set_def map_of_filter_ne split: if_splits)

interpretation lru: bounded_cache lru_get lru_set lru_content lru_ok
proof unfold_locales
  fix c :: "('k :: linorder, 'v) lru" and k :: 'k and v :: 'v
  assume ok: "lru_ok c"
  then have d: "distinct (map fst (lru_abs c))" by (simp add: lru_ok_def)
  have "fst (spec_get k (lru_abs c)) = lru_content c k"
    by (simp add: spec_get_def lru_content_def split: option.splits)
  then show "\<exists>c'. lru_get k c = Ret (lru_content c k, c') \<and> lru_ok c' \<and> lru_content c' = lru_content c"
    using lru_get_Ret [OF ok, of k] by (auto simp: lru_content_def [abs_def] content_spec_get)
  obtain c' where c': "lru_set k v c = Ret c'" "lru_ok c'"
    "lru_abs c' = spec_set (nat (m_capacity c)) k v (lru_abs c)"
    using lru_set_Ret [OF ok] by blast
  moreover have "lru_content c' k = Some v"
    by (simp add: lru_content_def c'(3) spec_set_def)
  moreover have "lru_content c j = Some w" if "j \<noteq> k" "lru_content c' j = Some w" for j w
    using content_spec_set [OF d that(1)] that(2) by (simp add: lru_content_def c'(3))
  ultimately show "\<exists>c'. lru_set k v c = Ret c' \<and> lru_ok c' \<and> lru_content c' k = Some v
      \<and> (\<forall>j w. j \<noteq> k \<longrightarrow> lru_content c' j = Some w \<longrightarrow> lru_content c j = Some w)"
    by blast
qed

section \<open>Runs\<close>

datatype ('k, 'v) lru_op = Get 'k | Set 'k 'v

fun lru_run :: "('k :: linorder, 'v) lru_op list \<Rightarrow> ('k, 'v) lru \<Rightarrow> ('v option list \<times> ('k, 'v) lru) outcome" where
  "lru_run [] c = Ret ([], c)"
| "lru_run (Get k # ops) c =
     obind (lru_get k c) (\<lambda>(r, c'). obind (lru_run ops c') (\<lambda>(rs, c''). Ret (r # rs, c'')))"
| "lru_run (Set k v # ops) c = obind (lru_set k v c) (lru_run ops)"

fun spec_run :: "nat \<Rightarrow> ('k, 'v) lru_op list \<Rightarrow> ('k \<times> 'v) list \<Rightarrow> 'v option list \<times> ('k \<times> 'v) list" where
  "spec_run cap [] xs = ([], xs)"
| "spec_run cap (Get k # ops) xs =
     (let (r, ys) = spec_get k xs; (rs, zs) = spec_run cap ops ys in (r # rs, zs))"
| "spec_run cap (Set k v # ops) xs = spec_run cap ops (spec_set cap k v xs)"

lemma lru_run_ok:
  assumes "lru_ok c"
  shows "\<exists>c'. lru_run ops c = Ret (fst (spec_run (nat (m_capacity c)) ops (lru_abs c)), c')
    \<and> lru_ok c' \<and> lru_abs c' = snd (spec_run (nat (m_capacity c)) ops (lru_abs c))
    \<and> m_capacity c' = m_capacity c"
  using assms
proof (induction ops arbitrary: c)
  case Nil
  then show ?case by simp
next
  case (Cons x ops)
  show ?case
  proof (cases x)
    case (Get k)
    obtain c1 where c1: "lru_get k c = Ret (fst (spec_get k (lru_abs c)), c1)" "lru_ok c1"
      "lru_abs c1 = snd (spec_get k (lru_abs c))" "m_capacity c1 = m_capacity c"
      using lru_get_Ret [OF Cons.prems] by blast
    from Cons.IH [OF c1(2)] show ?thesis
      by (auto simp: Get c1 split: prod.splits)
  next
    case (Set k v)
    obtain c1 where c1: "lru_set k v c = Ret c1" "lru_ok c1"
      "lru_abs c1 = spec_set (nat (m_capacity c)) k v (lru_abs c)" "m_capacity c1 = m_capacity c"
      using lru_set_Ret [OF Cons.prems] by blast
    from Cons.IH [OF c1(2)] show ?thesis
      by (simp add: Set c1)
  qed
qed

text \<open>
  C33: From a new cache with a positive capacity, every sequence of \<open>get\<close> and \<open>set\<close> is free of
  undefined behaviour (no stale iterator is followed, the empty list is never popped), returns
  what the recency-ordered list of pairs returns, and ends with at most \<open>capacity\<close> entries,
  the map and the list still describing each other.
\<close>

theorem lru_refines:
  assumes "1 \<le> cap" and "cap < 2 ^ 31"
  shows "\<exists>c. lru_run ops (lru_new cap) = Ret (fst (spec_run (nat cap) ops []), c)
    \<and> lru_abs c = snd (spec_run (nat cap) ops []) \<and> lru_ok c \<and> int (length (lru_abs c)) \<le> cap"
proof -
  have new: "lru_abs (lru_new cap) = []" "m_capacity (lru_new cap) = cap"
    by (simp_all add: lru_new_def lru_abs_def)
  show ?thesis
    using lru_run_ok [OF lru_ok_new [OF assms], of ops] unfolding new
    by (auto simp: lru_ok_def lru_abs_def)
qed

theorem lru_refines_witness:
  "\<exists>c. lru_run [Set (1::nat) ''a'', Set 2 ''b'', Get 1, Set 3 ''c'', Get 2] (lru_new 2)
      = Ret ([Some ''a'', None], c)
    \<and> lru_abs c = [(3, ''c''), (1, ''a'')] \<and> lru_ok c \<and> int (length (lru_abs c)) \<le> 2"
proof -
  have "spec_run (nat 2) [Set (1::nat) ''a'', Set 2 ''b'', Get 1, Set 3 ''c'', Get 2] []
      = ([Some ''a'', None], [(3, ''c''), (1, ''a'')])"
    by (simp add: spec_get_def spec_set_def)
  then show ?thesis
    using lru_refines [of 2 "[Set (1::nat) ''a'', Set 2 ''b'', Get 1, Set 3 ''c'', Get 2]"]
    by simp
qed

text \<open>
  After \<open>set k v\<close> a lookup of \<open>k\<close> hits and returns \<open>v\<close>; every other key is either evicted or
  keeps its value.
\<close>

theorem lru_lookup_after_set:
  assumes "lru_ok c" and "lru_set k v c = Ret c'"
  shows "(\<exists>c''. lru_get k c' = Ret (Some v, c'') \<and> lru_ok c'')
    \<and> (\<forall>j. j \<noteq> k \<longrightarrow> lru_content c' j = None \<or> lru_content c' j = lru_content c j)"
  using lru.put_then_get [OF assms] lru.put_never_alters [OF assms] by blast

theorem lru_lookup_after_set_witness:
  "\<exists>c'. lru_set (1::nat) ''x'' (lru_new 4) = Ret c'
    \<and> (\<exists>c''. lru_get 1 c' = Ret (Some ''x'', c'') \<and> lru_ok c'')
    \<and> (\<forall>j. j \<noteq> 1 \<longrightarrow> lru_content c' j = None \<or> lru_content c' j = lru_content (lru_new 4) j)"
proof -
  have ok: "lru_ok (lru_new 4 :: (nat, string) lru)" by (rule lru_ok_new) simp_all
  obtain c' where c': "lru_set (1::nat) ''x'' (lru_new 4) = Ret c'"
    using lru_set_Ret [OF ok] by blast
  show ?thesis using lru_lookup_after_set [OF ok c'] c' by blast
qed

end
