(* ===== verification/Auth.thy ===== *)
theory Auth
  imports Base_Server Protobuf Http_Client Lru_Cache
begin

text \<open>
  Signed requests: \<open>common/crypto/kyrin_rsa.cc\<close>, \<open>common/kyrin_rsa_helper.h\<close> and \<open>.cc\<close>, and the
  filter \<open>server/request_filters/examine_identity_request_filter.cc\<close> the master and chunk servers
  run before a handler. OpenSSL is the parameter \<open>ssl\<close>: how a PEM text becomes a key, and the
  four RSA primitives with PKCS#1 padding, which fail (None) or return the output block.
\<close>

section \<open>OpenSSL as a parameter\<close>

record 'rsa openssl =
  pem_pubkey :: "string \<Rightarrow> 'rsa option"
  pem_privkey :: "string \<Rightarrow> 'rsa option"
  rsa_public_encrypt :: "'rsa \<Rightarrow> string \<Rightarrow> string option"
  rsa_public_decrypt :: "'rsa \<Rightarrow> string \<Rightarrow> string option"
  rsa_private_encrypt :: "'rsa \<Rightarrow> string \<Rightarrow> string option"
  rsa_private_decrypt :: "'rsa \<Rightarrow> string \<Rightarrow> string option"

section \<open>\<open>kyrin_rsa.cc\<close>\<close>

text \<open>\<open>BIO_new_mem_buf(key, -1)\<close> reads the key up to its first NUL.\<close>

definition create_rsa :: "'rsa openssl \<Rightarrow> string \<Rightarrow> bool \<Rightarrow> 'rsa option" where
  "create_rsa ssl key is_public = (if is_public then pem_pubkey ssl (c_str key) else pem_privkey ssl (c_str key))"

text \<open>
  The four functions share a shape: no key or a failing primitive leaves the result string
  alone and returns false. The output goes to a buffer of 4098 bytes.
\<close>

definition through_buffer :: "string option \<Rightarrow> string \<Rightarrow> (bool \<times> string) outcome" where
  "through_buffer block old =
     (case block of
        None \<Rightarrow> Ret (False, old)
      | Some out \<Rightarrow> if length out \<le> 4098 then Ret (True, out) else Undef)"

definition public_encrypt :: "'rsa openssl \<Rightarrow> string \<Rightarrow> string \<Rightarrow> string \<Rightarrow> (bool \<times> string) outcome" where
  "public_encrypt ssl plaintext key encrypted =
     (case create_rsa ssl key True of
        None \<Rightarrow> Ret (False, encrypted)
      | Some rsa \<Rightarrow> through_buffer (rsa_public_encrypt ssl rsa plaintext) encrypted)"

definition public_decrypt :: "'rsa openssl \<Rightarrow> string \<Rightarrow> string \<Rightarrow> string \<Rightarrow> (bool \<times> string) outcome" where
  "public_decrypt ssl ciphertext key decrypted =
     (case create_rsa ssl key True of
        None \<Rightarrow> Ret (False, decrypted)
      | Some rsa \<Rightarrow> through_buffer (rsa_public_decrypt ssl rsa ciphertext) decrypted)"

definition private_encrypt :: "'rsa openssl \<Rightarrow> string \<Rightarrow> string \<Rightarrow> string \<Rightarrow> (bool \<times> string) outcome" where
  "private_encrypt ssl plaintext key encrypted =
     (case create_rsa ssl key False of
        None \<Rightarrow> Ret (False, encrypted)
      | Some rsa \<Rightarrow> through_buffer (rsa_private_encrypt ssl rsa plaintext) encrypted)"

definition private_decrypt :: "'rsa openssl \<Rightarrow> string \<Rightarrow> string \<Rightarrow> string \<Rightarrow> (bool \<times> string) outcome" where
  "private_decrypt ssl ciphertext key decrypted =
     (case create_rsa ssl key False of
        None \<Rightarrow> Ret (False, decrypted)
      | Some rsa \<Rightarrow> through_buffer (rsa_private_decrypt ssl rsa ciphertext) decrypted)"

section \<open>\<open>KyrinRsaHelper\<close>\<close>

record rsa_helper =
  m_host :: string
  m_port :: u32
  m_cache :: "(string, string) lru"

text \<open>The constructor; the cache size defaults to 65535.\<close>

definition rsa_helper_new :: "string \<Rightarrow> u32 \<Rightarrow> rsa_helper" where
  "rsa_helper_new h p = \<lparr>m_host = h, m_port = p, m_cache = lru_new 65535\<rparr>"

text \<open>The message of \<open>protobuf/kyrin_key.proto\<close>.\<close>

datatype get_kyrin_key_request = Get_kyrin_key_request (gk_key_id: string)

instance get_kyrin_key_request :: countable by countable_datatype

definition examine_legality :: "'rsa openssl \<Rightarrow> string \<Rightarrow> string \<Rightarrow> string \<Rightarrow> bool outcome" where
  "examine_legality ssl public_key digest signature =
     obind (public_decrypt ssl signature public_key []) (\<lambda>(ok, plaintext).
       Ret (ok \<and> plaintext = digest))"

definition fetch_public_key ::
  "get_kyrin_key_request codec \<Rightarrow> 'w curl_ops \<Rightarrow> rsa_helper \<Rightarrow> string \<Rightarrow> string \<Rightarrow> 'w
     \<Rightarrow> (bool \<times> string \<times> 'w) outcome" where
  "fetch_public_key P C h issuer public_key w =
     (let postdata = base64_encode (snd (ser P (Get_kyrin_key_request issuer))) in
      obind (make_request_post C (m_host h) (m_port h) ''/GetKyrinKey'' public_key postdata w)
        (\<lambda>(ok, key, w'). Ret (ok \<and> key \<noteq> [], key, w')))"

text \<open>
  The fetched key is used once and not stored: nothing in the class calls the cache's \<open>set\<close>.
\<close>

definition examine_legality_from_user ::
  "get_kyrin_key_request codec \<Rightarrow> 'w curl_ops \<Rightarrow> 'rsa openssl \<Rightarrow> string \<Rightarrow> string \<Rightarrow> string
     \<Rightarrow> rsa_helper \<Rightarrow> 'w \<Rightarrow> (bool \<times> rsa_helper \<times> 'w) outcome" where
  "examine_legality_from_user P C ssl issuer digest signature h w =
     obind (lru_get issuer (m_cache h)) (\<lambda>(hit, cache).
     let h' = h\<lparr>m_cache := cache\<rparr> in
     case hit of
       Some public_key \<Rightarrow>
         obind (examine_legality ssl public_key digest signature) (\<lambda>legal. Ret (legal, h', w))
     | None \<Rightarrow>
         obind (fetch_public_key P C h' issuer [] w) (\<lambda>(fetched, public_key, w').
           if \<not> fetched then Ret (False, h', w')
           else obind (examine_legality ssl public_key digest signature) (\<lambda>legal. Ret (legal, h', w'))))"

section \<open>The filter\<close>

text \<open>None: the request passes. Otherwise the reply that was sent.\<close>

definition filter_request ::
  "get_kyrin_key_request codec \<Rightarrow> 'w curl_ops \<Rightarrow> 'rsa openssl \<Rightarrow> (string \<Rightarrow> string) \<Rightarrow> request
     \<Rightarrow> rsa_helper \<Rightarrow> 'w \<Rightarrow> (reply option \<times> rsa_helper \<times> 'w) outcome" where
  "filter_request P C ssl sha req h w =
     (let (got_sig, signature) = server_get_header req ''KYRIN-SIGNATURE'' [] in
      if \<not> got_sig then Ret (Some (server_send_reply_bad ''Can't read KYRIN-SIGNATURE..''), h, w)
      else
        let signature = base64_decode signature;
            (got_issuer, issuer) = server_get_header req ''KYRIN-ISSUER'' [] in
        if \<not> got_issuer then Ret (Some (server_send_reply_bad ''Can't read KYRIN-ISSUER..''), h, w)
        else
          let (got_digest, reply, digest) = server_get_digest sha req [] [] in
          if \<not> got_digest then Ret (Some (server_send_reply_bad ''Can't read digest''), h, w)
          else
            obind (examine_legality_from_user P C ssl issuer digest signature h w) (\<lambda>(legal, h', w').
              if \<not> legal then Ret (Some (server_send_reply_bad ''Bad signature''), h', w')
              else Ret (None, h', w')))"

section \<open>What a pass means\<close>

lemma examine_legality_True:
  "examine_legality ssl key digest sig = Ret True \<longleftrightarrow>
     (\<exists>rsa. pem_pubkey ssl (c_str key) = Some rsa \<and> rsa_public_decrypt ssl rsa sig = Some digest
        \<and> length digest \<le> 4098)"
  by (auto simp: examine_legality_def public_decrypt_def create_rsa_def through_buffer_def
      split: option.splits if_splits)

text \<open>A helper whose cache has never been filled, the only kind there is.\<close>

definition cache_empty :: "rsa_helper \<Rightarrow> bool" where
  "cache_empty h \<longleftrightarrow> m_map (m_cache h) = []"

lemma cache_empty_new [simp]: "cache_empty (rsa_helper_new host port)"
  by (simp add: cache_empty_def rsa_helper_new_def lru_new_def)

lemma examine_empty:
  assumes "cache_empty h"
  shows "examine_legality_from_user P C ssl issuer digest sig h w =
    obind (fetch_public_key P C h issuer [] w) (\<lambda>(fetched, key, w').
      if \<not> fetched then Ret (False, h, w')
      else obind (examine_legality ssl key digest sig) (\<lambda>legal. Ret (legal, h, w')))"
  using assms by (simp add: examine_legality_from_user_def cache_empty_def lru_get_def)

text \<open>
  A request as the filter reads it: issuer, signature and the text that was signed.
\<close>

definition signed_parts :: "request \<Rightarrow> string \<Rightarrow> string \<Rightarrow> string \<Rightarrow> bool" where
  "signed_parts req issuer sig payload \<longleftrightarrow>
     (\<exists>s i t. find_header req ''KYRIN-SIGNATURE'' = Some s \<and> sig = base64_decode (c_str s)
        \<and> find_header req ''KYRIN-ISSUER'' = Some i \<and> issuer = c_str i
        \<and> find_header req ''KYRIN-TIMESTAMP'' = Some t \<and> payload = c_str t @ input_buffer req
        \<and> 0 < length (input_buffer req) \<and> length (input_buffer req) < k_server_max_post_data_size)"

lemma filter_request_parts:
  assumes "signed_parts req issuer sig payload"
  shows "filter_request P C ssl sha req h w =
    obind (examine_legality_from_user P C ssl issuer (kyrin_sha1 sha payload) sig h w) (\<lambda>(legal, h', w').
      if \<not> legal then Ret (Some (server_send_reply_bad ''Bad signature''), h', w')
      else Ret (None, h', w'))"
  using assms
  by (auto simp: filter_request_def signed_parts_def server_get_header_def server_get_digest_def
      server_get_postdata_def Let_def)

lemma filter_request_no_parts:
  assumes "\<nexists>issuer sig payload. signed_parts req issuer sig payload"
  shows "\<exists>r. filter_request P C ssl sha req h w = Ret (Some r, h, w) \<and> \<not> is_ok r"
  using assms
  by (auto simp: filter_request_def signed_parts_def server_get_header_def server_get_digest_def
      server_get_postdata_def Let_def split: option.splits)

lemma examine_from_user_Ret:
  assumes "cache_empty h" and "examine_legality_from_user P C ssl issuer digest sig h w = Ret (legal, h', w')"
  shows "h' = h \<and> (legal \<longrightarrow> (\<exists>key rsa. fetch_public_key P C h issuer [] w = Ret (True, key, w')
    \<and> pem_pubkey ssl (c_str key) = Some rsa \<and> rsa_public_decrypt ssl rsa sig = Some digest))"
  using assms(2) unfolding examine_empty [OF assms(1)]
  by (auto elim!: obind_RetE split: if_splits simp: examine_legality_True)

text \<open>
  C20: A request passes the filter only if it is complete (signature, issuer and timestamp
  headers, a body of 1 to 65535 bytes), the key center returned a key for its issuer, and
  decrypting the signature with that key gives exactly the hexadecimal SHA-1 of timestamp
  and body. Any other request is answered with status 400.
\<close>

theorem filter_request_sound:
  assumes "cache_empty h" and "filter_request P C ssl sha req h w = Ret (verdict, h', w')"
  shows "(verdict = None \<longrightarrow> (\<exists>issuer sig payload key rsa. signed_parts req issuer sig payload
      \<and> fetch_public_key P C h issuer [] w = Ret (True, key, w')
      \<and> pem_pubkey ssl (c_str key) = Some rsa
      \<and> rsa_public_decrypt ssl rsa sig = Some (kyrin_sha1 sha payload)))
    \<and> (\<forall>r. verdict = Some r \<longrightarrow> \<not> is_ok r)"
proof (cases "\<exists>issuer sig payload. signed_parts req issuer sig payload")
  case True
  then obtain issuer sig payload where p: "signed_parts req issuer sig payload" by blast
  then obtain legal where e: "examine_legality_from_user P C ssl issuer (kyrin_sha1 sha payload) sig h w
      = Ret (legal, h', w')" and v: "verdict = (if legal then None else Some (server_send_reply_bad ''Bad signature''))"
    using assms(2) by (auto simp: filter_request_parts elim!: obind_RetE split: if_splits)
  show ?thesis
    using examine_from_user_Ret [OF assms(1) e] p unfolding v by (cases legal) (simp, blast, simp)
next
  case False
  then show ?thesis using filter_request_no_parts [of req P C ssl sha h w] assms(2) by auto
qed

text \<open>
  A properly signed request passes: its signature header is the Base64 text of a block
  that the issuer's public key, as the key center serves it, decrypts to the digest.
\<close>

theorem filter_request_complete:
  assumes "cache_empty h"
    and "find_header req ''KYRIN-SIGNATURE'' = Some (base64_encode sig)"
    and "find_header req ''KYRIN-ISSUER'' = Some issuer" and "nul \<notin> set issuer"
    and "find_header req ''KYRIN-TIMESTAMP'' = Some ts" and "nul \<notin> set ts"
    and "0 < length (input_buffer req)" and "length (input_buffer req) < k_server_max_post_data_size"
    and "make_request_post C (m_host h) (m_port h) ''/GetKyrinKey'' []
           (base64_encode (snd (ser P (Get_kyrin_key_request issuer)))) w = Ret (True, key, w')"
    and "key \<noteq> []" and "pem_pubkey ssl (c_str key) = Some rsa"
    and "rsa_public_decrypt ssl rsa sig = Some (kyrin_sha1 sha (ts @ input_buffer req))"
    and "length (kyrin_sha1 sha (ts @ input_buffer req)) \<le> 4098"
  shows "filter_request P C ssl sha req h w = Ret (None, h, w')"
proof -
  have "signed_parts req issuer sig (ts @ input_buffer req)"
    using assms by (simp add: signed_parts_def b64.enc_c_str b64.dec_enc)
  then show ?thesis
    using assms(9-13)
    by (simp add: filter_request_parts examine_empty [OF assms(1)] fetch_public_key_def
        examine_legality_def public_decrypt_def create_rsa_def through_buffer_def)
qed

text \<open>
  The verdict depends only on issuer, signature and the concatenation of timestamp and
  body: requests that agree on these are treated alike, wherever the timestamp ends. And one
  signature passes with two different signed texts only if they collide under SHA-1.
\<close>

theorem filter_request_binds_payload:
  assumes "cache_empty h"
    and "signed_parts req1 issuer sig p1" and "signed_parts req2 issuer sig p2"
  shows "(p1 = p2 \<longrightarrow> filter_request P C ssl sha req1 h w = filter_request P C ssl sha req2 h w)
    \<and> (filter_request P C ssl sha req1 h w = Ret (None, h1, w1)
       \<and> filter_request P C ssl sha req2 h w = Ret (None, h2, w2) \<longrightarrow> sha p1 = sha p2)"
proof -
  have pass: "\<exists>key rsa w'. fetch_public_key P C h issuer [] w = Ret (True, key, w')
      \<and> pem_pubkey ssl (c_str key) = Some rsa \<and> rsa_public_decrypt ssl rsa sig = Some (kyrin_sha1 sha p)"
    if "signed_parts req issuer sig p" "filter_request P C ssl sha req h w = Ret (None, h', w')"
    for req p h' w'
    using that examine_from_user_Ret [OF assms(1), of P C ssl issuer "kyrin_sha1 sha p" sig w]
    by (force simp: filter_request_parts elim!: obind_RetE split: if_splits)
  have "sha p1 = sha p2"
    if r: "filter_request P C ssl sha req1 h w = Ret (None, h1, w1)"
      "filter_request P C ssl sha req2 h w = Ret (None, h2, w2)"
    using pass [OF assms(2) r(1)] pass [OF assms(3) r(2)]
    by (auto simp: kyrin_sha1_eq)
  then show ?thesis
    by (simp add: filter_request_parts [OF assms(2)] filter_request_parts [OF assms(3)])
qed

text \<open>A server's requests, one after the other, through one helper.\<close>

fun filter_all ::
  "get_kyrin_key_request codec \<Rightarrow> 'w curl_ops \<Rightarrow> 'rsa openssl \<Rightarrow> (string \<Rightarrow> string) \<Rightarrow> request list
     \<Rightarrow> rsa_helper \<Rightarrow> 'w \<Rightarrow> (reply option list \<times> rsa_helper \<times> 'w) outcome" where
  "filter_all P C ssl sha [] h w = Ret ([], h, w)"
| "filter_all P C ssl sha (req # reqs) h w =
     obind (filter_request P C ssl sha req h w) (\<lambda>(v, h', w').
     obind (filter_all P C ssl sha reqs h' w') (\<lambda>(vs, h'', w''). Ret (v # vs, h'', w'')))"

text \<open>
  The key cache is never filled: after any number of requests the helper is still the
  new one, so every complete request costs a round trip to the key center.
\<close>

theorem keys_never_cached:
  assumes "filter_all P C ssl sha reqs (rsa_helper_new kc port) w = Ret (vs, h', w')"
  shows "h' = rsa_helper_new kc port"
proof -
  have step: "h2 = h" if "cache_empty h" "filter_request P C ssl sha req h w1 = Ret (v, h2, w2)"
    for req h h2 v w1 w2
  proof (cases "\<exists>issuer sig payload. signed_parts req issuer sig payload")
    case True
    then show ?thesis
      using that(2)
      by (auto simp: filter_request_parts elim!: obind_RetE split: if_splits
          dest!: conjunct1 [OF examine_from_user_Ret [OF that(1)]])
  next
    case False
    then show ?thesis using filter_request_no_parts [of req P C ssl sha h w1] that(2) by auto
  qed
  have "h' = h" if "cache_empty h" "filter_all P C ssl sha reqs h w = Ret (vs, h', w')"
    for h h' :: rsa_helper and vs w w'
    using that
  proof (induction reqs arbitrary: h w vs)
    case (Cons req reqs)
    then obtain v h2 w2 vs2 where f: "filter_request P C ssl sha req h w = Ret (v, h2, w2)"
      and r: "filter_all P C ssl sha reqs h2 w2 = Ret (vs2, h', w')"
      by (auto elim!: obind_RetE)
    have "h2 = h" using step [OF Cons.prems(1) f] .
    with Cons.IH Cons.prems(1) r show ?case by blast
  qed simp
  then show ?thesis using assms cache_empty_new by blast
qed

section \<open>An instance\<close>

text \<open>Toy primitives with the RSA law, a key center that serves the key \<open>K\<close>, a signed request.\<close>

definition demo_ssl :: "string openssl" where
  "demo_ssl =
     \<lparr>pem_pubkey = Some, pem_privkey = Some,
      rsa_public_encrypt = (\<lambda>k m. Some (k @ m)),
      rsa_public_decrypt = (\<lambda>k c. if take (length k) c = k then Some (drop (length k) c) else None),
      rsa_private_encrypt = (\<lambda>k m. Some (k @ m)),
      rsa_private_decrypt = (\<lambda>k c. if take (length k) c = k then Some (drop (length k) c) else None)\<rparr>"

definition demo_sha :: "string \<Rightarrow> string" where
  "demo_sha s = take 20 (s @ replicate 20 nul)"

definition demo_center :: "unit curl_ops" where
  "demo_center = net_of (\<lambda>url data w. (Some ''K'', w))"

definition demo_helper :: rsa_helper where
  "demo_helper = rsa_helper_new ''kc'' 80"

definition demo_request :: request where
  "demo_request =
     \<lparr>find_header = (\<lambda>k. if k = ''KYRIN-SIGNATURE'' then Some (base64_encode (''K'' @ kyrin_sha1 demo_sha ''12body''))
        else if k = ''KYRIN-ISSUER'' then Some ''me''
        else if k = ''KYRIN-TIMESTAMP'' then Some ''12'' else None),
      input_buffer = ''body''\<rparr>"

lemma demo_request_simps [simp]:
  "find_header demo_request ''KYRIN-SIGNATURE'' = Some (base64_encode (''K'' @ kyrin_sha1 demo_sha ''12body''))"
  "find_header demo_request ''KYRIN-ISSUER'' = Some ''me''"
  "find_header demo_request ''KYRIN-TIMESTAMP'' = Some ''12''"
  "input_buffer demo_request = ''body''"
  by (simp_all add: demo_request_def)

lemma demo_fetch:
  "make_request_post demo_center (m_host demo_helper) (m_port demo_helper) ''/GetKyrinKey'' [] data ()
     = Ret (True, ''K'', ())"
proof -
  have "length (http_url ''kc'' 80 ''/GetKyrinKey'') < 1024" by code_simp
  then show ?thesis
    by (simp add: demo_center_def demo_helper_def rsa_helper_new_def net_of_post)
qed

lemma length_demo_sha: "length (kyrin_sha1 demo_sha s) = 40"
  by (simp add: kyrin_sha1_def demo_sha_def length_string_to_hex)

lemma demo_accepted:
  "filter_request ref_codec demo_center demo_ssl demo_sha demo_request demo_helper ()
     = Ret (None, demo_helper, ())"
  by (subst filter_request_parts [of _ "''me''" "''K'' @ kyrin_sha1 demo_sha ''12body''" "''12body''"])
    (auto simp: signed_parts_def b64.enc_c_str b64.dec_enc k_server_max_post_data_size_def
      examine_empty demo_helper_def fetch_public_key_def demo_fetch [unfolded demo_helper_def]
      examine_legality_def public_decrypt_def create_rsa_def through_buffer_def demo_ssl_def
      length_demo_sha)

lemma filter_request_sound_witness:
  "\<exists>issuer sig payload. signed_parts demo_request issuer sig payload
    \<and> rsa_public_decrypt demo_ssl ''K'' sig = Some (kyrin_sha1 demo_sha payload)"
proof -
  have "cache_empty demo_helper" by (simp add: demo_helper_def)
  from filter_request_sound [OF this demo_accepted]
  obtain issuer sig payload key rsa where x: "signed_parts demo_request issuer sig payload"
    "fetch_public_key ref_codec demo_center demo_helper issuer [] () = Ret (True, key, ())"
    "pem_pubkey demo_ssl (c_str key) = Some rsa"
    "rsa_public_decrypt demo_ssl rsa sig = Some (kyrin_sha1 demo_sha payload)"
    by blast
  have "rsa = ''K''"
    using x(2,3) by (auto simp: fetch_public_key_def demo_fetch demo_ssl_def)
  then show ?thesis using x(1,4) by blast
qed

lemma filter_request_complete_witness:
  "filter_request ref_codec demo_center demo_ssl demo_sha demo_request demo_helper ()
     = Ret (None, demo_helper, ())"
proof (rule filter_request_complete)
  show "cache_empty demo_helper" by (simp add: demo_helper_def)
  show "find_header demo_request ''KYRIN-SIGNATURE'' = Some (base64_encode (''K'' @ kyrin_sha1 demo_sha ''12body''))"
    by simp
  show "find_header demo_request ''KYRIN-ISSUER'' = Some ''me''" by simp
  show "nul \<notin> set ''me''" by simp
  show "find_header demo_request ''KYRIN-TIMESTAMP'' = Some ''12''" by simp
  show "nul \<notin> set ''12''" by simp
  show "0 < length (input_buffer demo_request)" by simp
  show "length (input_buffer demo_request) < k_server_max_post_data_size"
    by (simp add: k_server_max_post_data_size_def)
  show "make_request_post demo_center (m_host demo_helper) (m_port demo_helper) ''/GetKyrinKey'' []
      (base64_encode (snd (ser ref_codec (Get_kyrin_key_request ''me'')))) () = Ret (True, ''K'', ())"
    by (rule demo_fetch)
  show "''K'' \<noteq> []" by simp
  show "pem_pubkey demo_ssl (c_str ''K'') = Some ''K''" by (simp add: demo_ssl_def)
  show "rsa_public_decrypt demo_ssl ''K'' (''K'' @ kyrin_sha1 demo_sha ''12body'')
      = Some (kyrin_sha1 demo_sha (''12'' @ input_buffer demo_request))"
    by (simp add: demo_ssl_def)
  show "length (kyrin_sha1 demo_sha (''12'' @ input_buffer demo_request)) \<le> 4098"
    by (simp add: length_demo_sha)
qed

lemma filter_request_binds_payload_witness:
  "filter_request ref_codec demo_center demo_ssl demo_sha
      (demo_request\<lparr>find_header := (find_header demo_request)(''KYRIN-TIMESTAMP'' := Some ''1''),
         input_buffer := ''2body''\<rparr>) demo_helper ()
     = Ret (None, demo_helper, ())"
proof -
  let ?r = "demo_request\<lparr>find_header := (find_header demo_request)(''KYRIN-TIMESTAMP'' := Some ''1''),
         input_buffer := ''2body''\<rparr>"
  let ?sig = "''K'' @ kyrin_sha1 demo_sha ''12body''"
  have "signed_parts demo_request ''me'' ?sig ''12body''" "signed_parts ?r ''me'' ?sig ''12body''"
    by (simp_all add: signed_parts_def b64.enc_c_str b64.dec_enc k_server_max_post_data_size_def)
  moreover have "cache_empty demo_helper" by (simp add: demo_helper_def)
  ultimately have "filter_request ref_codec demo_center demo_ssl demo_sha demo_request demo_helper ()
      = filter_request ref_codec demo_center demo_ssl demo_sha ?r demo_helper ()"
    using conjunct1 [OF filter_request_binds_payload [where ?h1.0 = demo_helper and ?w1.0 = "()"
        and ?h2.0 = demo_helper and ?w2.0 = "()"]] by blast
  then show ?thesis by (simp add: demo_accepted)
qed

lemma keys_never_cached_witness:
  "\<exists>vs h' w'. filter_all ref_codec demo_center demo_ssl demo_sha [demo_request, demo_request]
      (rsa_helper_new ''kc'' 80) () = Ret (vs, h', w') \<and> h' = rsa_helper_new ''kc'' 80"
proof -
  have "filter_all ref_codec demo_center demo_ssl demo_sha [demo_request, demo_request]
      (rsa_helper_new ''kc'' 80) () = Ret ([None, None], demo_helper, ())"
    by (simp add: demo_accepted [unfolded demo_helper_def] demo_helper_def)
  from keys_never_cached [OF this] this show ?thesis by blast
qed

end
