(* ===== verification/Database.thy ===== *)
theory Database
  imports Std_Map
begin

text \<open>
  \<open>src/io/kyrin_database_wrapper.{h,cc}\<close>: the key-value store the servers keep their state
  in, a wrapper over LevelDB that reconnects and retries once. LevelDB is not part of the
  sources: it is the parameter \<open>L\<close> of every operation, a record of its calls on an
  abstract database \<open>'d\<close>. What the code relies on is the locale \<open>leveldb\<close> (its documented
  behaviour, failures included); the wrapper's own contract is the locale \<open>kv_store\<close>,
  which \<open>leveldb\<close> gives by \<open>sublocale\<close>.
\<close>

section \<open>LevelDB as a parameter\<close>

datatype ldb_read = Found string | NotFound | Failed

record 'd leveldb_ops =
  ldb_open :: "'d \<Rightarrow> bool \<times> 'd"
  ldb_close :: "'d \<Rightarrow> 'd"
  ldb_put :: "string \<Rightarrow> string \<Rightarrow> 'd \<Rightarrow> bool \<times> 'd"
  ldb_get :: "string \<Rightarrow> 'd \<Rightarrow> ldb_read \<times> 'd"
  ldb_delete :: "string \<Rightarrow> 'd \<Rightarrow> bool \<times> 'd"
  ldb_iter :: "'d \<Rightarrow> (string \<times> string) list option \<times> 'd"
    \<comment> \<open>the pairs a new iterator visits, in its order; None when no iterator is made\<close>

text \<open>
  The documented behaviour: contents are a finite map listed in byte order of the keys; a
  successful write takes effect; a failed write may or may not have; reads change nothing.
\<close>

locale leveldb =
  fixes L :: "'d leveldb_ops" and stored :: "'d \<Rightarrow> (string, string) omap"
  assumes stored_ok: "om_ok (stored d)"
    and open_law: "ldb_open L d = (b, d') \<Longrightarrow> stored d' = stored d"
    and close_law: "stored (ldb_close L d) = stored d"
    and put_ok_law: "ldb_put L k v d = (True, d') \<Longrightarrow> stored d' = om_set k v (stored d)"
    and put_fail_law: "ldb_put L k v d = (False, d') \<Longrightarrow>
      stored d' = stored d \<or> stored d' = om_set k v (stored d)"
    and get_found_law: "ldb_get L k d = (Found v, d') \<Longrightarrow> om_find (stored d) k = Some v"
    and get_absent_law: "ldb_get L k d = (NotFound, d') \<Longrightarrow> om_find (stored d) k = None"
    and get_frame_law: "ldb_get L k d = (r, d') \<Longrightarrow> stored d' = stored d"
    and delete_ok_law: "ldb_delete L k d = (True, d') \<Longrightarrow> stored d' = om_erase k (stored d)"
    and delete_fail_law: "ldb_delete L k d = (False, d') \<Longrightarrow>
      stored d' = stored d \<or> stored d' = om_erase k (stored d)"
    and iter_law: "ldb_iter L d = (Some xs, d') \<Longrightarrow> xs = stored d"
    and iter_frame_law: "ldb_iter L d = (it, d') \<Longrightarrow> stored d' = stored d"

section \<open>The wrapper\<close>

text \<open>
  \<open>db_conn\<close>: \<open>database_connection\<close> points to an open database. After a failed \<open>Open\<close> the
  pointer is NULL and using it is undefined.
\<close>

record 'd db =
  db_conn :: bool
  db_store :: 'd

definition db_connect :: "'d leveldb_ops \<Rightarrow> 'd db \<Rightarrow> bool \<times> 'd db" where
  "db_connect L db =
     (let (ok, d) = ldb_open L (db_store db) in (ok, \<lparr>db_conn = ok, db_store = d\<rparr>))"

definition db_disconnect :: "'d leveldb_ops \<Rightarrow> 'd db \<Rightarrow> 'd db" where
  "db_disconnect L db =
     \<lparr>db_conn = False,
      db_store = (if db_conn db then ldb_close L (db_store db) else db_store db)\<rparr>"

definition db_reconnect :: "'d leveldb_ops \<Rightarrow> 'd db \<Rightarrow> bool \<times> 'd db" where
  "db_reconnect L db = db_connect L (db_disconnect L db)"

text \<open>
  The constructors (the path is part of \<open>L\<close>) look at no result; the destructor closes what is open.
\<close>

definition db_new :: "'d leveldb_ops \<Rightarrow> 'd \<Rightarrow> 'd db" where
  "db_new L d = snd (db_connect L \<lparr>db_conn = False, db_store = d\<rparr>)"

definition db_free :: "'d leveldb_ops \<Rightarrow> 'd db \<Rightarrow> 'd db" where
  "db_free L db = db_disconnect L db"

definition db_put :: "'d leveldb_ops \<Rightarrow> string \<Rightarrow> string \<Rightarrow> 'd db \<Rightarrow> (bool \<times> 'd db) outcome" where
  "db_put L key value db =
     (if \<not> db_conn db then Undef else
      let (ok, d1) = ldb_put L key value (db_store db) in
      if ok then Ret (True, db\<lparr>db_store := d1\<rparr>)
      else
        let (rc, db2) = db_reconnect L (db\<lparr>db_store := d1\<rparr>) in
        if rc then
          let (ok2, d3) = ldb_put L key value (db_store db2) in
          Ret (ok2, db2\<lparr>db_store := d3\<rparr>)
        else Ret (False, db2))"

text \<open>
  \<open>get(key, value)\<close>: the third argument is what \<open>value\<close> holds before the call, the second
  component of the result what it holds after.
\<close>

definition db_get ::
  "'d leveldb_ops \<Rightarrow> string \<Rightarrow> string \<Rightarrow> 'd db \<Rightarrow> (bool \<times> string \<times> 'd db) outcome" where
  "db_get L key value db =
     (if \<not> db_conn db then Undef else
      case ldb_get L key (db_store db) of
        (Found v, d1) \<Rightarrow> Ret (True, v, db\<lparr>db_store := d1\<rparr>)
      | (NotFound, d1) \<Rightarrow> Ret (False, [], db\<lparr>db_store := d1\<rparr>)
      | (Failed, d1) \<Rightarrow>
          (let (rc, db2) = db_reconnect L (db\<lparr>db_store := d1\<rparr>) in
           if rc then
             (case ldb_get L key (db_store db2) of
                (Found v, d3) \<Rightarrow> Ret (True, v, db2\<lparr>db_store := d3\<rparr>)
              | (_, d3) \<Rightarrow> Ret (False, value, db2\<lparr>db_store := d3\<rparr>))
           else Ret (False, value, db2)))"

definition db_exist :: "'d leveldb_ops \<Rightarrow> string \<Rightarrow> 'd db \<Rightarrow> (bool \<times> 'd db) outcome" where
  "db_exist L key db = obind (db_get L key [] db) (\<lambda>(b, _, db'). Ret (b, db'))"

definition db_remove :: "'d leveldb_ops \<Rightarrow> string \<Rightarrow> 'd db \<Rightarrow> (bool \<times> 'd db) outcome" where
  "db_remove L key db =
     (if \<not> db_conn db then Undef else
      let (ok, d1) = ldb_delete L key (db_store db) in Ret (ok, db\<lparr>db_store := d1\<rparr>))"

text \<open>\<open>new_iterator()\<close>: the pairs it visits from \<open>SeekToFirst\<close> on, in order.\<close>

definition db_iterator ::
  "'d leveldb_ops \<Rightarrow> 'd db \<Rightarrow> ((string \<times> string) list option \<times> 'd db) outcome" where
  "db_iterator L db =
     (if \<not> db_conn db then Undef else
      let (xs, d1) = ldb_iter L (db_store db) in Ret (xs, db\<lparr>db_store := d1\<rparr>))"

text \<open>\<open>fetch_last_key(key)\<close> assigns \<open>key\<close> only when it returns true.\<close>

definition db_fetch_last_key :: "'d leveldb_ops \<Rightarrow> 'd db \<Rightarrow> (string option \<times> 'd db) outcome" where
  "db_fetch_last_key L db =
     obind (db_iterator L db) (\<lambda>(it, db').
       case it of
         None \<Rightarrow> Ret (None, db')
       | Some xs \<Rightarrow> Ret (if xs = [] then None else Some (fst (last xs)), db'))"

text \<open>A database that could not be opened cannot be used, and only the destructor may follow.\<close>

lemma db_new_fails:
  assumes "\<not> fst (ldb_open L d)"
  shows "db_put L key v (db_new L d) = Undef" and "db_get L key v (db_new L d) = Undef"
    and "db_exist L key (db_new L d) = Undef" and "db_remove L key (db_new L d) = Undef"
    and "db_fetch_last_key L (db_new L d) = Undef" and "db_free L (db_new L d) = db_new L d"
  using assms
  by (auto simp: db_new_def db_connect_def db_put_def db_get_def db_exist_def db_remove_def db_fetch_last_key_def
      db_iterator_def db_free_def db_disconnect_def split: prod.splits)

section \<open>The store interface\<close>

locale kv_store =
  fixes put :: "string \<Rightarrow> string \<Rightarrow> 's \<Rightarrow> (bool \<times> 's) outcome"
    and exist :: "string \<Rightarrow> 's \<Rightarrow> (bool \<times> 's) outcome"
    and remove :: "string \<Rightarrow> 's \<Rightarrow> (bool \<times> 's) outcome"
    and last_key :: "'s \<Rightarrow> (string option \<times> 's) outcome"
    and content :: "'s \<Rightarrow> (string, string) omap"
  assumes content_ok: "om_ok (content s)"
    and put_true: "put k v s = Ret (True, s') \<Longrightarrow> content s' = om_set k v (content s)"
    and put_false: "put k v s = Ret (False, s') \<Longrightarrow>
      content s' = content s \<or> content s' = om_set k v (content s)"
    and exist_true: "exist k s = Ret (True, s') \<Longrightarrow> om_find (content s) k \<noteq> None"
    and exist_frame: "exist k s = Ret (b, s') \<Longrightarrow> content s' = content s"
    and remove_true: "remove k s = Ret (True, s') \<Longrightarrow> content s' = om_erase k (content s)"
    and remove_false: "remove k s = Ret (False, s') \<Longrightarrow>
      content s' = content s \<or> content s' = om_erase k (content s)"
    and last_key_some: "last_key s = Ret (Some k, s') \<Longrightarrow>
      content s \<noteq> [] \<and> k = fst (last (content s))"
    and last_key_frame: "last_key s = Ret (ko, s') \<Longrightarrow> content s' = content s"
begin

lemma put_then_find:
  "put k v s = Ret (True, s') \<Longrightarrow> om_find (content s') j = (if j = k then Some v else om_find (content s) j)"
  by (simp add: put_true om.find_put content_ok)

lemma put_other:
  "put k v s = Ret (b, s') \<Longrightarrow> j \<noteq> k \<Longrightarrow> om_find (content s') j = om_find (content s) j"
  by (cases b) (auto dest!: put_true put_false simp: om.find_put content_ok)

text \<open>Appending behind the last key.\<close>

lemma put_append:
  assumes "put k v s = Ret (True, s')" and "\<And>j. j \<in> fst ` set (content s) \<Longrightarrow> j < k"
  shows "content s' = content s @ [(k, v)]"
  using assms by (simp add: put_true om_set_last content_ok)

text \<open>Undoing an append whose second half failed.\<close>

lemma put_remove_undo:
  assumes "put k v s = Ret (True, s1)" and "om_find (content s) k = None"
    and "remove k s1 = Ret (True, s2)"
  shows "content s2 = content s"
  using put_true [OF assms(1)] remove_true [OF assms(3)] assms(2)
  by (simp add: om_erase_om_set_new content_ok)

lemma last_key_max:
  assumes "last_key s = Ret (Some k, s')"
  shows "k \<in> fst ` set (content s)" and "j \<in> fst ` set (content s) \<Longrightarrow> j \<le> k"
proof -
  have ne: "content s \<noteq> []" and k: "k = fst (last (content s))"
    using last_key_some [OF assms] by auto
  show "k \<in> fst ` set (content s)" using ne k by simp
  have "sorted (map fst (content s))" using content_ok om_keys(1) by blast
  moreover have "last (map fst (content s)) = k" using ne k by (simp add: last_map)
  ultimately show "j \<in> fst ` set (content s) \<Longrightarrow> j \<le> k"
    using sorted_le_last [of "map fst (content s)" j] by simp
qed

end

section \<open>The wrapper provides it\<close>

context leveldb
begin

abbreviation content :: "'d db \<Rightarrow> (string, string) omap" where
  "content s \<equiv> stored (db_store s)"

lemma reconnect_content:
  "db_reconnect L s = (b, s') \<Longrightarrow> content s' = content s \<and> db_conn s' = b"
  by (auto simp: db_reconnect_def db_connect_def db_disconnect_def close_law
      dest!: open_law split: prod.splits if_splits)

lemma put_cases:
  assumes "db_put L k v s = Ret (b, s')"
  shows "b \<Longrightarrow> content s' = om_set k v (content s) \<and> db_conn s'"
    and "\<not> b \<Longrightarrow> content s' = content s \<or> content s' = om_set k v (content s)"
proof -
  obtain ok d1 where p1: "ldb_put L k v (db_store s) = (ok, d1)" by fastforce
  have conn: "db_conn s" using assms by (auto simp: db_put_def split: if_splits)
  have "(b \<longrightarrow> content s' = om_set k v (content s) \<and> db_conn s')
      \<and> (\<not> b \<longrightarrow> content s' = content s \<or> content s' = om_set k v (content s))"
  proof (cases ok)
    case True
    with assms conn p1 put_ok_law show ?thesis by (auto simp: db_put_def)
  next
    case False
    have d1: "stored d1 = content s \<or> stored d1 = om_set k v (content s)"
      using put_fail_law p1 False by simp
    obtain rc s2 where rc: "db_reconnect L (s\<lparr>db_store := d1\<rparr>) = (rc, s2)" by fastforce
    then have s2: "content s2 = stored d1" "db_conn s2 = rc"
      using reconnect_content by simp_all
    obtain ok2 d3 where p2: "ldb_put L k v (db_store s2) = (ok2, d3)" by fastforce
    have d3: "ok2 \<Longrightarrow> stored d3 = om_set k v (stored d1)"
      "\<not> ok2 \<Longrightarrow> stored d3 = stored d1 \<or> stored d3 = om_set k v (stored d1)"
      using put_ok_law [of k v "db_store s2" d3] put_fail_law [of k v "db_store s2" d3] p2 s2
      by simp_all
    have idem: "om_set k v (stored d1) = om_set k v (content s)"
      using d1 by (elim disjE) (simp_all add: om_set_idem [OF stored_ok])
    have res: "(b, s') = (if rc then (ok2, s2\<lparr>db_store := d3\<rparr>) else (False, s2))"
      using assms conn p1 False rc p2 by (simp add: db_put_def split: if_splits)
    show ?thesis
    proof (cases "rc \<and> ok2")
      case True
      with res s2 d3(1) idem show ?thesis by simp
    next
      case False
      then have "content s' = stored d1 \<or> content s' = om_set k v (content s)"
        using res s2 d3(2) idem by (auto split: if_splits)
      with False res d1 show ?thesis by (auto split: if_splits)
    qed
  qed
  then show "b \<Longrightarrow> content s' = om_set k v (content s) \<and> db_conn s'"
    "\<not> b \<Longrightarrow> content s' = content s \<or> content s' = om_set k v (content s)"
    by simp_all
qed

lemma get_cases:
  assumes "db_get L k v0 s = Ret (b, v, s')"
  shows "content s' = content s" and "b \<Longrightarrow> om_find (content s) k = Some v"
proof -
  have conn: "db_conn s" using assms by (auto simp: db_get_def split: if_splits)
  obtain r d1 where g1: "ldb_get L k (db_store s) = (r, d1)" by fastforce
  have d1: "stored d1 = content s" using get_frame_law g1 by blast
  have "content s' = content s \<and> (b \<longrightarrow> om_find (content s) k = Some v)"
  proof (cases r)
    case (Found w)
    then show ?thesis using assms conn g1 d1 get_found_law by (auto simp: db_get_def)
  next
    case NotFound
    then show ?thesis using assms conn g1 d1 by (auto simp: db_get_def)
  next
    case Failed
    obtain rc s2 where rc: "db_reconnect L (s\<lparr>db_store := d1\<rparr>) = (rc, s2)" by fastforce
    then have s2: "content s2 = stored d1" using reconnect_content by simp
    obtain r2 d3 where g2: "ldb_get L k (db_store s2) = (r2, d3)" by fastforce
    have "stored d3 = content s2" using get_frame_law g2 by blast
    moreover have "r2 = Found w \<Longrightarrow> om_find (content s2) k = Some w" for w
      using get_found_law g2 by blast
    ultimately show ?thesis
      using assms conn g1 Failed rc g2 s2 d1
      by (auto simp: db_get_def split: if_splits ldb_read.splits)
  qed
  then show "content s' = content s" "b \<Longrightarrow> om_find (content s) k = Some v" by simp_all
qed

lemma iterator_cases:
  assumes "db_iterator L s = Ret (it, s')"
  shows "content s' = content s" and "\<And>xs. it = Some xs \<Longrightarrow> xs = content s"
  using assms iter_law iter_frame_law
  by (fastforce simp: db_iterator_def split: if_splits prod.splits)+

lemma alive:
  assumes "db_conn s"
  shows "db_put L k v s \<noteq> Undef" "db_get L k v0 s \<noteq> Undef" "db_exist L k s \<noteq> Undef"
    "db_remove L k s \<noteq> Undef" "db_fetch_last_key L s \<noteq> Undef"
  using assms
  by (auto simp: db_put_def db_get_def db_exist_def db_remove_def db_fetch_last_key_def
      db_iterator_def split: prod.splits ldb_read.splits option.splits)

end

sublocale leveldb \<subseteq> db: kv_store "db_put L" "db_exist L" "db_remove L" "db_fetch_last_key L"
  "\<lambda>s. stored (db_store s)"
proof unfold_locales
  fix s s' :: "'d db" and k v :: string and b :: bool and ko :: "string option"
  show "om_ok (content s)" by (rule stored_ok)
  show "db_put L k v s = Ret (True, s') \<Longrightarrow> content s' = om_set k v (content s)"
    using put_cases(1) by blast
  show "db_put L k v s = Ret (False, s') \<Longrightarrow>
      content s' = content s \<or> content s' = om_set k v (content s)"
    using put_cases(2) by blast
  show "db_exist L k s = Ret (True, s') \<Longrightarrow> om_find (content s) k \<noteq> None"
    by (fastforce simp: db_exist_def dest: get_cases(2))
  show "db_exist L k s = Ret (b, s') \<Longrightarrow> content s' = content s"
    by (fastforce simp: db_exist_def dest: get_cases(1))
  show "db_remove L k s = Ret (True, s') \<Longrightarrow> content s' = om_erase k (content s)"
    using delete_ok_law by (fastforce simp: db_remove_def split: if_splits prod.splits)
  show "db_remove L k s = Ret (False, s') \<Longrightarrow>
      content s' = content s \<or> content s' = om_erase k (content s)"
    using delete_fail_law by (fastforce simp: db_remove_def split: if_splits prod.splits)
  show "db_fetch_last_key L s = Ret (Some k, s') \<Longrightarrow>
      content s \<noteq> [] \<and> k = fst (last (content s))"
    using iterator_cases(2)
    by (fastforce simp: db_fetch_last_key_def split: option.splits if_splits elim!: obind_RetE)
  show "db_fetch_last_key L s = Ret (ko, s') \<Longrightarrow> content s' = content s"
    using iterator_cases(1)
    by (fastforce simp: db_fetch_last_key_def split: option.splits elim!: obind_RetE)
qed

context leveldb
begin

lemma axioms_kv:
  "kv_store (db_put L) (db_exist L) (db_remove L) (db_fetch_last_key L) (\<lambda>s. stored (db_store s))"
  by (rule db.kv_store_axioms)

end

section \<open>A store that does not fail\<close>

text \<open>For the statements about what happens while the disks work.\<close>

locale reliable_db = leveldb +
  assumes put_works: "fst (ldb_put L k v d)"
    and get_works: "fst (ldb_get L k d) \<noteq> Failed"
    and iter_works: "fst (ldb_iter L d) \<noteq> None"
begin

lemma put_Ret:
  assumes "db_conn s"
  shows "\<exists>s'. db_put L k v s = Ret (True, s') \<and> db_conn s' \<and> content s' = om_set k v (content s)"
proof -
  obtain d where d: "ldb_put L k v (db_store s) = (True, d)"
    using put_works [of k v "db_store s"] by (metis (full_types) prod.collapse)
  then show ?thesis using assms put_ok_law [OF d] by (simp add: db_put_def)
qed

lemma exist_Ret:
  assumes "db_conn s"
  shows "\<exists>s'. db_exist L k s = Ret (om_find (content s) k \<noteq> None, s') \<and> db_conn s' \<and> content s' = content s"
proof -
  obtain r d where d: "ldb_get L k (db_store s) = (r, d)" by fastforce
  then have "r \<noteq> Failed" using get_works [of k "db_store s"] by simp
  then show ?thesis
    using assms d get_frame_law [OF d] get_found_law [of k "db_store s" _ d] get_absent_law [of k "db_store s" d]
    by (cases r) (auto simp: db_exist_def db_get_def)
qed

lemma get_Ret:
  assumes "db_conn s"
  shows "\<exists>s'. db_get L k v s = Ret (case om_find (content s) k of Some x \<Rightarrow> (True, x, s') | None \<Rightarrow> (False, [], s'))
    \<and> db_conn s' \<and> content s' = content s"
proof -
  obtain r d where d: "ldb_get L k (db_store s) = (r, d)" by fastforce
  then have "r \<noteq> Failed" using get_works [of k "db_store s"] by simp
  then show ?thesis
    using assms d get_frame_law [OF d] get_found_law [of k "db_store s" _ d] get_absent_law [of k "db_store s" d]
    by (cases r) (auto simp: db_get_def)
qed

lemma iterator_Ret:
  assumes "db_conn s"
  shows "\<exists>s'. db_iterator L s = Ret (Some (content s), s') \<and> db_conn s' \<and> content s' = content s"
proof -
  obtain xs d where d: "ldb_iter L (db_store s) = (Some xs, d)"
    using iter_works [of "db_store s"] by (cases "ldb_iter L (db_store s)") auto
  then show ?thesis using assms iter_law [OF d] iter_frame_law [OF d] by (simp add: db_iterator_def)
qed

lemma last_key_Ret:
  assumes "db_conn s"
  shows "\<exists>s'. db_fetch_last_key L s = Ret (if content s = [] then None else Some (fst (last (content s))), s')
    \<and> db_conn s' \<and> content s' = content s"
  using iterator_Ret [OF assms] by (auto simp: db_fetch_last_key_def)

end

section \<open>A reference store\<close>

text \<open>
  A store with the documented behaviour, used to show that the hypotheses can hold: a
  journal of writes and a script that decides which calls fail (the calls beyond the end of
  the script succeed).
\<close>

type_synonym journal = "(string \<times> string option) list"

fun replay :: "journal \<Rightarrow> (string, string) omap" where
  "replay [] = []"
| "replay ((k, Some v) # ws) = om_set k v (replay ws)"
| "replay ((k, None) # ws) = om_erase k (replay ws)"

type_synonym script_db = "journal \<times> bool list"

definition next_ok :: "bool list \<Rightarrow> bool" where
  "next_ok bs = (bs = [] \<or> hd bs)"

definition script_ldb :: "script_db leveldb_ops" where
  "script_ldb =
     \<lparr>ldb_open = (\<lambda>(ws, bs). (next_ok bs, (ws, tl bs))),
      ldb_close = id,
      ldb_put = (\<lambda>k v (ws, bs). (next_ok bs, (if next_ok bs then (k, Some v) # ws else ws, tl bs))),
      ldb_get = (\<lambda>k (ws, bs).
        (if next_ok bs then (case om_find (replay ws) k of None \<Rightarrow> NotFound | Some v \<Rightarrow> Found v)
         else Failed, (ws, tl bs))),
      ldb_delete = (\<lambda>k (ws, bs). (next_ok bs, (if next_ok bs then (k, None) # ws else ws, tl bs))),
      ldb_iter = (\<lambda>(ws, bs). (if next_ok bs then Some (replay ws) else None, (ws, tl bs)))\<rparr>"

definition journal_content :: "script_db \<Rightarrow> (string, string) omap" where
  "journal_content d = replay (fst d)"

lemma replay_ok: "om_ok (replay ws)"
  by (induction ws rule: replay.induct) (simp_all add: om.ok_put om.ok_erase)

interpretation script: leveldb script_ldb journal_content
  by unfold_locales
    (auto simp: script_ldb_def journal_content_def replay_ok split: if_splits option.splits)

text \<open>The same journal without a script: every call succeeds.\<close>

definition journal_ldb :: "journal leveldb_ops" where
  "journal_ldb =
     \<lparr>ldb_open = (\<lambda>ws. (True, ws)),
      ldb_close = id,
      ldb_put = (\<lambda>k v ws. (True, (k, Some v) # ws)),
      ldb_get = (\<lambda>k ws. (case om_find (replay ws) k of None \<Rightarrow> NotFound | Some v \<Rightarrow> Found v, ws)),
      ldb_delete = (\<lambda>k ws. (True, (k, None) # ws)),
      ldb_iter = (\<lambda>ws. (Some (replay ws), ws))\<rparr>"

interpretation journal: reliable_db journal_ldb replay
  by unfold_locales (auto simp: journal_ldb_def replay_ok split: option.splits)

section \<open>What callers get\<close>

text \<open>
  When \<open>put\<close> returns true the value is stored under the key and nothing else changed,
  whichever of the two attempts wrote it; when it returns false every other key is untouched
  and the key holds its old or its new value. With an open connection the call is defined.
\<close>

theorem db_put_contract:
  assumes "leveldb L stored" and "db_conn db"
  shows "\<exists>b db'. db_put L k v db = Ret (b, db')
    \<and> (b \<longrightarrow> stored (db_store db') = om_set k v (stored (db_store db)) \<and> db_conn db')
    \<and> (\<not> b \<longrightarrow> stored (db_store db') = stored (db_store db)
        \<or> stored (db_store db') = om_set k v (stored (db_store db)))"
proof -
  have "db_put L k v db \<noteq> Undef" by (rule leveldb.alive(1) [OF assms])
  moreover have "db_put L k v db \<noteq> Diverge"
    by (auto simp: db_put_def split: prod.splits)
  ultimately obtain b db' where r: "db_put L k v db = Ret (b, db')"
    by (cases "db_put L k v db") auto
  show ?thesis using leveldb.put_cases [OF assms(1) r] r by blast
qed

theorem db_put_contract_witness:
  "\<exists>b db'. db_put script_ldb ''k'' ''v'' \<lparr>db_conn = True, db_store = ([], [False, True, True])\<rparr> = Ret (b, db')
    \<and> (b \<longrightarrow> journal_content (db_store db') = om_set ''k'' ''v'' (journal_content ([], [False, True, True]))
        \<and> db_conn db')
    \<and> (\<not> b \<longrightarrow> journal_content (db_store db') = journal_content ([], [False, True, True])
        \<or> journal_content (db_store db') = om_set ''k'' ''v'' (journal_content ([], [False, True, True])))"
  using db_put_contract [OF script.leveldb_axioms,
      of "\<lparr>db_conn = True, db_store = ([], [False, True, True])\<rparr>" "''k''" "''v''"]
  by simp

text \<open>
  \<open>fetch_last_key\<close> yields the greatest key of the store in byte order.
\<close>

theorem db_last_key_greatest:
  assumes "leveldb L stored" and "db_fetch_last_key L db = Ret (Some k, db1)"
  shows "k \<in> fst ` set (stored (db_store db)) \<and> (\<forall>j \<in> fst ` set (stored (db_store db)). j \<le> k)"
  using kv_store.last_key_max [OF leveldb.axioms_kv [OF assms(1)] assms(2)] by blast

theorem db_last_key_greatest_witness:
  "''b'' \<in> fst ` set (replay [(''a'', Some ''1''), (''b'', Some ''2'')]) \<and> ''a'' \<le> ''b''"
proof -
  let ?db = "\<lparr>db_conn = True, db_store = ([(''a'', Some ''1''), (''b'', Some ''2'')], [])\<rparr>"
  have "db_fetch_last_key script_ldb ?db = Ret (Some ''b'', ?db)"
    by code_simp
  moreover have "''a'' \<in> fst ` set (journal_content (db_store ?db))" by code_simp
  ultimately show ?thesis
    using db_last_key_greatest [OF script.leveldb_axioms, of ?db "''b''" ?db] by (auto simp: journal_content_def)
qed

text \<open>
  \<open>put\<close> followed by a successful \<open>remove\<close> of a key that was absent restores the contents
  exactly: the undo the handlers perform when the second of their two writes fails.
\<close>

theorem db_put_undo:
  assumes "leveldb L stored" and "db_put L k v db = Ret (True, db1)"
    and "om_find (stored (db_store db)) k = None" and "db_remove L k db1 = Ret (True, db2)"
  shows "stored (db_store db2) = stored (db_store db)"
  using kv_store.put_remove_undo [OF leveldb.axioms_kv [OF assms(1)] assms(2-4)] .

theorem db_put_undo_witness:
  "\<exists>db1 db2. db_put script_ldb ''b'' ''2'' \<lparr>db_conn = True, db_store = ([(''a'', Some ''1'')], [])\<rparr>
      = Ret (True, db1)
    \<and> db_remove script_ldb ''b'' db1 = Ret (True, db2)
    \<and> journal_content (db_store db2) = journal_content ([(''a'', Some ''1'')], [])"
proof -
  let ?db = "\<lparr>db_conn = True, db_store = ([(''a'', Some ''1'')], [])\<rparr>"
  let ?db1 = "\<lparr>db_conn = True, db_store = ([(''b'', Some ''2''), (''a'', Some ''1'')], [])\<rparr>"
  let ?db2 = "\<lparr>db_conn = True, db_store = ([(''b'', None), (''b'', Some ''2''), (''a'', Some ''1'')], [])\<rparr>"
  have p: "db_put script_ldb ''b'' ''2'' ?db = Ret (True, ?db1)" by code_simp
  have r: "db_remove script_ldb ''b'' ?db1 = Ret (True, ?db2)" by code_simp
  have n: "om_find (journal_content (db_store ?db)) ''b'' = None" by code_simp
  show ?thesis
    using p r db_put_undo [OF script.leveldb_axioms p n r] by auto
qed

end
