(* ===== verification/Op_Id.thy ===== *)
theory Op_Id
  imports Prelude
begin

text \<open>
  \<open>src/common/kyrin_lexicographically_helper.h\<close>: the operation ids that key the
  operation log. An id is an 8-byte string; \<open>add_one\<close> increments it from the last byte
  with a carry. Since the store orders keys as unsigned bytes, the theory shows that ids
  are a 64-bit counter whose byte order is the numeric order, first as the interface
  \<open>id_counter\<close>, then for the code's functions by interpretation.
\<close>

section \<open>The code\<close>

definition get_zero :: string where
  "get_zero = replicate 8 nul"

text \<open>
  The loop \<open>for (i = 7; i >= 0; i--)\<close>; the first argument is \<open>i + 1\<close>. \<open>char\<close> is
  signed on the targets the project builds for, so \<open>uint32_t(s[i])\<close> sign-extends.
\<close>

fun add_one_from :: "nat \<Rightarrow> string \<Rightarrow> bool \<times> string" where
  "add_one_from 0 s = (False, s)"
| "add_one_from (Suc i) s =
     (if (scast (uc (s ! i)) :: u32) \<noteq> 0xFFFFFFFF
      then (True, s[i := sc (uc (s ! i) + 1)])
      else add_one_from i (s[i := nul]))"

text \<open>Reading or writing \<open>s[7]\<close> of a shorter string is undefined.\<close>

definition add_one :: "string \<Rightarrow> (bool \<times> string) outcome" where
  "add_one s = (if length s < 8 then Undef else Ret (add_one_from 8 s))"

section \<open>Ids as numbers\<close>

definition be_val :: "string \<Rightarrow> nat" where
  "be_val s = foldl (\<lambda>acc c. acc * 256 + of_char c) 0 s"

lemma be_val_Nil [simp]: "be_val [] = 0"
  by (simp add: be_val_def)

lemma be_val_snoc [simp]: "be_val (s @ [c]) = be_val s * 256 + of_char c"
  by (simp add: be_val_def)

lemma be_val_less: "be_val s < 256 ^ length s"
proof (induction s rule: rev_induct)
  case Nil
  show ?case by simp
next
  case (snoc c s)
  have "of_char c < (256::nat)" by simp
  then have "be_val (s @ [c]) < (be_val s + 1) * 256" by simp
  also have "\<dots> \<le> 256 ^ length s * 256"
    using snoc by (intro mult_le_mono1) simp
  finally show ?case by (simp add: mult.commute)
qed

lemma be_val_append: "be_val (s @ t) = be_val s * 256 ^ length t + be_val t"
  by (induction t rule: rev_induct) (simp_all add: algebra_simps flip: append_assoc)

lemma be_val_Cons: "be_val (c # s) = of_char c * 256 ^ length s + be_val s"
  using be_val_append [of "[c]" s] by (simp add: be_val_def)

lemma be_val_order:
  "length s = length t \<Longrightarrow> s < t \<longleftrightarrow> be_val s < be_val t"
proof (induction s t rule: list_induct2)
  case Nil
  show ?case by simp
next
  case (Cons c s d t)
  let ?B = "256 ^ length t :: nat"
  have less: "be_val s < ?B" "be_val t < ?B"
    using be_val_less [of s] be_val_less [of t] Cons.hyps by simp_all
  have le: "of_char c * ?B + be_val s < of_char d * ?B + be_val t
      \<longleftrightarrow> of_char c < (of_char d :: nat) \<or> of_char c = (of_char d :: nat) \<and> be_val s < be_val t"
  proof (cases "of_char c :: nat" "of_char d :: nat" rule: linorder_cases)
    case less
    then have "(of_char c + 1) * ?B \<le> of_char d * ?B" by (intro mult_le_mono1) simp
    then show ?thesis using less \<open>be_val s < ?B\<close> by (simp add: algebra_simps)
  next
    case equal
    then show ?thesis by simp
  next
    case greater
    then have "(of_char d + 1) * ?B \<le> of_char c * ?B" by (intro mult_le_mono1) simp
    then show ?thesis using greater \<open>be_val t < ?B\<close> by (auto simp: algebra_simps)
  qed
  show ?case
    using Cons le by (simp add: be_val_Cons less_char_def)
qed

lemma be_val_inject: "length s = length t \<Longrightarrow> be_val s = be_val t \<longleftrightarrow> s = t"
  using be_val_order [of s t] be_val_order [of t s] by (metis linorder_neqE order_less_irrefl)

section \<open>One step\<close>

lemma signed_all_ones: "(scast (w :: u8) :: u32) = 0xFFFFFFFF \<longleftrightarrow> w = 255"
proof
  assume a: "(scast w :: u32) = 0xFFFFFFFF"
  have "bit w n" if "n < 8" for n
  proof -
    have "bit (scast w :: u32) n"
      using that a by (simp add: bit_simps numeral_eq_Suc less_Suc_eq) auto
    then show ?thesis using that by (simp add: bit_simps)
  qed
  then have "w = - 1"
    by (intro bit_word_eqI) (simp add: bit_simps)
  then show "w = 255" by simp
qed simp

lemma uc_255: "uc c = 255 \<longleftrightarrow> of_char c = (255 :: nat)"
  by (simp add: word_unat_eq_iff)

lemma of_char_inc: "of_char c \<noteq> (255 :: nat) \<Longrightarrow> of_char (sc (uc c + 1)) = of_char c + (1 :: nat)"
proof -
  assume "of_char c \<noteq> (255 :: nat)"
  moreover have "of_char c < (256 :: nat)" by simp
  ultimately have "of_char c + 1 < (256 :: nat)" by linarith
  then show ?thesis
    by (simp add: sc_def unat_word_ariths)
qed

lemma take_Suc_update: "i < length s \<Longrightarrow> take (Suc i) (s[i := c]) = take i s @ [c]"
  by (simp add: take_Suc_conv_app_nth)

definition incremented :: "nat \<Rightarrow> string \<Rightarrow> bool \<Rightarrow> string \<Rightarrow> bool" where
  "incremented i s r t \<longleftrightarrow> length t = length s \<and> drop i t = drop i s
     \<and> be_val (take i t) = (be_val (take i s) + 1) mod 256 ^ i \<and> (r \<longleftrightarrow> be_val (take i s) + 1 < 256 ^ i)"

lemma be_val_take_Suc: "i < length s \<Longrightarrow> be_val (take (Suc i) s) = be_val (take i s) * 256 + of_char (s ! i)"
  by (simp add: take_Suc_conv_app_nth)

text \<open>The last byte takes the increment, or passes it on.\<close>

lemma incremented_here:
  assumes "i < length s" and "of_char (s ! i) \<noteq> (255 :: nat)"
  shows "incremented (Suc i) s True (s[i := sc (uc (s ! i) + 1)])"
proof -
  have low: "be_val (take i s) < 256 ^ i"
    using be_val_less [of "take i s"] assms(1) by simp
  have v: "be_val (take (Suc i) (s[i := sc (uc (s ! i) + 1)])) = be_val (take (Suc i) s) + 1"
    using assms by (simp add: be_val_take_Suc take_Suc_update of_char_inc)
  have "of_char (s ! i) < (255 :: nat)"
    using assms(2) nat_of_char_less_256 [of "s ! i"] by linarith
  then have "be_val (take (Suc i) s) + 1 < 256 ^ Suc i"
    using low unfolding be_val_take_Suc [OF assms(1)] by simp
  with v assms(1) show ?thesis by (simp add: incremented_def)
qed

lemma incremented_carry:
  assumes "i < length s" and "of_char (s ! i) = (255 :: nat)" and "incremented i (s[i := nul]) r t"
  shows "incremented (Suc i) s r t"
proof -
  have IH: "length t = length s" "drop i t = drop i (s[i := nul])"
    "be_val (take i t) = (be_val (take i s) + 1) mod 256 ^ i" "r \<longleftrightarrow> be_val (take i s) + 1 < 256 ^ i"
    using assms(3) by (simp_all add: incremented_def)
  have ti: "t ! i = nul"
    using IH(1,2) assms(1) by (metis hd_drop_conv_nth length_list_update nth_list_update_eq)
  have "drop (Suc i) t = drop (Suc i) (s[i := nul])"
    using IH(2) by (metis drop_Suc tl_drop)
  moreover have "be_val (take (Suc i) t) = be_val (take i t) * 256"
    using assms(1) IH(1) ti by (simp add: take_Suc_conv_app_nth)
  moreover have "be_val (take (Suc i) s) + 1 = (be_val (take i s) + 1) * 256"
    using assms(2) by (simp add: be_val_take_Suc [OF assms(1)])
  moreover have "(be_val (take i s) + 1) * 256 mod 256 ^ Suc i = (be_val (take i s) + 1) mod 256 ^ i * 256"
    unfolding power_Suc2 by (rule mod_mult_mult2)
  moreover have "(be_val (take i s) + 1) * 256 < 256 ^ Suc i \<longleftrightarrow> be_val (take i s) + 1 < 256 ^ i"
    unfolding power_Suc2 by (simp only: mult_less_cancel2) simp
  ultimately show ?thesis
    unfolding incremented_def using IH by (simp only:) simp
qed

lemma add_one_from_incremented:
  "i \<le> length s \<Longrightarrow> add_one_from i s = (r, t) \<Longrightarrow> incremented i s r t"
proof (induction i arbitrary: s)
  case 0
  then show ?case by (simp add: incremented_def)
next
  case (Suc i)
  then have i: "i < length s" by simp
  show ?case
  proof (cases "of_char (s ! i) = (255 :: nat)")
    case False
    then have "r" "t = s[i := sc (uc (s ! i) + 1)]"
      using Suc.prems(2) by (simp_all add: signed_all_ones uc_255)
    then show ?thesis using incremented_here [OF i False] by simp
  next
    case True
    then have "add_one_from i (s[i := nul]) = (r, t)"
      using Suc.prems(2) by (simp add: signed_all_ones uc_255)
    then show ?thesis using Suc.IH [of "s[i := nul]"] i incremented_carry [OF i True] by simp
  qed
qed

lemma add_one_from_spec:
  assumes "i \<le> length s" and "add_one_from i s = (r, t)"
  shows "length t = length s" "drop i t = drop i s"
    "be_val (take i t) = (be_val (take i s) + 1) mod 256 ^ i"
    "r \<longleftrightarrow> be_val (take i s) + 1 < 256 ^ i"
  using add_one_from_incremented [OF assms] by (simp_all add: incremented_def)

section \<open>The counter interface\<close>

text \<open>
  The client of the ids is the operation log: it starts at \<open>zero\<close>, appends at the
  successor of the last key, and finds the last key by byte order.
\<close>

locale id_counter =
  fixes zero :: "'s :: linorder" and succ :: "'s \<Rightarrow> 's" and val :: "'s \<Rightarrow> nat"
    and wf :: "'s \<Rightarrow> bool" and limit :: nat
  assumes wf_zero: "wf zero" and val_zero: "val zero = 0"
    and wf_succ: "wf s \<Longrightarrow> wf (succ s)"
    and val_succ: "wf s \<Longrightarrow> val s + 1 < limit \<Longrightarrow> val (succ s) = val s + 1"
    and order_val: "wf s \<Longrightarrow> wf t \<Longrightarrow> s < t \<longleftrightarrow> val s < val t"
begin

lemma wf_iterate: "wf ((succ ^^ n) zero)"
  by (induction n) (simp_all add: wf_zero wf_succ)

lemma val_iterate: "n < limit \<Longrightarrow> val ((succ ^^ n) zero) = n"
  by (induction n) (simp_all add: val_zero val_succ wf_iterate)

lemma iterate_less_iff:
  "m < limit \<Longrightarrow> n < limit \<Longrightarrow> (succ ^^ m) zero < (succ ^^ n) zero \<longleftrightarrow> m < n"
  by (simp add: order_val wf_iterate val_iterate)

lemma iterate_inj:
  assumes "m < limit" and "n < limit"
  shows "(succ ^^ m) zero = (succ ^^ n) zero \<longleftrightarrow> m = n"
  using assms val_iterate by metis

lemma strict_sorted_iterates:
  assumes "n \<le> limit"
  shows "sorted (map (\<lambda>i. (succ ^^ i) zero) [0..<n])"
    and "distinct (map (\<lambda>i. (succ ^^ i) zero) [0..<n])"
proof -
  have "sorted_wrt (<) (map (\<lambda>i. (succ ^^ i) zero) [0..<n])"
    using assms by (auto simp: sorted_wrt_iff_nth_less iterate_less_iff simp del: upt_Suc)
  then show "sorted (map (\<lambda>i. (succ ^^ i) zero) [0..<n])"
    "distinct (map (\<lambda>i. (succ ^^ i) zero) [0..<n])"
    by (simp_all add: strict_sorted_iff)
qed

end

section \<open>The code's ids are such a counter\<close>

definition next_id :: "string \<Rightarrow> string" where
  "next_id s = (case add_one s of Ret (_, t) \<Rightarrow> t | _ \<Rightarrow> s)"

definition id_ok :: "string \<Rightarrow> bool" where
  "id_ok s \<longleftrightarrow> length s = 8"

lemma add_one_Ret: "id_ok s \<Longrightarrow> add_one s = Ret (fst (add_one_from 8 s), next_id s)"
  by (simp add: add_one_def next_id_def id_ok_def split: prod.split)

lemma id_ok_next [simp]: "id_ok s \<Longrightarrow> id_ok (next_id s)"
  using add_one_from_spec(1) [of 8 s]
  by (auto simp: id_ok_def next_id_def add_one_def split: prod.split)

lemma id_ok_get_zero [simp]: "id_ok get_zero"
  by (simp add: id_ok_def get_zero_def)

lemma be_val_get_zero: "be_val get_zero = 0"
  by (simp add: get_zero_def be_val_def numeral_eq_Suc)

lemma be_val_next_id: "id_ok s \<Longrightarrow> be_val (next_id s) = (be_val s + 1) mod 256 ^ 8"
  using add_one_from_spec(1,3) [of 8 s]
  by (auto simp: id_ok_def next_id_def add_one_def split: prod.split)

interpretation ids: id_counter get_zero next_id be_val id_ok "256 ^ 8"
proof unfold_locales
  fix s t :: string
  show "id_ok s \<Longrightarrow> be_val s + 1 < 256 ^ 8 \<Longrightarrow> be_val (next_id s) = be_val s + 1"
    by (simp add: be_val_next_id)
  show "id_ok s \<Longrightarrow> id_ok t \<Longrightarrow> s < t \<longleftrightarrow> be_val s < be_val t"
    by (simp add: id_ok_def be_val_order)
qed (simp_all add: be_val_get_zero)

text \<open>\<open>op_id n\<close> is the key of the \<open>n\<close>-th operation; a log of \<open>n\<close> operations has the keys
  \<open>op_ids n\<close>.\<close>

definition op_id :: "nat \<Rightarrow> string" where
  "op_id n = (next_id ^^ n) get_zero"

definition op_ids :: "nat \<Rightarrow> string list" where
  "op_ids n = map op_id [0..<n]"

lemma op_id_0: "op_id 0 = get_zero"
  by (simp add: op_id_def)

lemma op_id_Suc: "op_id (Suc n) = next_id (op_id n)"
  by (simp add: op_id_def)

lemma id_ok_op_id [simp]: "id_ok (op_id n)"
  by (simp add: op_id_def ids.wf_iterate)

lemma length_op_id [simp]: "length (op_id n) = 8"
  using id_ok_op_id [of n] by (simp add: id_ok_def)

lemma op_ids_Suc: "op_ids (Suc n) = op_ids n @ [op_id n]"
  by (simp add: op_ids_def)

lemma op_ids_order:
  assumes "n \<le> 256 ^ 8"
  shows "sorted (op_ids n)" "distinct (op_ids n)"
  using ids.strict_sorted_iterates [OF assms] by (simp_all add: op_ids_def op_id_def [abs_def])

lemma op_id_less_iff: "m < 256 ^ 8 \<Longrightarrow> n < 256 ^ 8 \<Longrightarrow> op_id m < op_id n \<longleftrightarrow> m < n"
  unfolding op_id_def by (rule ids.iterate_less_iff)

lemma op_id_eq_iff: "m < 256 ^ 8 \<Longrightarrow> n < 256 ^ 8 \<Longrightarrow> op_id m = op_id n \<longleftrightarrow> m = n"
  unfolding op_id_def by (rule ids.iterate_inj)

lemma op_ids_below: "n < 256 ^ 8 \<Longrightarrow> j \<in> set (op_ids n) \<Longrightarrow> j < op_id n"
  by (auto simp: op_ids_def op_id_less_iff)

lemma add_one_op_id: "\<exists>r. add_one (op_id n) = Ret (r, op_id (Suc n))"
  using add_one_Ret [of "op_id n"] by (simp add: op_id_Suc)

text \<open>
  C35: On every 8-byte id \<open>add_one\<close> is the increment of a 64-bit big-endian counter: it wraps
  at the end, and returns false exactly when it wraps. The test on the sign-extended byte and
  the increment of a signed \<open>char\<close> do what they are meant to do.
\<close>

theorem add_one_increments:
  assumes "length s = 8"
  shows "\<exists>r t. add_one s = Ret (r, t) \<and> length t = 8
    \<and> be_val t = (be_val s + 1) mod 2 ^ 64 \<and> (r \<longleftrightarrow> be_val s + 1 < 2 ^ 64)"
proof -
  obtain r t where rt: "add_one_from 8 s = (r, t)" by fastforce
  have p: "(256 :: nat) ^ 8 = 2 ^ 64" by simp
  show ?thesis
    using add_one_from_spec [OF _ rt] assms rt unfolding p by (simp add: add_one_def)
qed

theorem add_one_increments_witness:
  "\<exists>r t. add_one ''abcdefg~'' = Ret (r, t) \<and> length t = 8
    \<and> be_val t = (be_val ''abcdefg~'' + 1) mod 2 ^ 64
    \<and> (r \<longleftrightarrow> be_val ''abcdefg~'' + 1 < 2 ^ 64)"
  by (rule add_one_increments) simp

text \<open>
  The keys the log hands out one after the other are listed by the store in the order of
  creation: for any two operation numbers below \<open>2 ^ 64\<close> the byte order of their ids is the
  order of the numbers, so the last key in byte order is the newest.
\<close>

theorem op_id_byte_order:
  assumes "m < 2 ^ 64" and "n < 2 ^ 64"
  shows "op_id m < op_id n \<longleftrightarrow> m < n"
proof -
  have p: "(256 :: nat) ^ 8 = 2 ^ 64" by simp
  show ?thesis using op_id_less_iff [unfolded p] assms by blast
qed

theorem op_id_byte_order_witness: "op_id 3 < op_id 300 \<longleftrightarrow> (3::nat) < 300"
  by (rule op_id_byte_order) simp_all

end
