(* ===== verification/Cluster.thy ===== *)
theory Cluster
  imports Config_Files
begin

text \<open>
  \<open>common/kyrin_cluster.h\<close> and \<open>.cc\<close>: the singleton that holds the static description of the
  cluster. Masters are numbered from 1, chunk servers from 3001; the accessors index the
  vectors of configurations with 32-bit arithmetic and without a bounds check, so an id
  outside the configured range is undefined behaviour. \<open>rand()\<close> is the argument \<open>rnd\<close>.
\<close>

section \<open>State\<close>

datatype server_type = K_type_master | K_type_slavenode | K_type_chunk | K_type_keycenter

record cluster =
  m_server_type :: server_type
  m_kbid :: u32
  m_master_server_count :: u32
  m_chunk_seed_count :: u32
  m_master_configs :: "config list"
  m_chunk_configs :: "config list"
  m_keycenter_config :: config

definition cluster_zero :: cluster where
  "cluster_zero =
     \<lparr>m_server_type = K_type_master, m_kbid = 0, m_master_server_count = 0,
      m_chunk_seed_count = 0, m_master_configs = [], m_chunk_configs = [], m_keycenter_config = []\<rparr>"

section \<open>Reading the configuration\<close>

definition server_type_of :: "string \<Rightarrow> server_type" where
  "server_type_of s =
     (if s = ''Master'' then K_type_master
      else if s = ''Slavenode'' then K_type_slavenode
      else if s = ''KeyCenter'' then K_type_keycenter
      else K_type_chunk)"

text \<open>\<open>t_map[key]\<close>: the empty string when the key is missing.\<close>

definition entry :: "config \<Rightarrow> json_key \<Rightarrow> string" where
  "entry m key = (case om_find m (json_name key) of None \<Rightarrow> [] | Some v \<Rightarrow> v)"

definition atoi_u32 :: "string \<Rightarrow> u32 outcome" where
  "atoi_u32 s = obind (atoi s) (\<lambda>i. Ret (word_of_int i))"

text \<open>
  \<open>for (uint32_t i = 1; i <= n; i++)\<close> around reading the file \<open>name\<close>\<open>i\<close>\<open>.json\<close>; the comparison
  never fails when \<open>n\<close> is the largest 32-bit value.
\<close>

definition read_numbered ::
  "(string \<Rightarrow> string option) \<Rightarrow> string \<Rightarrow> u32 \<Rightarrow> config list outcome" where
  "read_numbered files name n =
     (if n = - 1 then Diverge
      else Ret (map (\<lambda>i. read_config_file (files (name @ print_nat i @ ''.json''))) [1..<Suc (unat n)]))"

definition read_cluster_file ::
  "(string \<Rightarrow> string option) \<Rightarrow> string \<Rightarrow> cluster \<Rightarrow> (bool \<times> cluster) outcome" where
  "read_cluster_file files filename cl =
     (let t_map = read_config_file (files filename) in
      if om_count t_map (json_name K_server_type) = 0 \<or> om_count t_map (json_name K_kbid) = 0
      then Ret (False, cl)
      else
        obind (atoi_u32 (entry t_map K_kbid)) (\<lambda>kbid.
        obind (atoi_u32 (entry t_map K_master_server_count)) (\<lambda>masters.
        obind (atoi_u32 (entry t_map K_chunk_seed_count)) (\<lambda>seeds.
        obind (read_numbered files ''kyrinbox_master_config_'' masters) (\<lambda>mcs.
        obind (read_numbered files ''kyrinbox_chunk_config_'' seeds) (\<lambda>ccs.
        Ret (True,
          \<lparr>m_server_type = server_type_of (entry t_map K_server_type), m_kbid = kbid,
           m_master_server_count = masters, m_chunk_seed_count = seeds,
           m_master_configs = mcs, m_chunk_configs = ccs,
           m_keycenter_config = read_config_file (files ''kyrinbox_keycenter_config_1.json'')\<rparr>)))))))"

section \<open>Accessors\<close>

text \<open>The default argument 0 means the server's own id.\<close>

definition own :: "cluster \<Rightarrow> u32 \<Rightarrow> u32" where
  "own cl kbid = (if kbid = 0 then m_kbid cl else kbid)"

definition at_index :: "'a list \<Rightarrow> u32 \<Rightarrow> 'a outcome" where
  "at_index xs i = (if unat i < length xs then Ret (xs ! unat i) else Undef)"

definition get_master_config :: "cluster \<Rightarrow> u32 \<Rightarrow> config outcome" where
  "get_master_config cl kbid = at_index (m_master_configs cl) (own cl kbid - 1)"

definition get_chunk_config :: "cluster \<Rightarrow> u32 \<Rightarrow> config outcome" where
  "get_chunk_config cl kbid = at_index (m_chunk_configs cl) (own cl kbid - 3001)"

definition get_chunk_ip :: "cluster \<Rightarrow> u32 \<Rightarrow> string outcome" where
  "get_chunk_ip cl kbid =
     obind (at_index (m_chunk_configs cl) (own cl kbid - 3001)) chunk_machine_address"

definition get_chunk_gossip_port :: "cluster \<Rightarrow> u32 \<Rightarrow> u32 outcome" where
  "get_chunk_gossip_port cl kbid =
     obind (at_index (m_chunk_configs cl) (own cl kbid - 3001)) gossip_server_port"

definition get_chunk_set_file_key_info_port :: "cluster \<Rightarrow> u32 \<Rightarrow> u32 outcome" where
  "get_chunk_set_file_key_info_port cl kbid =
     obind (at_index (m_chunk_configs cl) (own cl kbid - 3001)) set_file_key_info_port"

definition get_chunk_get_file_key_info_port :: "cluster \<Rightarrow> u32 \<Rightarrow> u32 outcome" where
  "get_chunk_get_file_key_info_port cl kbid =
     obind (at_index (m_chunk_configs cl) (own cl kbid - 3001)) get_file_key_info_port"

definition get_chunk_upload_chunk_file_port :: "cluster \<Rightarrow> u32 \<Rightarrow> u32 outcome" where
  "get_chunk_upload_chunk_file_port cl kbid =
     obind (at_index (m_chunk_configs cl) (own cl kbid - 3001)) upload_chunk_file_port"

definition get_chunk_download_chunk_file_port :: "cluster \<Rightarrow> u32 \<Rightarrow> u32 outcome" where
  "get_chunk_download_chunk_file_port cl kbid =
     obind (at_index (m_chunk_configs cl) (own cl kbid - 3001)) download_chunk_file_port"

definition get_random_chunk_seed_for_gossip :: "cluster \<Rightarrow> u32 \<Rightarrow> (string \<times> u32) outcome" where
  "get_random_chunk_seed_for_gossip cl rnd =
     (if m_chunk_seed_count cl = 0 then Undef
      else let kbid = 3001 + rnd mod m_chunk_seed_count cl in
        obind (get_chunk_ip cl kbid) (\<lambda>ip.
        obind (get_chunk_gossip_port cl kbid) (\<lambda>port. Ret (ip, port))))"

definition get_keycenter_redis_host :: "cluster \<Rightarrow> string outcome" where
  "get_keycenter_redis_host cl = get_config (m_keycenter_config cl) K_keycenter_redis_host"

definition get_keycenter_redis_port :: "cluster \<Rightarrow> u32 outcome" where
  "get_keycenter_redis_port cl = get_number (m_keycenter_config cl) K_keycenter_redis_port"

definition get_keycenter_host :: "cluster \<Rightarrow> string outcome" where
  "get_keycenter_host cl = keycenter_machine_address (m_keycenter_config cl)"

definition get_keycenter_get_key_port :: "cluster \<Rightarrow> u32 outcome" where
  "get_keycenter_get_key_port cl = get_key_port (m_keycenter_config cl)"

definition get_keycenter_set_key_port :: "cluster \<Rightarrow> u32 outcome" where
  "get_keycenter_set_key_port cl = set_key_port (m_keycenter_config cl)"

definition get_keycenter_get_key_backlog :: "cluster \<Rightarrow> u32 outcome" where
  "get_keycenter_get_key_backlog cl = get_key_backlog (m_keycenter_config cl)"

definition get_keycenter_set_key_backlog :: "cluster \<Rightarrow> u32 outcome" where
  "get_keycenter_set_key_backlog cl = set_key_backlog (m_keycenter_config cl)"

definition get_master_ip :: "cluster \<Rightarrow> u32 \<Rightarrow> string outcome" where
  "get_master_ip cl kbid =
     obind (at_index (m_master_configs cl) (own cl kbid - 1)) master_machine_address"

definition get_master_sentinel_port :: "cluster \<Rightarrow> u32 \<Rightarrow> u32 outcome" where
  "get_master_sentinel_port cl kbid =
     obind (at_index (m_master_configs cl) (own cl kbid - 1)) sentinel_port"

definition get_master_confirm_oplog_port :: "cluster \<Rightarrow> u32 \<Rightarrow> u32 outcome" where
  "get_master_confirm_oplog_port cl kbid =
     obind (at_index (m_master_configs cl) (own cl kbid - 1)) confirm_oplog_port"

definition get_master_get_oplog_port :: "cluster \<Rightarrow> u32 \<Rightarrow> u32 outcome" where
  "get_master_get_oplog_port cl kbid =
     obind (at_index (m_master_configs cl) (own cl kbid - 1)) get_oplog_port"

definition get_master_count :: "cluster \<Rightarrow> u32" where
  "get_master_count cl = m_master_server_count cl"

text \<open>
  \<open>get_chunk_status(seeds, commons)\<close> appends the id of every configured chunk server to one
  of the two vectors. The loop variable is the first argument.
\<close>

fun chunk_status_from ::
  "u32 \<Rightarrow> config list \<Rightarrow> u32 list \<times> u32 list \<Rightarrow> (u32 list \<times> u32 list) outcome" where
  "chunk_status_from i [] (seeds, commons) = Ret (seeds, commons)"
| "chunk_status_from i (c # cs) (seeds, commons) =
     obind (role c) (\<lambda>r.
       if r = ''Seed'' then chunk_status_from (i + 1) cs (seeds @ [i + 3001], commons)
       else chunk_status_from (i + 1) cs (seeds, commons @ [i + 3001]))"

definition get_chunk_status ::
  "cluster \<Rightarrow> u32 list \<times> u32 list \<Rightarrow> (u32 list \<times> u32 list) outcome" where
  "get_chunk_status cl vecs = chunk_status_from 0 (m_chunk_configs cl) vecs"

section \<open>A well-formed cluster\<close>

text \<open>
  The numbers agree with the vectors and no configuration file was empty, which is what
  makes every accessor defined on the ids in use.
\<close>

definition cluster_ok :: "cluster \<Rightarrow> bool" where
  "cluster_ok cl \<longleftrightarrow>
     length (m_master_configs cl) = unat (m_master_server_count cl) \<and>
     length (m_chunk_configs cl) = unat (m_chunk_seed_count cl) \<and>
     0 < m_chunk_seed_count cl \<and>
     unat (m_chunk_seed_count cl) + 3001 < 2 ^ 32 \<and>
     (\<forall>c \<in> set (m_master_configs cl). c \<noteq> []) \<and>
     (\<forall>c \<in> set (m_chunk_configs cl). c \<noteq> [])"

lemma read_numbered_Ret:
  "read_numbered files name n = Ret cs \<Longrightarrow> length cs = unat n"
  by (auto simp: read_numbered_def split: if_splits)

lemma at_index_master:
  assumes "cluster_ok cl" and "1 \<le> kbid" and "kbid \<le> m_master_server_count cl"
  obtains c where "at_index (m_master_configs cl) (kbid - 1) = Ret c"
    and "c \<in> set (m_master_configs cl)" and "c \<noteq> []"
proof -
  have k: "unat (kbid - 1) = unat kbid - 1"
    using assms(2) by (simp add: unat_sub)
  have "0 < unat kbid" using assms(2) by (simp add: word_le_nat_alt)
  then have "unat (kbid - 1) < length (m_master_configs cl)"
    using assms(1,3) by (simp add: k cluster_ok_def word_le_nat_alt)
  then show ?thesis
    using that assms(1) by (auto simp: at_index_def cluster_ok_def)
qed

lemma at_index_chunk:
  assumes "cluster_ok cl" and "i < m_chunk_seed_count cl"
  obtains c where "at_index (m_chunk_configs cl) (own cl (3001 + i) - 3001) = Ret c"
    and "c \<in> set (m_chunk_configs cl)" and "c \<noteq> []"
proof -
  have lt: "unat i < length (m_chunk_configs cl)"
    using assms by (simp add: cluster_ok_def word_less_nat_alt)
  have "unat i + 3001 < 2 ^ 32"
    using lt assms(1) by (simp add: cluster_ok_def)
  then have "unat (3001 + i) = 3001 + unat i"
    by (subst unat_add_lem [THEN iffD1]) simp_all
  then have "3001 + i \<noteq> 0" by (metis add_is_0 unat_0 zero_neq_numeral)
  then have "own cl (3001 + i) - 3001 = i" by (simp add: own_def)
  then show ?thesis
    using that lt assms(1) by (auto simp: at_index_def cluster_ok_def)
qed

lemma chunk_status_from_split:
  assumes "chunk_status_from i cs (seeds, commons) = Ret (s, t)"
  shows "s = seeds @ [i + of_nat n + 3001. n \<leftarrow> [0..<length cs], role (cs ! n) = Ret ''Seed'']
    \<and> t = commons @ [i + of_nat n + 3001. n \<leftarrow> [0..<length cs], role (cs ! n) \<noteq> Ret ''Seed'']"
  using assms
proof (induction cs arbitrary: i seeds commons)
  case Nil
  then show ?case by simp
next
  case (Cons c cs)
  obtain r where r: "role c = Ret r"
    using Cons.prems by (auto elim: obind_RetE)
  have idx: "[0..<length (c # cs)] = 0 # map Suc [0..<length cs]"
    by (simp add: upt_conv_Cons map_Suc_upt del: upt_Suc)
  have sh: "i + 1 + of_nat n = i + of_nat (Suc n)" for n by simp
  show ?case
  proof (cases "r = ''Seed''")
    case True
    then have "chunk_status_from (i + 1) cs (seeds @ [i + 3001], commons) = Ret (s, t)"
      using Cons.prems r by simp
    from Cons.IH [OF this] show ?thesis
      unfolding sh idx using r True by (simp add: comp_def)
  next
    case False
    then have "chunk_status_from (i + 1) cs (seeds, commons @ [i + 3001]) = Ret (s, t)"
      using Cons.prems r by simp
    from Cons.IH [OF this] show ?thesis
      unfolding sh idx using r False by (simp add: comp_def)
  qed
qed

lemma chunk_status_from_returns:
  "(\<forall>c \<in> set cs. c \<noteq> []) \<Longrightarrow> returns (chunk_status_from i cs vecs)"
proof (induction i cs vecs rule: chunk_status_from.induct)
  case (2 i c cs seeds commons)
  have "returns (role c)" using 2 by (simp add: role_def get_config_total)
  then obtain r where "role c = Ret r" by (auto simp: returns_iff)
  then show ?case using 2 by simp
qed simp

section \<open>What a configured server may rely on\<close>

lemma read_cluster_file_lengths:
  assumes "read_cluster_file files filename cl0 = Ret (True, cl)"
  shows "length (m_master_configs cl) = unat (m_master_server_count cl)
    \<and> length (m_chunk_configs cl) = unat (m_chunk_seed_count cl)"
  using assms
  by (auto simp: read_cluster_file_def Let_def dest: read_numbered_Ret elim!: obind_RetE
      split: if_splits)

lemma get_master_ip_returns:
  assumes "cluster_ok cl" and "1 \<le> kbid" and "kbid \<le> m_master_server_count cl"
  shows "returns (get_master_ip cl kbid)"
proof -
  have "kbid \<noteq> 0" using assms(2) by auto
  obtain c where "at_index (m_master_configs cl) (kbid - 1) = Ret c" "c \<noteq> []"
    using assms by (rule at_index_master)
  then show ?thesis
    using \<open>kbid \<noteq> 0\<close>
    by (simp add: get_master_ip_def own_def master_machine_address_def get_config_total)
qed

lemma get_chunk_ip_returns:
  assumes "cluster_ok cl" and "i < m_chunk_seed_count cl"
  shows "returns (get_chunk_ip cl (3001 + i))"
proof -
  obtain c where "at_index (m_chunk_configs cl) (own cl (3001 + i) - 3001) = Ret c" "c \<noteq> []"
    using assms by (rule at_index_chunk)
  then show ?thesis
    by (simp add: get_chunk_ip_def chunk_machine_address_def get_config_total)
qed


text \<open>The id of the \<open>n\<close>-th configured chunk server.\<close>

definition chunk_id :: "nat \<Rightarrow> u32" where
  "chunk_id n = of_nat n + 3001"

lemma inj_chunk_id:
  assumes "n \<le> 2 ^ 32" shows "inj_on chunk_id {0..<n}"
proof (rule inj_onI)
  fix i j assume ij: "i \<in> {0..<n}" "j \<in> {0..<n}" and "chunk_id i = chunk_id j"
  then have "(of_nat i :: u32) = of_nat j" by (simp add: chunk_id_def)
  moreover have "unat (of_nat i :: u32) = i" "unat (of_nat j :: u32) = j"
    using ij assms by (simp_all add: unat_of_nat)
  ultimately show "i = j" by metis
qed

lemma chunk_status_lists:
  assumes "get_chunk_status cl ([], []) = Ret (seeds, commons)"
  shows "seeds = map chunk_id (filter (\<lambda>n. role (m_chunk_configs cl ! n) = Ret ''Seed'')
      [0..<length (m_chunk_configs cl)])"
    and "commons = map chunk_id (filter (\<lambda>n. role (m_chunk_configs cl ! n) \<noteq> Ret ''Seed'')
      [0..<length (m_chunk_configs cl)])"
proof -
  have fm: "concat (map (\<lambda>n. if P n then [f n] else []) ns) = map f (filter P ns)"
    for P ns and f :: "nat \<Rightarrow> u32"
    by (induction ns) simp_all
  show "seeds = map chunk_id (filter (\<lambda>n. role (m_chunk_configs cl ! n) = Ret ''Seed'')
      [0..<length (m_chunk_configs cl)])"
    and "commons = map chunk_id (filter (\<lambda>n. role (m_chunk_configs cl ! n) \<noteq> Ret ''Seed'')
      [0..<length (m_chunk_configs cl)])"
    using chunk_status_from_split [of 0 "m_chunk_configs cl" "[]" "[]" seeds commons] assms
    by (simp_all add: get_chunk_status_def fm chunk_id_def)
qed

lemma chunk_status_ids:
  assumes "get_chunk_status cl ([], []) = Ret (seeds, commons)"
    and "length (m_chunk_configs cl) \<le> 2 ^ 32"
  shows "distinct (seeds @ commons)
    \<and> set (seeds @ commons) = chunk_id ` {0..<length (m_chunk_configs cl)}"
proof -
  let ?N = "{0..<length (m_chunk_configs cl)}"
  let ?P = "\<lambda>n. role (m_chunk_configs cl ! n) = Ret ''Seed''"
  note inj = inj_chunk_id [OF assms(2)]
  have sub: "inj_on chunk_id (set (filter P [0..<length (m_chunk_configs cl)]))" for P
    by (rule inj_on_subset [OF inj]) auto
  have "distinct seeds" "distinct commons"
    unfolding chunk_status_lists [OF assms(1)]
    by (simp_all only: distinct_map sub distinct_filter distinct_upt simp_thms)
  moreover have "set seeds = chunk_id ` {n \<in> ?N. ?P n}" "set commons = chunk_id ` {n \<in> ?N. \<not> ?P n}"
    unfolding chunk_status_lists [OF assms(1)] by auto
  moreover have "chunk_id ` {n \<in> ?N. ?P n} \<inter> chunk_id ` {n \<in> ?N. \<not> ?P n} = {}"
    by (subst inj_on_image_Int [OF inj, symmetric]) auto
  ultimately show ?thesis by auto
qed

text \<open>
  On a cluster whose chunk configurations are not empty, \<open>get_chunk_status\<close> files every
  chunk server under exactly one of the two lists: no id twice, the ids together are
  \<open>3001, 3002, ...\<close>, and the seeds are those whose configured role is \<open>Seed\<close>.
\<close>

theorem get_chunk_status_partition:
  assumes "\<forall>c \<in> set (m_chunk_configs cl). c \<noteq> []"
    and "length (m_chunk_configs cl) \<le> 2 ^ 32"
  shows "\<exists>seeds commons. get_chunk_status cl ([], []) = Ret (seeds, commons)
    \<and> distinct (seeds @ commons)
    \<and> set (seeds @ commons) = chunk_id ` {0..<length (m_chunk_configs cl)}
    \<and> (\<forall>n < length (m_chunk_configs cl).
         chunk_id n \<in> set seeds \<longleftrightarrow> role (m_chunk_configs cl ! n) = Ret ''Seed'')"
proof -
  obtain s t where st: "get_chunk_status cl ([], []) = Ret (s, t)"
    using chunk_status_from_returns [OF assms(1)] by (fastforce simp: get_chunk_status_def returns_iff)
  have "chunk_id n \<in> set s \<longleftrightarrow> role (m_chunk_configs cl ! n) = Ret ''Seed''"
    if "n < length (m_chunk_configs cl)" for n
    unfolding chunk_status_lists(1) [OF st]
    using that inj_onD [OF inj_chunk_id [OF assms(2)], of n] by force
  then show ?thesis using st chunk_status_ids [OF st assms(2)] by blast
qed

text \<open>A deployment with one master, a seed and a common chunk server.\<close>

definition demo_files :: "string \<Rightarrow> string option" where
  "demo_files name =
     (if name = ''kyrinbox_config.json'' then Some (render ''/*fake*/''
        [(''ServerType'', ''Master''), (''Kbid'', ''1''), (''MasterServerCount'', ''1''),
         (''ChunkSeedCount'', ''2'')])
      else if name = ''kyrinbox_master_config_1.json'' then Some (render ''/*fake*/''
        [(''MachineAddress'', ''m'')])
      else if name = ''kyrinbox_chunk_config_1.json'' then Some (render ''/*fake*/''
        [(''ChunkMachineAddress'', ''c''), (''ChunkGossipServerPort'', ''80''), (''ChunkRole'', ''Seed'')])
      else if name = ''kyrinbox_chunk_config_2.json'' then Some (render ''/*fake*/''
        [(''ChunkMachineAddress'', ''d''), (''ChunkGossipServerPort'', ''81''), (''ChunkRole'', ''Common'')])
      else None)"

definition demo_cluster :: cluster where
  "demo_cluster =
     \<lparr>m_server_type = K_type_master, m_kbid = 1, m_master_server_count = 1, m_chunk_seed_count = 2,
      m_master_configs = [[(''MachineAddress'', ''m'')]],
      m_chunk_configs =
        [[(''ChunkGossipServerPort'', ''80''), (''ChunkMachineAddress'', ''c''), (''ChunkRole'', ''Seed'')],
         [(''ChunkGossipServerPort'', ''81''), (''ChunkMachineAddress'', ''d''), (''ChunkRole'', ''Common'')]],
      m_keycenter_config = []\<rparr>"

lemma demo_cluster_read:
  "read_cluster_file demo_files k_config_filepath cluster_zero = Ret (True, demo_cluster)"
  by code_simp


lemma get_chunk_status_partition_witness:
  "\<exists>seeds commons. get_chunk_status demo_cluster ([], []) = Ret (seeds, commons)
    \<and> set (seeds @ commons) = chunk_id ` {0..<2}"
proof -
  have "\<forall>c \<in> set (m_chunk_configs demo_cluster). c \<noteq> []"
    "length (m_chunk_configs demo_cluster) = 2"
    by (simp_all add: demo_cluster_def)
  with get_chunk_status_partition [of demo_cluster] show ?thesis by auto
qed

end
