(* ===== verification/Sentinel.thy ===== *)
theory Sentinel
  imports Cluster Http_Client Base_Server
begin

text \<open>
  Leader election among the masters: \<open>server/master/kyrin_master_sentinel.h\<close> and \<open>.cc\<close> (the state
  and the loop of \<open>sentinel_sync\<close>) and the two handlers of \<open>kyrin_master_sentinel_server.cc\<close>.
  A master's own sentinel is part of the world, since the loop also sends its requests to
  itself and other threads answer requests meanwhile; \<open>peek\<close> and \<open>poke\<close> read and write it.
  Each critical section is one step.
\<close>

section \<open>State\<close>

datatype master_status = K_status_leader | K_status_follower | K_status_consensus

record sentinel =
  m_status :: master_status
  m_leader :: u32
  m_vote :: u64
  m_epoch :: u64

definition start_sentinel :: "u32 \<Rightarrow> u64 \<Rightarrow> sentinel" where
  "start_sentinel kbid vote =
     \<lparr>m_status = K_status_consensus, m_leader = kbid, m_vote = vote, m_epoch = 0\<rparr>"

definition get_vote_ticket :: "sentinel \<Rightarrow> string" where
  "get_vote_ticket s = print_u64 (m_epoch s) @ '' '' @ print_u64 (m_vote s)"

definition get_epoch :: "sentinel \<Rightarrow> u64" where "get_epoch s = m_epoch s"
definition set_epoch :: "u64 \<Rightarrow> sentinel \<Rightarrow> sentinel" where "set_epoch e s = s\<lparr>m_epoch := e\<rparr>"
definition get_vote :: "sentinel \<Rightarrow> u64" where "get_vote s = m_vote s"
definition set_vote :: "u64 \<Rightarrow> sentinel \<Rightarrow> sentinel" where "set_vote v s = s\<lparr>m_vote := v\<rparr>"
definition get_leader :: "sentinel \<Rightarrow> u32" where "get_leader s = m_leader s"
definition set_leader :: "u32 \<Rightarrow> sentinel \<Rightarrow> sentinel" where "set_leader l s = s\<lparr>m_leader := l\<rparr>"
definition get_status :: "sentinel \<Rightarrow> master_status" where "get_status s = m_status s"
definition set_status :: "master_status \<Rightarrow> sentinel \<Rightarrow> sentinel" where "set_status x s = s\<lparr>m_status := x\<rparr>"

lemmas sentinel_ops = get_epoch_def set_epoch_def get_vote_def set_vote_def get_leader_def
  set_leader_def get_status_def set_status_def

section \<open>The handlers\<close>

definition get_sentinel_status_handler :: "sentinel \<Rightarrow> reply" where
  "get_sentinel_status_handler s =
     (case get_status s of
        K_status_leader \<Rightarrow> server_send_reply_ok ''leader''
      | K_status_follower \<Rightarrow> server_send_reply_ok ''follower''
      | K_status_consensus \<Rightarrow> server_send_reply_ok ''consensus'')"

text \<open>
  A ticket without a readable epoch leaves the local variable uninitialised, which the
  comparison then reads.
\<close>

definition get_sentinel_vote_handler :: "u32 \<Rightarrow> request \<Rightarrow> sentinel \<Rightarrow> (reply \<times> sentinel) outcome" where
  "get_sentinel_vote_handler kbid req s =
     (let reply = snd (server_get_postdata req []) in
      obind (scan_llu2 reply) (\<lambda>(epoch, vote).
      case epoch of
        None \<Rightarrow> Undef
      | Some epoch \<Rightarrow>
          let now_epoch = get_epoch s;
              s' = (if now_epoch < epoch
                    then set_status K_status_consensus (set_vote (ucast kbid) (set_epoch epoch s))
                    else s)
          in Ret (server_send_reply_ok (get_vote_ticket s'), s')))"

section \<open>The loop\<close>

text \<open>The own sentinel inside the world.\<close>

record 'w self =
  peek :: "'w \<Rightarrow> sentinel"
  poke :: "sentinel \<Rightarrow> 'w \<Rightarrow> 'w"

definition check_response :: "string \<Rightarrow> bool" where
  "check_response response \<longleftrightarrow> response \<noteq> []"

text \<open>
  The follower's poll of its leader, with the same shape as the gossip loop: a request is sent
  before \<open>retry\<close> is looked at. Any answer counts, whatever it says.
\<close>

function follow_loop :: "'w curl_ops \<Rightarrow> string \<Rightarrow> u32 \<Rightarrow> nat \<Rightarrow> string \<Rightarrow> 'w \<Rightarrow> (nat \<times> 'w) outcome" where
  "follow_loop C ip port retry response w =
     obind (make_request_get C ip port ''/GetStatus'' response w) (\<lambda>(ok, response', w').
       if \<not> ok \<and> retry < 3 then follow_loop C ip port (retry + 1) response' w'
       else Ret (retry, w'))"
  by auto
termination by (relation "measure (\<lambda>(_, _, _, retry, _, _). 3 - retry)") auto

declare follow_loop.simps [simp del]

text \<open>
  One pass over the masters \<open>is\<close>: \<open>votes\<close> and \<open>voted\<close> are the vectors of the code (index 0
  unused). A ticket of another epoch makes the master take over that epoch and ends the pass.
\<close>

fun collect ::
  "'w curl_ops \<Rightarrow> cluster \<Rightarrow> 'w self \<Rightarrow> string \<Rightarrow> nat list \<Rightarrow> (u64 \<times> u64) list \<Rightarrow> bool list \<Rightarrow> 'w
     \<Rightarrow> ((u64 \<times> u64) list \<times> bool list \<times> 'w) outcome" where
  "collect C cl me me_vote [] votes voted w = Ret (votes, voted, w)"
| "collect C cl me me_vote (i # is) votes voted w =
     obind (get_master_ip cl (of_nat i)) (\<lambda>ip.
     obind (get_master_sentinel_port cl (of_nat i)) (\<lambda>port.
     obind (make_request_post C ip port ''/GetVote'' [] me_vote w) (\<lambda>(ok, response, w1).
     if \<not> check_response response then collect C cl me me_vote is votes voted w1
     else
       obind (scan_llu2 response) (\<lambda>(epoch, vote).
       case epoch of
         None \<Rightarrow> Undef
       | Some epoch \<Rightarrow>
           if epoch \<noteq> m_epoch (peek me w1)
           then Ret (votes, voted,
             poke me ((peek me w1)\<lparr>m_leader := m_kbid cl, m_epoch := epoch\<rparr>) w1)
           else
             case vote of
               None \<Rightarrow> Undef
             | Some vote \<Rightarrow>
                 collect C cl me me_vote is (votes[i := (epoch, vote)]) (voted[i := True]) w1))))"

text \<open>The tally. A vote for an id beyond the masters indexes outside the vector.\<close>

fun count_votes :: "nat list \<Rightarrow> (u64 \<times> u64) list \<Rightarrow> bool list \<Rightarrow> nat list \<Rightarrow> nat list outcome" where
  "count_votes [] votes voted result = Ret result"
| "count_votes (i # is) votes voted result =
     (if voted ! i then
        let c = unat (snd (votes ! i)) in
        if c < length result then count_votes is votes voted (result[c := result ! c + 1]) else Undef
      else count_votes is votes voted result)"

text \<open>\<open>leader\<close> and \<open>max_candidate\<close>; None stands for -1.\<close>

fun pick_leader :: "nat list \<Rightarrow> nat \<Rightarrow> nat list \<Rightarrow> nat option \<Rightarrow> nat option \<Rightarrow> nat option \<times> nat option" where
  "pick_leader [] master_count result leader max_candidate = (leader, max_candidate)"
| "pick_leader (i # is) master_count result leader max_candidate =
     pick_leader is master_count result
       (if result ! i \<ge> master_count div 2 + 1 then Some i else leader)
       (if result ! i \<noteq> 0 then Some i else max_candidate)"

text \<open>
  Where the thread is between two sleeps: at the head of the outer loop, or inside the inner
  loop with its vectors. The variable \<open>leader\<close> is None while it is -1.
\<close>

datatype sync_pc = Outer "nat option" | Inner "(u64 \<times> u64) list" "bool list"

definition masters :: "cluster \<Rightarrow> nat list" where
  "masters cl = [1..<Suc (unat (m_master_server_count cl))]"

text \<open>One turn of \<open>while (true)\<close> in the consensus state.\<close>

definition inner_turn ::
  "'w curl_ops \<Rightarrow> cluster \<Rightarrow> 'w self \<Rightarrow> (u64 \<times> u64) list \<Rightarrow> bool list \<Rightarrow> 'w \<Rightarrow> (sync_pc \<times> 'w) outcome" where
  "inner_turn C cl me votes voted w =
     (let me_vote = get_vote_ticket (peek me w);
          master_count = unat (m_master_server_count cl) in
      obind (collect C cl me me_vote (masters cl) votes voted w) (\<lambda>(votes', voted', w1).
      obind (count_votes (masters cl) votes' voted' (replicate (master_count + 1) 0)) (\<lambda>result.
      let (leader, max_candidate) = pick_leader (masters cl) master_count result None None in
      case max_candidate of
        None \<Rightarrow> Ret (Outer leader, w1)
      | Some candidate \<Rightarrow>
          (case leader of
             None \<Rightarrow> Ret (Inner votes' voted', poke me (set_vote (of_nat candidate) (peek me w1)) w1)
           | Some l \<Rightarrow>
               Ret (Outer leader, poke me
                 (set_status (if l \<noteq> unat (m_kbid cl) then K_status_follower else K_status_leader)
                   (set_leader (of_nat l) (peek me w1))) w1)))))"

text \<open>One turn of the thread. An unset \<open>leader\<close> has no configuration to look up.\<close>

definition sync_step ::
  "'w curl_ops \<Rightarrow> cluster \<Rightarrow> 'w self \<Rightarrow> sync_pc \<Rightarrow> 'w \<Rightarrow> (sync_pc \<times> 'w) outcome" where
  "sync_step C cl me pc w =
     (case pc of
        Inner votes voted \<Rightarrow> inner_turn C cl me votes voted w
      | Outer leader \<Rightarrow>
          (case get_status (peek me w) of
             K_status_leader \<Rightarrow> Ret (Outer leader, w)
           | K_status_follower \<Rightarrow>
               (let l = (case leader of None \<Rightarrow> - 1 | Some l \<Rightarrow> of_nat l) in
                obind (get_master_ip cl l) (\<lambda>ip.
                obind (get_master_sentinel_port cl l) (\<lambda>port.
                obind (follow_loop C ip port 0 [] w) (\<lambda>(retry, w1).
                Ret (Outer leader,
                  if retry = 3
                  then poke me ((peek me w1)\<lparr>m_status := K_status_consensus,
                         m_epoch := m_epoch (peek me w1) + 1, m_vote := ucast (m_kbid cl)\<rparr>) w1
                  else w1)))))
           | K_status_consensus \<Rightarrow>
               (let n = unat (m_master_server_count cl) + 1 in
                inner_turn C cl me (replicate n (0, 0)) (replicate n False)
                  (poke me (set_vote (ucast (m_kbid cl)) (peek me w)) w))))"

section \<open>The tally\<close>

text \<open>The candidate master \<open>i\<close> is recorded for.\<close>

definition ballots :: "(u64 \<times> u64) list \<Rightarrow> bool list \<Rightarrow> nat list \<Rightarrow> nat \<Rightarrow> nat" where
  "ballots votes voted is c = length (filter (\<lambda>i. voted ! i \<and> unat (snd (votes ! i)) = c) is)"

lemma count_votes_Ret:
  assumes "count_votes is votes voted r = Ret r'"
  shows "length r' = length r \<and> (\<forall>c < length r. r' ! c = r ! c + ballots votes voted is c)"
  using assms
proof (induction "is" arbitrary: r)
  case (Cons i "is")
  define c where "c = unat (snd (votes ! i))"
  show ?case
  proof (cases "voted ! i")
    case True
    then have "c < length r" "count_votes is votes voted (r[c := r ! c + 1]) = Ret r'"
      using Cons.prems by (auto simp: c_def Let_def split: if_splits)
    with Cons.IH [OF this(2)] True show ?thesis
      by (auto simp: ballots_def nth_list_update c_def)
  next
    case False
    then show ?thesis using Cons.IH [of r] Cons.prems by (simp add: ballots_def)
  qed
qed (simp add: ballots_def)

lemma count_votes_zero:
  assumes "count_votes is votes voted (replicate k 0) = Ret r'"
  shows "length r' = k \<and> (\<forall>c < k. r' ! c = ballots votes voted is c)"
  using count_votes_Ret [OF assms] by simp

lemma count_votes_returns:
  assumes "\<forall>i \<in> set is. voted ! i \<longrightarrow> unat (snd (votes ! i)) < length r"
  shows "\<exists>r'. count_votes is votes voted r = Ret r'"
  using assms by (induction "is" arbitrary: r) (auto simp: Let_def)

lemma ballots_disjoint:
  assumes "c \<noteq> d" shows "ballots votes voted is c + ballots votes voted is d \<le> length is"
  using assms by (induction "is") (auto simp: ballots_def)

lemma pick_leader_append:
  "pick_leader (xs @ [i]) n r l m =
    (if r ! i \<ge> n div 2 + 1 then Some i else fst (pick_leader xs n r l m),
     if r ! i \<noteq> 0 then Some i else snd (pick_leader xs n r l m))"
  by (induction xs arbitrary: l m) auto

lemma pick_leader_leader:
  "case fst (pick_leader xs n r None None) of
     Some l \<Rightarrow> l \<in> set xs \<and> n div 2 + 1 \<le> r ! l
   | None \<Rightarrow> \<forall>i \<in> set xs. r ! i < n div 2 + 1"
  by (induction xs rule: rev_induct) (auto simp: pick_leader_append split: option.splits)

lemma pick_leader_max:
  assumes "sorted xs"
  shows "case snd (pick_leader xs n r None None) of
     Some m \<Rightarrow> m \<in> set xs \<and> r ! m \<noteq> 0 \<and> (\<forall>i \<in> set xs. r ! i \<noteq> 0 \<longrightarrow> i \<le> m)
   | None \<Rightarrow> \<forall>i \<in> set xs. r ! i = 0"
  using assms
  by (induction xs rule: rev_induct)
    (auto simp: pick_leader_append sorted_append split: option.splits)

lemma masters_simps [simp]:
  "set (masters cl) = {1..unat (m_master_server_count cl)}" "sorted (masters cl)" "distinct (masters cl)"
  "length (masters cl) = unat (m_master_server_count cl)"
  unfolding masters_def by (auto simp del: upt_Suc)

text \<open>The master the counted table elects holds a majority of the ballots.\<close>

lemma elected_ballots:
  fixes cl :: cluster
  defines "n \<equiv> unat (m_master_server_count cl)"
  assumes "count_votes (masters cl) votes voted (replicate (n + 1) 0) = Ret result"
    and "fst (pick_leader (masters cl) n result None None) = Some l"
  shows "l \<in> set (masters cl)" and "n div 2 + 1 \<le> ballots votes voted (masters cl) l"
    and "snd (pick_leader (masters cl) n result None None) \<noteq> None"
proof -
  have l: "l \<in> set (masters cl)" "n div 2 + 1 \<le> result ! l"
    using pick_leader_leader [where xs = "masters cl" and n = n and r = result] assms(3) by auto
  then show "l \<in> set (masters cl)" by blast
  have "l < n + 1" using l(1) by (auto simp: n_def)
  then show "n div 2 + 1 \<le> ballots votes voted (masters cl) l"
    using count_votes_zero [OF assms(2)] l(2) by simp
  show "snd (pick_leader (masters cl) n result None None) \<noteq> None"
  proof
    assume "snd (pick_leader (masters cl) n result None None) = None"
    then have "\<forall>i \<in> set (masters cl). result ! i = 0"
      using pick_leader_max [where xs = "masters cl" and n = n and r = result] by simp
    then show False using l by simp
  qed
qed

lemma inner_turn_elects:
  assumes "inner_turn C cl me votes voted w = Ret (Outer (Some l), w')"
  shows "\<exists>votes' voted' w1. collect C cl me (get_vote_ticket (peek me w)) (masters cl) votes voted w
      = Ret (votes', voted', w1)
    \<and> l \<in> set (masters cl)
    \<and> length (masters cl) div 2 + 1 \<le> ballots votes' voted' (masters cl) l
    \<and> w' = poke me (set_status (if l \<noteq> unat (m_kbid cl) then K_status_follower else K_status_leader)
           (set_leader (of_nat l) (peek me w1))) w1"
proof -
  let ?n = "unat (m_master_server_count cl)"
  obtain votes' voted' w1 where
    c: "collect C cl me (get_vote_ticket (peek me w)) (masters cl) votes voted w = Ret (votes', voted', w1)"
    and rest: "obind (count_votes (masters cl) votes' voted' (replicate (?n + 1) 0)) (\<lambda>result.
      let (leader, max_candidate) = pick_leader (masters cl) ?n result None None in
      case max_candidate of
        None \<Rightarrow> Ret (Outer leader, w1)
      | Some candidate \<Rightarrow>
          (case leader of
             None \<Rightarrow> Ret (Inner votes' voted', poke me (set_vote (of_nat candidate) (peek me w1)) w1)
           | Some l \<Rightarrow>
               Ret (Outer leader, poke me
                 (set_status (if l \<noteq> unat (m_kbid cl) then K_status_follower else K_status_leader)
                   (set_leader (of_nat l) (peek me w1))) w1))) = Ret (Outer (Some l), w')"
    using assms unfolding inner_turn_def Let_def by (elim obind_RetE) (simp split: prod.splits)
  obtain result where r: "count_votes (masters cl) votes' voted' (replicate (?n + 1) 0) = Ret result"
    and rest2: "(let (leader, max_candidate) = pick_leader (masters cl) ?n result None None in
      case max_candidate of
        None \<Rightarrow> Ret (Outer leader, w1)
      | Some candidate \<Rightarrow>
          (case leader of
             None \<Rightarrow> Ret (Inner votes' voted', poke me (set_vote (of_nat candidate) (peek me w1)) w1)
           | Some l \<Rightarrow>
               Ret (Outer leader, poke me
                 (set_status (if l \<noteq> unat (m_kbid cl) then K_status_follower else K_status_leader)
                   (set_leader (of_nat l) (peek me w1))) w1))) = Ret (Outer (Some l), w')"
    using rest by (rule obind_RetE)
  have p: "fst (pick_leader (masters cl) ?n result None None) = Some l"
    and w': "snd (pick_leader (masters cl) ?n result None None) \<noteq> None \<Longrightarrow>
      w' = poke me (set_status (if l \<noteq> unat (m_kbid cl) then K_status_follower else K_status_leader)
           (set_leader (of_nat l) (peek me w1))) w1"
    using rest2 by (auto simp: Let_def split: prod.splits option.splits)
  show ?thesis
    using c w' elected_ballots [OF r p] by simp
qed

text \<open>
  C10: A master leaves the consensus state only for a leader that more than half of all
  configured masters were recorded as voting for; no other candidate can have that many
  votes in the same tally, and the master becomes leader itself exactly when it is the one
  elected, follower otherwise.
\<close>

theorem elected_by_majority:
  assumes "inner_turn C cl me votes voted w = Ret (Outer (Some l), w')"
  shows "\<exists>votes' voted' w1. collect C cl me (get_vote_ticket (peek me w)) (masters cl) votes voted w
      = Ret (votes', voted', w1)
    \<and> 1 \<le> l \<and> l \<le> unat (m_master_server_count cl)
    \<and> unat (m_master_server_count cl) < 2 * ballots votes' voted' (masters cl) l
    \<and> (\<forall>c. c \<noteq> l \<longrightarrow> 2 * ballots votes' voted' (masters cl) c < unat (m_master_server_count cl))
    \<and> w' = poke me ((peek me w1)\<lparr>m_leader := of_nat l,
        m_status := (if l = unat (m_kbid cl) then K_status_leader else K_status_follower)\<rparr>) w1"
proof -
  obtain votes' voted' w1 where x:
    "collect C cl me (get_vote_ticket (peek me w)) (masters cl) votes voted w = Ret (votes', voted', w1)"
    "l \<in> set (masters cl)" "length (masters cl) div 2 + 1 \<le> ballots votes' voted' (masters cl) l"
    "w' = poke me (set_status (if l \<noteq> unat (m_kbid cl) then K_status_follower else K_status_leader)
           (set_leader (of_nat l) (peek me w1))) w1"
    using inner_turn_elects [OF assms] by blast
  have "2 * ballots votes' voted' (masters cl) c < unat (m_master_server_count cl)" if "c \<noteq> l" for c
  proof -
    define n where "n = unat (m_master_server_count cl)"
    have "n div 2 + 1 \<le> ballots votes' voted' (masters cl) l"
      and "ballots votes' voted' (masters cl) c + ballots votes' voted' (masters cl) l \<le> n"
      using x(3) ballots_disjoint [OF that, of votes' voted' "masters cl"] by (simp_all add: n_def)
    then show ?thesis unfolding n_def [symmetric] by presburger
  qed
  moreover have "unat (m_master_server_count cl) < 2 * ballots votes' voted' (masters cl) l"
    using x(3) unfolding masters_simps by presburger
  ultimately show ?thesis
    using x by (auto simp: set_status_def set_leader_def)
qed

section \<open>Tickets\<close>

lemma vote_ticket: "get_vote_ticket s = ticket (m_epoch s) (m_vote s)"
  by (simp add: get_vote_ticket_def ticket_def)

lemma length_print_nat: "0 < k \<Longrightarrow> n < 10 ^ k \<Longrightarrow> length (print_nat n) \<le> k"
proof (induction k arbitrary: n)
  case (Suc k)
  show ?case
  proof (cases "n < 10")
    case True
    then show ?thesis by (simp add: print_nat.simps)
  next
    case False
    then have "0 < k" using Suc.prems by (cases k) auto
    moreover have "n div 10 < 10 ^ k" using Suc.prems by (simp add: less_mult_imp_div_less)
    ultimately have "length (print_nat (n div 10)) \<le> k" by (rule Suc.IH)
    then show ?thesis using False by (subst print_nat.simps) simp
  qed
qed simp

lemma length_print_u64: "length (print_u64 w) \<le> 20"
proof -
  have "unat w < 2 ^ 64" using unsigned_less [of w] by simp
  then have "unat w < 10 ^ 20" by (rule less_trans) simp
  then show ?thesis unfolding print_u64_def by (intro length_print_nat) simp_all
qed

lemma ticket_text:
  "nul \<notin> set (ticket e v)" "ticket e v \<noteq> []" "length (ticket e v) < 65536"
proof -
  show "nul \<notin> set (ticket e v)"
    by (auto simp: ticket_def print_u64_def dest!: print_nat_digits digit_not_special)
  show "ticket e v \<noteq> []" by (simp add: ticket_def)
  show "length (ticket e v) < 65536"
    using length_print_u64 [of e] length_print_u64 [of v] by (simp add: ticket_def)
qed

lemma scan_vote_ticket [simp]:
  "scan_llu2 (get_vote_ticket s) = Ret (Some (m_epoch s), Some (m_vote s))" "get_vote_ticket s \<noteq> []"
  by (simp_all add: vote_ticket scan_ticket ticket_text)

lemma vote_handler_ticket:
  "get_sentinel_vote_handler kbid \<lparr>find_header = h, input_buffer = ticket e v\<rparr> s =
    (let s' = (if m_epoch s < e
               then s\<lparr>m_epoch := e, m_vote := ucast kbid, m_status := K_status_consensus\<rparr> else s)
     in Ret (Reply_ok (ticket (m_epoch s') (m_vote s')), s'))"
  using ticket_text
  by (simp add: get_sentinel_vote_handler_def server_get_postdata_def k_server_max_post_data_size_def
      scan_ticket sentinel_ops vote_ticket server_send_reply_ok_def)

text \<open>
  The vote exchange: asked with a readable ticket, a master answers with its own ticket,
  which reads back as its epoch and vote after the request. Its epoch never decreases; it
  moves exactly when the asker's epoch is larger, and then to that epoch, voting for itself in
  the consensus state. Status and leader are untouched otherwise.
\<close>

theorem vote_exchange:
  "\<exists>s'. get_sentinel_vote_handler kbid \<lparr>find_header = h, input_buffer = get_vote_ticket asker\<rparr> s
      = Ret (Reply_ok (get_vote_ticket s'), s')
    \<and> scan_llu2 (get_vote_ticket s') = Ret (Some (m_epoch s'), Some (m_vote s'))
    \<and> m_epoch s' = max (m_epoch s) (m_epoch asker)
    \<and> s' = (if m_epoch s < m_epoch asker
            then s\<lparr>m_epoch := m_epoch asker, m_vote := ucast kbid, m_status := K_status_consensus\<rparr>
            else s)"
  by (auto simp: vote_handler_ticket vote_ticket scan_ticket Let_def max_def not_less)

section \<open>A connected cluster of masters\<close>

text \<open>
  The masters as the world, each answering with the two handlers; \<open>node\<close> tells which master
  is reached at a URL.
\<close>

definition sentinel_net :: "(string \<Rightarrow> u32 option) \<Rightarrow> (u32 \<Rightarrow> sentinel) curl_ops" where
  "sentinel_net node = net_of (\<lambda>url data w.
     case node url of
       None \<Rightarrow> (None, w)
     | Some j \<Rightarrow>
         (case data of
            None \<Rightarrow> (Some (body_of (get_sentinel_status_handler (w j))), w)
          | Some d \<Rightarrow>
              (case get_sentinel_vote_handler j \<lparr>find_header = (\<lambda>_. None), input_buffer = d\<rparr> (w j) of
                 Ret (reply, s') \<Rightarrow> (Some (body_of reply), w(j := s'))
               | _ \<Rightarrow> (None, w))))"

definition self_of :: "u32 \<Rightarrow> (u32 \<Rightarrow> sentinel) self" where
  "self_of i = \<lparr>peek = (\<lambda>w. w i), poke = (\<lambda>s w. w(i := s))\<rparr>"

lemma self_of_simps [simp]: "peek (self_of i) w = w i" "poke (self_of i) s w = w(i := s)"
  by (simp_all add: self_of_def)

definition connected :: "cluster \<Rightarrow> (string \<Rightarrow> u32 option) \<Rightarrow> bool" where
  "connected cl node \<longleftrightarrow>
     0 < unat (m_master_server_count cl) \<and> unat (m_master_server_count cl) < 2 ^ 32 - 1 \<and>
     (\<forall>i \<in> set (masters cl). \<exists>ip port.
        get_master_ip cl (of_nat i) = Ret ip \<and> get_master_sentinel_port cl (of_nat i) = Ret port \<and>
        (\<forall>uri \<in> {''/GetVote'', ''/GetStatus''}.
           length (http_url ip port uri) < 1024 \<and> node (http_url ip port uri) = Some (of_nat i)))"

lemma connected_lookup:
  assumes "connected cl node" and "i \<in> set (masters cl)"
  obtains ip port where "get_master_ip cl (of_nat i) = Ret ip" "get_master_sentinel_port cl (of_nat i) = Ret port"
    "length (http_url ip port ''/GetVote'') < 1024" "node (http_url ip port ''/GetVote'') = Some (of_nat i)"
    "length (http_url ip port ''/GetStatus'') < 1024" "node (http_url ip port ''/GetStatus'') = Some (of_nat i)"
proof -
  have "\<exists>ip port. get_master_ip cl (of_nat i) = Ret ip \<and> get_master_sentinel_port cl (of_nat i) = Ret port \<and>
        (\<forall>uri \<in> {''/GetVote'', ''/GetStatus''}.
           length (http_url ip port uri) < 1024 \<and> node (http_url ip port uri) = Some (of_nat i))"
    using assms unfolding connected_def by blast
  then show ?thesis using that by auto
qed

text \<open>Majorities.\<close>

lemma majority_iff: "(n :: nat) < 2 * c \<longleftrightarrow> n div 2 + 1 \<le> c"
  by presburger

lemma majorities_meet: "(n :: nat) < 2 * a \<Longrightarrow> n < 2 * b \<Longrightarrow> a + b \<le> n \<Longrightarrow> False"
  by presburger

lemma master_id:
  assumes "connected cl node" and "i \<in> set (masters cl)"
  shows "unat (of_nat i :: u32) = i" and "(of_nat i :: u32) \<noteq> 0" and "unat (of_nat i :: u64) = i"
proof -
  have "i < 2 ^ 32" "0 < i" using assms by (auto simp: connected_def)
  then show u: "unat (of_nat i :: u32) = i" by (simp add: unat_of_nat)
  show "(of_nat i :: u32) \<noteq> 0" using u \<open>0 < i\<close> by (metis unat_0 less_irrefl)
  have "i < 2 ^ 64" using \<open>i < 2 ^ 32\<close> by simp
  then show "unat (of_nat i :: u64) = i" by (simp add: unat_of_nat)
qed

lemma connected_kbid [simp]:
  "connected (cl\<lparr>m_kbid := k\<rparr>) node = connected cl node" "masters (cl\<lparr>m_kbid := k\<rparr>) = masters cl"
proof -
  have m: "masters (cl\<lparr>m_kbid := k\<rparr>) = masters cl" by (simp add: masters_def)
  have "(of_nat i :: u32) \<noteq> 0" if "unat (m_master_server_count cl) < 2 ^ 32 - 1" "i \<in> set (masters cl)" for i
  proof -
    have "unat (of_nat i :: u32) = i" "0 < i" using that by (auto simp: unat_of_nat)
    then show ?thesis by (metis unat_0 less_irrefl)
  qed
  then show "connected (cl\<lparr>m_kbid := k\<rparr>) node = connected cl node"
    by (auto simp: connected_def m get_master_ip_def get_master_sentinel_port_def own_def)
  show "masters (cl\<lparr>m_kbid := k\<rparr>) = masters cl" by (rule m)
qed

lemma post_vote:
  assumes "node (http_url ip port uri) = Some j" and "length (http_url ip port uri) < 1024"
    and "m_epoch asker \<le> m_epoch (w j)"
  shows "make_request_post (sentinel_net node) ip port uri [] (get_vote_ticket asker) w
    = Ret (True, get_vote_ticket (w j), w)"
proof -
  have "\<not> m_epoch (w j) < m_epoch asker" using assms(3) by (rule leD)
  then show ?thesis
    using assms(1,2)
    by (simp add: sentinel_net_def net_of_post vote_ticket ticket_text vote_handler_ticket Let_def)
qed

text \<open>All masters are in the epoch \<open>e\<close> and vote for masters.\<close>

definition one_epoch :: "cluster \<Rightarrow> u64 \<Rightarrow> (u32 \<Rightarrow> sentinel) \<Rightarrow> bool" where
  "one_epoch cl e w \<longleftrightarrow>
     (\<forall>i \<in> set (masters cl). m_epoch (w (of_nat i)) = e \<and> unat (m_vote (w (of_nat i))) \<in> set (masters cl))"

definition support :: "cluster \<Rightarrow> (u32 \<Rightarrow> sentinel) \<Rightarrow> nat \<Rightarrow> nat" where
  "support cl w c = length (filter (\<lambda>i. unat (m_vote (w (of_nat i))) = c) (masters cl))"

definition candidates :: "cluster \<Rightarrow> (u32 \<Rightarrow> sentinel) \<Rightarrow> nat set" where
  "candidates cl w = (\<lambda>i. unat (m_vote (w (of_nat i)))) ` set (masters cl)"

lemma collect_connected:
  assumes "connected cl node" and "one_epoch cl e w" and "m_epoch asker = e"
    and "m_epoch (w j) = e" and "set is \<subseteq> set (masters cl)"
  shows "collect (sentinel_net node) cl (self_of j) (get_vote_ticket asker) is votes voted w
    = Ret (fold (\<lambda>i vs. vs[i := (e, m_vote (w (of_nat i)))]) is votes,
           fold (\<lambda>i vs. vs[i := True]) is voted, w)"
  using assms(5)
proof (induction "is" arbitrary: votes voted)
  case (Cons i "is")
  have i: "i \<in> set (masters cl)" using Cons.prems by simp
  obtain ip port where "get_master_ip cl (of_nat i) = Ret ip" "get_master_sentinel_port cl (of_nat i) = Ret port"
    "length (http_url ip port ''/GetVote'') < 1024" "node (http_url ip port ''/GetVote'') = Some (of_nat i)"
    by (rule connected_lookup [OF assms(1) i])
  moreover have "m_epoch (w (of_nat i)) = e" using assms(2) i unfolding one_epoch_def by blast
  moreover from this have "m_epoch asker \<le> m_epoch (w (of_nat i))" using assms(3) by simp
  ultimately show ?case
    using Cons assms(3,4) by (simp add: post_vote check_response_def)
qed simp

lemma fold_update:
  assumes "i < length xs"
  shows "fold (\<lambda>j vs. vs[j := g j]) is xs ! i = (if i \<in> set is then g i else xs ! i)"
    and "length (fold (\<lambda>j vs. vs[j := g j]) is xs) = length xs"
  using assms by (induction "is" arbitrary: xs) (auto simp: nth_list_update)

lemma support_card: "support cl w c = card {i \<in> set (masters cl). unat (m_vote (w (of_nat i))) = c}"
proof -
  have "distinct (filter (\<lambda>i. unat (m_vote (w (of_nat i))) = c) (masters cl))" by simp
  from distinct_card [OF this] show ?thesis by (simp add: support_def)
qed

lemma candidates_finite: "finite (candidates cl w)" "connected cl node \<Longrightarrow> candidates cl w \<noteq> {}"
  by (auto simp: candidates_def connected_def)

lemma support_pos: "support cl w c \<noteq> 0 \<longleftrightarrow> c \<in> candidates cl w"
  by (auto simp: support_def candidates_def filter_empty_conv)

text \<open>What a pass in a connected cluster collects and counts: the current votes.\<close>

lemma connected_tally:
  assumes "connected cl node" and "k \<in> set (masters cl)" and "one_epoch cl e w"
    and "length votes = unat (m_master_server_count cl) + 1" and "length voted = unat (m_master_server_count cl) + 1"
  obtains votes' voted' r where "length votes' = length votes" "length voted' = length voted"
    "collect (sentinel_net node) cl (self_of (of_nat k)) (get_vote_ticket (w (of_nat k))) (masters cl) votes voted w
      = Ret (votes', voted', w)"
    "count_votes (masters cl) votes' voted' (replicate (unat (m_master_server_count cl) + 1) 0) = Ret r"
    "\<And>c. c \<in> set (masters cl) \<Longrightarrow> r ! c = support cl w c"
proof -
  define votes' where "votes' = fold (\<lambda>i vs. vs[i := (e, m_vote (w (of_nat i)))]) (masters cl) votes"
  define voted' where "voted' = fold (\<lambda>i vs. vs[i := True]) (masters cl) voted"
  have epoch: "m_epoch (w (of_nat k)) = e" using assms(2,3) by (auto simp: one_epoch_def)
  have nth: "voted' ! i \<and> snd (votes' ! i) = m_vote (w (of_nat i))" if "i \<in> set (masters cl)" for i
    using that assms(4,5) by (simp add: votes'_def voted'_def fold_update)
  have bal: "ballots votes' voted' (masters cl) c = support cl w c" for c
    unfolding ballots_def support_def using nth by (intro arg_cong [of _ _ length] filter_cong) auto
  have "\<exists>r. count_votes (masters cl) votes' voted' (replicate (unat (m_master_server_count cl) + 1) 0) = Ret r"
    using nth assms(3) by (intro count_votes_returns) (auto simp: one_epoch_def)
  then obtain r where r: "count_votes (masters cl) votes' voted' (replicate (unat (m_master_server_count cl) + 1) 0) = Ret r"
    by blast
  show ?thesis
  proof (rule that [OF _ _ _ r])
    show "length votes' = length votes" "length voted' = length voted"
      using assms(4,5) by (simp_all add: votes'_def voted'_def fold_update(2) [of 0])
    show "collect (sentinel_net node) cl (self_of (of_nat k)) (get_vote_ticket (w (of_nat k))) (masters cl) votes voted w
        = Ret (votes', voted', w)"
      using collect_connected [OF assms(1,3) epoch epoch] by (simp add: votes'_def voted'_def)
    show "r ! c = support cl w c" if "c \<in> set (masters cl)" for c
      using count_votes_zero [OF r] that by (auto simp: bal)
  qed
qed

lemma candidates_subset: "one_epoch cl e w \<Longrightarrow> candidates cl w \<subseteq> set (masters cl)"
  unfolding candidates_def one_epoch_def by blast

lemma support_unique:
  assumes "unat (m_master_server_count cl) < 2 * support cl w l" and "unat (m_master_server_count cl) < 2 * support cl w l'"
  shows "l = l'"
proof (rule ccontr)
  assume "l \<noteq> l'"
  let ?vs = "map (\<lambda>i. (0, m_vote (w (of_nat i)))) [0..<unat (m_master_server_count cl) + 1]"
    and ?ok = "replicate (unat (m_master_server_count cl) + 1) True"
  have bal: "ballots ?vs ?ok (masters cl) c = support cl w c" for c
    unfolding ballots_def support_def by (intro arg_cong [of _ _ length] filter_cong) (auto simp del: upt_Suc)
  from ballots_disjoint [OF \<open>l \<noteq> l'\<close>, of ?vs ?ok "masters cl"]
  have "support cl w l + support cl w l' \<le> unat (m_master_server_count cl)" unfolding bal by simp
  then show False by (rule majorities_meet [OF assms])
qed

text \<open>What the tally then picks.\<close>

lemma pick_support:
  assumes "connected cl node" and "one_epoch cl e w" and "\<And>c. c \<in> set (masters cl) \<Longrightarrow> r ! c = support cl w c"
    and "pick_leader (masters cl) (unat (m_master_server_count cl)) r None None = (ld, mx)"
  shows "mx = Some (Max (candidates cl w))"
    and "case ld of
        None \<Rightarrow> \<forall>l. 2 * support cl w l \<le> unat (m_master_server_count cl)
      | Some l \<Rightarrow> unat (m_master_server_count cl) < 2 * support cl w l"
proof -
  let ?n = "unat (m_master_server_count cl)"
  note cand = candidates_subset [OF assms(2)]
  have nz: "r ! c \<noteq> 0 \<longleftrightarrow> c \<in> candidates cl w" if "c \<in> set (masters cl)" for c
    using assms(3) [OF that] support_pos by simp
  note mp = pick_leader_max [where xs = "masters cl" and n = ?n and r = r, unfolded assms(4) snd_conv]
  have "mx \<noteq> None"
    using mp nz cand candidates_finite(2) [OF assms(1), of w] by auto
  then obtain m where m: "mx = Some m" by blast
  have "Max (candidates cl w) = m"
    using mp nz cand by (intro Max_eqI [OF candidates_finite(1)]) (auto simp: m)
  then show "mx = Some (Max (candidates cl w))" by (simp add: m)
  note lp = pick_leader_leader [where xs = "masters cl" and n = ?n and r = r, unfolded assms(4) fst_conv]
  have zero: "support cl w l = 0" if "l \<notin> set (masters cl)" for l
    using cand support_pos [of cl w l] that by blast
  show "case ld of None \<Rightarrow> \<forall>l. 2 * support cl w l \<le> ?n | Some l \<Rightarrow> ?n < 2 * support cl w l"
  proof (cases ld)
    case None
    have "2 * support cl w l \<le> ?n" for l
    proof (cases "l \<in> set (masters cl)")
      case True
      then have "r ! l < ?n div 2 + 1" using lp None by auto
      then have "\<not> ?n div 2 + 1 \<le> support cl w l" using assms(3) [OF True] by simp
      then show ?thesis using majority_iff [of ?n "support cl w l"] by linarith
    qed (use zero in simp)
    then show ?thesis using None by simp
  next
    case (Some l)
    then show ?thesis using lp assms(3) majority_iff [of ?n "support cl w l"] by auto
  qed
qed

text \<open>
  One turn of a master among masters of its epoch: it elects the candidate with more than half
  of the votes, or follows the largest candidate.
\<close>

lemma connected_turn:
  assumes "connected cl node" and "m_kbid cl = of_nat k" and "k \<in> set (masters cl)"
    and "one_epoch cl e w" and "length votes = unat (m_master_server_count cl) + 1"
    and "length voted = unat (m_master_server_count cl) + 1"
  shows "(\<forall>l. unat (m_master_server_count cl) < 2 * support cl w l \<longrightarrow>
      inner_turn (sentinel_net node) cl (self_of (of_nat k)) votes voted w
        = Ret (Outer (Some l), w(of_nat k := (w (of_nat k))\<lparr>m_leader := of_nat l,
            m_status := (if l = k then K_status_leader else K_status_follower)\<rparr>)))
    \<and> ((\<forall>l. 2 * support cl w l \<le> unat (m_master_server_count cl)) \<longrightarrow>
      (\<exists>votes' voted'. length votes' = length votes \<and> length voted' = length voted \<and>
        inner_turn (sentinel_net node) cl (self_of (of_nat k)) votes voted w
          = Ret (Inner votes' voted', w(of_nat k := (w (of_nat k))
              \<lparr>m_vote := of_nat (Max (candidates cl w))\<rparr>))))"
proof -
  let ?n = "unat (m_master_server_count cl)" and ?C = "sentinel_net node"
  obtain votes' voted' r where t: "length votes' = length votes" "length voted' = length voted"
    "collect ?C cl (self_of (of_nat k)) (get_vote_ticket (w (of_nat k))) (masters cl) votes voted w = Ret (votes', voted', w)"
    "count_votes (masters cl) votes' voted' (replicate (?n + 1) 0) = Ret r"
    "\<And>c. c \<in> set (masters cl) \<Longrightarrow> r ! c = support cl w c"
    using connected_tally [OF assms(1,3-6)] by blast
  obtain ld mx where pick: "pick_leader (masters cl) ?n r None None = (ld, mx)" by fastforce
  note ps = pick_support [OF assms(1,4) t(5) pick]
  have run: "inner_turn ?C cl (self_of (of_nat k)) votes voted w =
      (case ld of
         None \<Rightarrow> Ret (Inner votes' voted', w(of_nat k := (w (of_nat k))\<lparr>m_vote := of_nat (Max (candidates cl w))\<rparr>))
       | Some l \<Rightarrow> Ret (Outer (Some l), w(of_nat k := (w (of_nat k))\<lparr>m_leader := of_nat l,
            m_status := (if l = k then K_status_leader else K_status_follower)\<rparr>)))"
    using t(4) pick ps(1) master_id(1) [OF assms(1,3)] assms(2)
    by (simp add: inner_turn_def t(3) sentinel_ops del: replicate.simps split: option.splits)
  show ?thesis
  proof (cases ld)
    case None
    then have "\<forall>l. 2 * support cl w l \<le> ?n" using ps(2) by simp
    then show ?thesis using run None t(1,2) by (auto simp: not_less [symmetric])
  next
    case (Some l)
    then have lt: "?n < 2 * support cl w l" using ps(2) by simp
    then have "\<not> (\<forall>l. 2 * support cl w l \<le> ?n)" using not_le by blast
    moreover have "l' = l" if "?n < 2 * support cl w l'" for l' using support_unique [OF that lt] .
    ultimately show ?thesis using run Some by auto
  qed
qed

section \<open>The abstract election\<close>

text \<open>
  What a turn means, on the votes \<open>V\<close> of the masters \<open>1..n\<close>: take the candidate with more than
  half of the votes if there is one, otherwise follow the largest candidate.
\<close>

definition majority_of :: "nat \<Rightarrow> (nat \<Rightarrow> nat) \<Rightarrow> nat option" where
  "majority_of n V = List.find (\<lambda>l. n < 2 * length (filter (\<lambda>i. V i = l) [1..<Suc n])) [1..<Suc n]"

definition spec_turn :: "nat \<Rightarrow> (nat \<Rightarrow> nat) \<Rightarrow> nat \<Rightarrow> nat option \<times> (nat \<Rightarrow> nat)" where
  "spec_turn n V k =
     (case majority_of n V of
        Some l \<Rightarrow> (Some l, V)
      | None \<Rightarrow> (None, V(k := Max (V ` {1..n}))))"

definition votes_of :: "cluster \<Rightarrow> (u32 \<Rightarrow> sentinel) \<Rightarrow> nat \<Rightarrow> nat" where
  "votes_of cl w i = (if i \<in> set (masters cl) then unat (m_vote (w (of_nat i))) else 0)"

lemma candidates_masters:
  assumes "connected cl node" and "one_epoch cl e w"
  shows "Max (candidates cl w) \<in> set (masters cl)" and "Max (candidates cl w) \<in> candidates cl w"
    and "unat (of_nat (Max (candidates cl w)) :: u64) = Max (candidates cl w)"
proof -
  show m: "Max (candidates cl w) \<in> candidates cl w"
    using candidates_finite(1) candidates_finite(2) [OF assms(1)] by (rule Max_in)
  moreover have "candidates cl w \<subseteq> set (masters cl)"
    using assms(2) unfolding candidates_def one_epoch_def by blast
  ultimately show c: "Max (candidates cl w) \<in> set (masters cl)" by blast
  show "unat (of_nat (Max (candidates cl w)) :: u64) = Max (candidates cl w)"
    by (rule master_id(3) [OF assms(1) c])
qed

lemma majority_of_support:
  assumes "connected cl node" and "one_epoch cl e w"
  shows "majority_of (unat (m_master_server_count cl)) (votes_of cl w) = Some l
      \<Longrightarrow> unat (m_master_server_count cl) < 2 * support cl w l"
    and "majority_of (unat (m_master_server_count cl)) (votes_of cl w) = None
      \<Longrightarrow> 2 * support cl w l \<le> unat (m_master_server_count cl)"
proof -
  let ?n = "unat (m_master_server_count cl)"
  have f: "length (filter (\<lambda>i. votes_of cl w i = c) [1..<Suc ?n]) = support cl w c" for c
    unfolding support_def masters_def [symmetric]
    by (intro arg_cong [of _ _ length] filter_cong) (auto simp: votes_of_def)
  have find: "majority_of ?n (votes_of cl w) = List.find (\<lambda>l. ?n < 2 * support cl w l) (masters cl)"
    by (simp only: majority_of_def f masters_def)
  show "majority_of ?n (votes_of cl w) = Some l \<Longrightarrow> ?n < 2 * support cl w l"
    unfolding find by (auto simp: find_Some_iff)
  show "2 * support cl w l \<le> ?n" if "majority_of ?n (votes_of cl w) = None"
  proof (cases "l \<in> set (masters cl)")
    case True
    then show ?thesis using that unfolding find find_None_iff by (metis not_le)
  next
    case False
    then have "l \<notin> candidates cl w"
      using assms(2) unfolding candidates_def one_epoch_def by blast
    then have "support cl w l = 0" using support_pos by blast
    then show ?thesis by simp
  qed
qed

lemma one_epoch_upd:
  "one_epoch cl e w \<Longrightarrow> m_epoch s = e \<Longrightarrow> unat (m_vote s) \<in> set (masters cl)
    \<Longrightarrow> one_epoch cl e (w(j := s))"
  unfolding one_epoch_def by simp

lemma one_epoch_at:
  "one_epoch cl e w \<Longrightarrow> k \<in> set (masters cl) \<Longrightarrow> m_epoch (w (of_nat k)) = e"
  "one_epoch cl e w \<Longrightarrow> k \<in> set (masters cl) \<Longrightarrow> unat (m_vote (w (of_nat k))) \<in> set (masters cl)"
  unfolding one_epoch_def by blast+

text \<open>
  C6: When every master can be reached and all are in one epoch, a turn of the election loop
  refines the abstract election: it leaves the loop exactly with the abstract majority
  leader, and the votes of all masters are afterwards the abstract ones.
\<close>

theorem election_refines:
  assumes "connected cl node" and "m_kbid cl = of_nat k" and "k \<in> set (masters cl)"
    and "one_epoch cl e w" and "length votes = unat (m_master_server_count cl) + 1"
    and "length voted = unat (m_master_server_count cl) + 1"
  shows "\<exists>pc w'. inner_turn (sentinel_net node) cl (self_of (of_nat k)) votes voted w = Ret (pc, w')
    \<and> (case spec_turn (unat (m_master_server_count cl)) (votes_of cl w) k of (leader, V') \<Rightarrow>
         votes_of cl w' = V' \<and> (\<forall>l. pc = Outer (Some l) \<longleftrightarrow> leader = Some l))
    \<and> one_epoch cl e w'"
proof -
  let ?n = "unat (m_master_server_count cl)"
  note turn = connected_turn [OF assms]
  have same: "(of_nat i :: u32) = of_nat k \<longleftrightarrow> i = k" if "i \<in> set (masters cl)" for i
    using master_id(1) [OF assms(1) that] master_id(1) [OF assms(1,3)] by metis
  show ?thesis
  proof (cases "majority_of ?n (votes_of cl w)")
    case (Some l)
    let ?s = "(w (of_nat k))\<lparr>m_leader := of_nat l,
        m_status := (if l = k then K_status_leader else K_status_follower)\<rparr>"
    have "inner_turn (sentinel_net node) cl (self_of (of_nat k)) votes voted w
        = Ret (Outer (Some l), w(of_nat k := ?s))"
      using turn majority_of_support(1) [OF assms(1,4) Some] by blast
    moreover have "votes_of cl (w(of_nat k := ?s)) = votes_of cl w"
      by (rule ext) (simp add: votes_of_def)
    moreover have "one_epoch cl e (w(of_nat k := ?s))"
      using one_epoch_at [OF assms(4,3)] by (intro one_epoch_upd [OF assms(4)]) (simp_all del: masters_simps(1))
    ultimately show ?thesis using Some by (auto simp: spec_turn_def)
  next
    case None
    let ?m = "Max (candidates cl w)"
    let ?w = "w(of_nat k := (w (of_nat k))\<lparr>m_vote := of_nat ?m\<rparr>)"
    note cm = candidates_masters [OF assms(1,4)]
    obtain votes' voted' where
      "inner_turn (sentinel_net node) cl (self_of (of_nat k)) votes voted w = Ret (Inner votes' voted', ?w)"
      using turn majority_of_support(2) [OF assms(1,4) None] by blast
    moreover have "candidates cl w = votes_of cl w ` {1..?n}"
      by (auto simp: candidates_def votes_of_def)
    moreover from this have "votes_of cl ?w = (votes_of cl w)(k := Max (votes_of cl w ` {1..?n}))"
      using cm(3) assms(3) same by (intro ext) (auto simp: votes_of_def)
    moreover have "one_epoch cl e ?w"
      using one_epoch_at [OF assms(4,3)] cm(1,3)
      by (intro one_epoch_upd [OF assms(4)]) (simp_all del: masters_simps(1))
    ultimately show ?thesis using None by (auto simp: spec_turn_def)
  qed
qed

section \<open>Convergence\<close>

text \<open>Turns of several masters, one after the other, each with its own place in the loop.\<close>

fun run_turns ::
  "(u32 \<Rightarrow> sentinel) curl_ops \<Rightarrow> cluster \<Rightarrow> nat list \<Rightarrow> (nat \<Rightarrow> sync_pc) \<Rightarrow> (u32 \<Rightarrow> sentinel)
     \<Rightarrow> ((nat \<Rightarrow> sync_pc) \<times> (u32 \<Rightarrow> sentinel)) outcome" where
  "run_turns C cl [] pcs w = Ret (pcs, w)"
| "run_turns C cl (i # is) pcs w =
     obind (sync_step C (cl\<lparr>m_kbid := of_nat i\<rparr>) (self_of (of_nat i)) (pcs i) w)
       (\<lambda>(pc, w'). run_turns C cl is (pcs(i := pc)) w')"

lemma run_turns_append:
  "run_turns C cl (xs @ ys) pcs w = obind (run_turns C cl xs pcs w) (\<lambda>(p, v). run_turns C cl ys p v)"
  by (induction xs arbitrary: pcs w) (simp_all add: obind_assoc case_prod_beta')

definition waiting :: "cluster \<Rightarrow> sync_pc \<Rightarrow> bool" where
  "waiting cl pc \<longleftrightarrow> (case pc of
     Inner votes voted \<Rightarrow> length votes = unat (m_master_server_count cl) + 1
       \<and> length voted = unat (m_master_server_count cl) + 1
   | Outer _ \<Rightarrow> False)"

definition has_elected :: "nat \<Rightarrow> nat \<Rightarrow> sync_pc \<Rightarrow> sentinel \<Rightarrow> bool" where
  "has_elected l i pc s \<longleftrightarrow> pc = Outer (Some l) \<and> m_leader s = of_nat l
     \<and> m_status s = (if l = i then K_status_leader else K_status_follower)"

lemma kbid_irrelevant [simp]:
  "one_epoch (cl\<lparr>m_kbid := k\<rparr>) e w = one_epoch cl e w"
  "support (cl\<lparr>m_kbid := k\<rparr>) w c = support cl w c"
  "candidates (cl\<lparr>m_kbid := k\<rparr>) w = candidates cl w"
  unfolding one_epoch_def support_def candidates_def by simp_all

lemma support_cong:
  assumes "\<And>i. i \<in> set (masters cl) \<Longrightarrow> m_vote (w' (of_nat i)) = m_vote (w (of_nat i))"
  shows "support cl w' c = support cl w c"
  unfolding support_def using assms by (intro arg_cong [of _ _ length] filter_cong) simp_all

text \<open>A turn when the votes are decided.\<close>

lemma decided_turn:
  assumes "connected cl node" and "one_epoch cl e w" and "i \<in> set (masters cl)"
    and "unat (m_master_server_count cl) < 2 * support cl w l"
    and "waiting cl pc \<or> has_elected l i pc (w (of_nat i))"
  shows "\<exists>s. sync_step (sentinel_net node) (cl\<lparr>m_kbid := of_nat i\<rparr>) (self_of (of_nat i)) pc w
      = Ret (Outer (Some l), w(of_nat i := s))
    \<and> m_vote s = m_vote (w (of_nat i)) \<and> m_epoch s = m_epoch (w (of_nat i))
    \<and> has_elected l i (Outer (Some l)) s"
  using assms(5)
proof
  assume "waiting cl pc"
  then obtain votes voted where pc: "pc = Inner votes voted"
    "length votes = unat (m_master_server_count cl) + 1" "length voted = unat (m_master_server_count cl) + 1"
    by (auto simp: waiting_def split: sync_pc.splits)
  have "inner_turn (sentinel_net node) (cl\<lparr>m_kbid := of_nat i\<rparr>) (self_of (of_nat i)) votes voted w
      = Ret (Outer (Some l), w(of_nat i := (w (of_nat i))\<lparr>m_leader := of_nat l,
            m_status := (if l = i then K_status_leader else K_status_follower)\<rparr>))"
    using connected_turn [of "cl\<lparr>m_kbid := of_nat i\<rparr>" node i e w votes voted] assms(1-4) pc(2,3)
    by simp
  then show ?thesis
    by (intro exI [of _ "(w (of_nat i))\<lparr>m_leader := of_nat l,
            m_status := (if l = i then K_status_leader else K_status_follower)\<rparr>"])
      (simp add: sync_step_def pc(1) has_elected_def)
next
  assume el: "has_elected l i pc (w (of_nat i))"
  have l: "l \<in> set (masters cl)"
  proof -
    have "support cl w l \<noteq> 0" using assms(4) by (cases "support cl w l") simp_all
    then have "l \<in> candidates cl w" using support_pos by blast
    then show ?thesis using candidates_subset [OF assms(2)] by blast
  qed
  obtain ip port where cfg: "get_master_ip cl (of_nat l) = Ret ip" "get_master_sentinel_port cl (of_nat l) = Ret port"
    "length (http_url ip port ''/GetStatus'') < 1024" "node (http_url ip port ''/GetStatus'') = Some (of_nat l)"
    by (rule connected_lookup [OF assms(1) l])
  have "make_request_get (sentinel_net node) ip port ''/GetStatus'' [] w
      = Ret (True, body_of (get_sentinel_status_handler (w (of_nat l))), w)"
    by (simp add: sentinel_net_def net_of_get cfg)
  then have "follow_loop (sentinel_net node) ip port 0 [] w = Ret (0, w)"
    by (simp add: follow_loop.simps)
  then have "sync_step (sentinel_net node) (cl\<lparr>m_kbid := of_nat i\<rparr>) (self_of (of_nat i)) pc w
      = Ret (Outer (Some l), w)"
    using el cfg(1,2) master_id(2) [OF assms(1) l]
    by (simp add: has_elected_def sync_step_def get_status_def get_master_ip_def own_def
        get_master_sentinel_port_def)
  then show ?thesis
    using el by (intro exI [of _ "w (of_nat i)"]) (simp add: has_elected_def)
qed

definition settled :: "cluster \<Rightarrow> u64 \<Rightarrow> nat \<Rightarrow> (nat \<Rightarrow> sync_pc) \<Rightarrow> (u32 \<Rightarrow> sentinel) \<Rightarrow> bool" where
  "settled cl e l pcs w \<longleftrightarrow> one_epoch cl e w \<and> unat (m_master_server_count cl) < 2 * support cl w l
     \<and> (\<forall>i \<in> set (masters cl). waiting cl (pcs i) \<or> has_elected l i (pcs i) (w (of_nat i)))"

lemma settled_run:
  assumes "connected cl node" and "settled cl e l pcs w" and "set is \<subseteq> set (masters cl)"
  shows "\<exists>pcs' w'. run_turns (sentinel_net node) cl is pcs w = Ret (pcs', w') \<and> settled cl e l pcs' w'
    \<and> (\<forall>i \<in> set (masters cl). i \<in> set is \<or> has_elected l i (pcs i) (w (of_nat i))
         \<longrightarrow> has_elected l i (pcs' i) (w' (of_nat i)))"
  using assms(2,3)
proof (induction "is" arbitrary: pcs w)
  case (Cons i "is")
  have i: "i \<in> set (masters cl)" and "is": "set is \<subseteq> set (masters cl)" using Cons.prems(2) by simp_all
  have st: "one_epoch cl e w" "unat (m_master_server_count cl) < 2 * support cl w l"
    "waiting cl (pcs i) \<or> has_elected l i (pcs i) (w (of_nat i))"
    using Cons.prems(1) i unfolding settled_def by blast+
  obtain s where step: "sync_step (sentinel_net node) (cl\<lparr>m_kbid := of_nat i\<rparr>) (self_of (of_nat i)) (pcs i) w
      = Ret (Outer (Some l), w(of_nat i := s))"
    and s: "m_vote s = m_vote (w (of_nat i))" "m_epoch s = m_epoch (w (of_nat i))"
      "has_elected l i (Outer (Some l)) s"
    using decided_turn [OF assms(1) st(1) i st(2,3)] by blast
  let ?w = "w(of_nat i := s)" and ?pcs = "pcs(i := Outer (Some l))"
  have same: "(of_nat j :: u32) = of_nat i \<longleftrightarrow> j = i" if "j \<in> set (masters cl)" for j
    using master_id(1) [OF assms(1) that] master_id(1) [OF assms(1) i] by metis
  have "one_epoch cl e ?w"
    using one_epoch_at [OF st(1) i] s by (intro one_epoch_upd [OF st(1)]) simp_all
  moreover have "support cl ?w l = support cl w l"
    using s(1) by (intro support_cong) simp
  moreover have el: "has_elected l j (?pcs j) (?w (of_nat j))"
    if "j \<in> set (masters cl)" "j = i \<or> has_elected l j (pcs j) (w (of_nat j))" for j
    using that same [OF that(1)] s(3) by auto
  moreover have "waiting cl (?pcs j) \<or> has_elected l j (?pcs j) (?w (of_nat j))" if "j \<in> set (masters cl)" for j
    using that same [OF that] s(3) Cons.prems(1) unfolding settled_def by auto
  ultimately have "settled cl e l ?pcs ?w"
    using st(2) unfolding settled_def by simp
  from Cons.IH [OF this "is"] obtain pcs' w' where
    "run_turns (sentinel_net node) cl is ?pcs ?w = Ret (pcs', w')" "settled cl e l pcs' w'"
    and fin: "\<forall>j \<in> set (masters cl). j \<in> set is \<or> has_elected l j (?pcs j) (?w (of_nat j))
       \<longrightarrow> has_elected l j (pcs' j) (w' (of_nat j))"
    by blast
  moreover have "has_elected l j (pcs' j) (w' (of_nat j))"
    if "j \<in> set (masters cl)" "j \<in> set (i # is) \<or> has_elected l j (pcs j) (w (of_nat j))" for j
    using that fin el [of j] by (auto simp del: masters_simps fun_upd_apply)
  ultimately show ?case using step by auto
qed simp

text \<open>A turn of a waiting master when nobody has a majority.\<close>

lemma undecided_turn:
  assumes "connected cl node" and "one_epoch cl e w" and "i \<in> set (masters cl)" and "waiting cl pc"
    and "\<forall>l. 2 * support cl w l \<le> unat (m_master_server_count cl)"
  shows "\<exists>pc' w'. sync_step (sentinel_net node) (cl\<lparr>m_kbid := of_nat i\<rparr>) (self_of (of_nat i)) pc w = Ret (pc', w')
    \<and> waiting cl pc' \<and> one_epoch cl e w' \<and> Max (candidates cl w') = Max (candidates cl w)
    \<and> (\<forall>j \<in> set (masters cl). m_vote (w' (of_nat j)) =
         (if j = i then of_nat (Max (candidates cl w)) else m_vote (w (of_nat j))))"
proof -
  let ?m = "Max (candidates cl w)"
  let ?w = "w(of_nat i := (w (of_nat i))\<lparr>m_vote := of_nat ?m\<rparr>)"
  note cm = candidates_masters [OF assms(1,2)]
  obtain votes voted where pc: "pc = Inner votes voted"
    "length votes = unat (m_master_server_count cl) + 1" "length voted = unat (m_master_server_count cl) + 1"
    using assms(4) by (auto simp: waiting_def split: sync_pc.splits)
  obtain votes' voted' where turn: "length votes' = length votes" "length voted' = length voted"
    "inner_turn (sentinel_net node) (cl\<lparr>m_kbid := of_nat i\<rparr>) (self_of (of_nat i)) votes voted w
      = Ret (Inner votes' voted', ?w)"
    using connected_turn [of "cl\<lparr>m_kbid := of_nat i\<rparr>" node i e w votes voted] assms pc(2,3)
    by auto
  have same: "(of_nat j :: u32) = of_nat i \<longleftrightarrow> j = i" if "j \<in> set (masters cl)" for j
    using master_id(1) [OF assms(1) that] master_id(1) [OF assms(1,3)] by metis
  have votes: "m_vote (?w (of_nat j)) = (if j = i then of_nat ?m else m_vote (w (of_nat j)))"
    if "j \<in> set (masters cl)" for j
    using same [OF that] by simp
  have "Max (candidates cl ?w) = ?m"
  proof (rule Max_eqI [OF candidates_finite(1)])
    have "unat (m_vote (?w (of_nat i))) \<in> candidates cl ?w"
      unfolding candidates_def using assms(3) by (rule imageI)
    moreover have "unat (m_vote (?w (of_nat i))) = ?m" using cm(3) by simp
    ultimately show "?m \<in> candidates cl ?w" by simp
    fix y assume "y \<in> candidates cl ?w"
    then obtain j where "j \<in> set (masters cl)" "y = unat (m_vote (?w (of_nat j)))"
      unfolding candidates_def by blast
    moreover have "unat (m_vote (w (of_nat j))) \<in> candidates cl w"
      unfolding candidates_def using \<open>j \<in> set (masters cl)\<close> by (rule imageI)
    ultimately show "y \<le> ?m"
      using votes [of j] cm(3) Max_ge [OF candidates_finite(1)] by (cases "j = i") simp_all
  qed
  moreover have "one_epoch cl e ?w"
    using one_epoch_at [OF assms(2,3)] cm(1,3)
    by (intro one_epoch_upd [OF assms(2)]) (simp_all del: masters_simps(1))
  ultimately show ?thesis
    using turn pc votes by (intro exI [of _ "Inner votes' voted'"] exI [of _ ?w])
      (simp add: sync_step_def waiting_def del: masters_simps fun_upd_apply)
qed

lemma first_pass:
  assumes "connected cl node" and "one_epoch cl e w" and "\<forall>i \<in> set (masters cl). waiting cl (pcs i)"
    and "set is \<subseteq> set (masters cl)"
  shows "\<exists>pcs' w'. run_turns (sentinel_net node) cl is pcs w = Ret (pcs', w')
    \<and> ((\<exists>l. settled cl e l pcs' w')
       \<or> one_epoch cl e w' \<and> (\<forall>i \<in> set (masters cl). waiting cl (pcs' i))
         \<and> Max (candidates cl w') = Max (candidates cl w)
         \<and> (\<forall>j \<in> set (masters cl). m_vote (w' (of_nat j)) =
              (if j \<in> set is then of_nat (Max (candidates cl w)) else m_vote (w (of_nat j)))))"
  using assms(4)
proof (induction "is" rule: rev_induct)
  case Nil
  then show ?case using assms(2,3) by simp
next
  case (snoc i "is")
  have i: "i \<in> set (masters cl)" and one: "set [i] \<subseteq> set (masters cl)" using snoc.prems by simp_all
  obtain p1 w1 where r1: "run_turns (sentinel_net node) cl is pcs w = Ret (p1, w1)"
    and alt: "(\<exists>l. settled cl e l p1 w1)
       \<or> one_epoch cl e w1 \<and> (\<forall>i \<in> set (masters cl). waiting cl (p1 i))
         \<and> Max (candidates cl w1) = Max (candidates cl w)
         \<and> (\<forall>j \<in> set (masters cl). m_vote (w1 (of_nat j)) =
              (if j \<in> set is then of_nat (Max (candidates cl w)) else m_vote (w (of_nat j))))"
    using snoc by auto
  have app: "run_turns (sentinel_net node) cl (is @ [i]) pcs w = run_turns (sentinel_net node) cl [i] p1 w1"
    by (simp only: run_turns_append r1 obind.simps prod.case)
  consider l where "settled cl e l p1 w1"
    | "one_epoch cl e w1" "\<forall>i \<in> set (masters cl). waiting cl (p1 i)"
      "Max (candidates cl w1) = Max (candidates cl w)"
      "\<forall>j \<in> set (masters cl). m_vote (w1 (of_nat j)) =
              (if j \<in> set is then of_nat (Max (candidates cl w)) else m_vote (w (of_nat j)))"
      "\<forall>l. 2 * support cl w1 l \<le> unat (m_master_server_count cl)"
    using alt unfolding settled_def by (meson not_le)
  then show ?case
  proof cases
    case 1
    then show ?thesis unfolding app using settled_run [OF assms(1) 1 one] by blast
  next
    case 2
    obtain pc' w' where "sync_step (sentinel_net node) (cl\<lparr>m_kbid := of_nat i\<rparr>) (self_of (of_nat i)) (p1 i) w1
        = Ret (pc', w')" "waiting cl pc'" "one_epoch cl e w'" "Max (candidates cl w') = Max (candidates cl w1)"
      "\<forall>j \<in> set (masters cl). m_vote (w' (of_nat j)) =
         (if j = i then of_nat (Max (candidates cl w1)) else m_vote (w1 (of_nat j)))"
      using undecided_turn [OF assms(1) 2(1) i _ 2(5)] 2(2) i by blast
    then show ?thesis unfolding app using 2(2-4) by auto
  qed
qed


section \<open>Three masters\<close>

definition trio :: cluster where
  "trio = cluster_zero\<lparr>m_kbid := 1, m_master_server_count := 3, m_master_configs :=
     [[(''MachineAddress'', ''a''), (''MasterSentinelPort'', ''80'')],
      [(''MachineAddress'', ''b''), (''MasterSentinelPort'', ''80'')],
      [(''MachineAddress'', ''c''), (''MasterSentinelPort'', ''80'')]]\<rparr>"

definition trio_node :: "string \<Rightarrow> u32 option" where
  "trio_node url =
     (if url ! 7 = CHR ''a'' then Some 1 else if url ! 7 = CHR ''b'' then Some 2
      else if url ! 7 = CHR ''c'' then Some 3 else None)"

definition trio_votes :: "(u64 \<times> u64 \<times> u64) \<Rightarrow> u32 \<Rightarrow> sentinel" where
  "trio_votes v i = start_sentinel i
     (case v of (a, b, c) \<Rightarrow> if i = 1 then a else if i = 2 then b else c)"

lemma trio_masters: "masters trio = [1, 2, 3]" "m_kbid trio = of_nat 1" "unat (m_master_server_count trio) = 3"
  by (simp_all add: masters_def trio_def upt_rec)

lemma trio_connected: "connected trio trio_node"
proof -
  have 1: "get_master_ip trio (of_nat i) = Ret [char_of (96 + i)] \<and> get_master_sentinel_port trio (of_nat i) = Ret 80
      \<and> (\<forall>uri \<in> {''/GetVote'', ''/GetStatus''}. length (http_url [char_of (96 + i)] 80 uri) < 1024
        \<and> trio_node (http_url [char_of (96 + i)] 80 uri) = Some (of_nat i))"
    if "i = 1 \<or> i = 2 \<or> i = 3" for i :: nat
    using that by (elim disjE; hypsubst; code_simp)
  have "\<forall>i \<in> {1, 2, 3}. \<exists>ip port. get_master_ip trio (of_nat i) = Ret ip
      \<and> get_master_sentinel_port trio (of_nat i) = Ret port
      \<and> (\<forall>uri \<in> {''/GetVote'', ''/GetStatus''}. length (http_url ip port uri) < 1024
        \<and> trio_node (http_url ip port uri) = Some (of_nat i))"
    using 1 by blast
  then show ?thesis unfolding connected_def trio_masters by simp
qed

lemma trio_votes_simps [simp]:
  "trio_votes (a, b, c) 1 = start_sentinel 1 a" "trio_votes (a, b, c) 2 = start_sentinel 2 b"
  "trio_votes (a, b, c) 3 = start_sentinel 3 c"
  by (simp_all add: trio_votes_def)

lemma trio_epoch: "a \<in> {1, 2, 3} \<Longrightarrow> b \<in> {1, 2, 3} \<Longrightarrow> c \<in> {1, 2, 3} \<Longrightarrow> one_epoch trio 0 (trio_votes (a, b, c))"
  unfolding one_epoch_def trio_masters by (auto simp: start_sentinel_def)

lemma elected_by_majority_witness:
  "\<exists>votes' voted' w1. collect (sentinel_net trio_node) trio (self_of 1) (get_vote_ticket (trio_votes (3, 3, 2) 1))
      (masters trio) (replicate 4 (0, 0)) (replicate 4 False) (trio_votes (3, 3, 2)) = Ret (votes', voted', w1)
    \<and> 3 < 2 * ballots votes' voted' (masters trio) 3"
proof -
  have "3 < 2 * support trio (trio_votes (3, 3, 2)) 3"
    unfolding support_def trio_masters by (simp add: start_sentinel_def)
  then obtain w' where "inner_turn (sentinel_net trio_node) trio (self_of 1) (replicate 4 (0, 0)) (replicate 4 False)
      (trio_votes (3, 3, 2)) = Ret (Outer (Some 3), w')"
    using connected_turn [OF trio_connected trio_masters(2) _ trio_epoch [of 3 3 2], of "replicate 4 (0, 0)" "replicate 4 False"]
    by (auto simp: trio_masters)
  from elected_by_majority [OF this] show ?thesis by (auto simp: trio_masters(3))
qed

lemma election_refines_witness:
  "\<exists>pc w'. inner_turn (sentinel_net trio_node) trio (self_of 1) (replicate 4 (0, 0)) (replicate 4 False)
      (trio_votes (1, 2, 3)) = Ret (pc, w')
    \<and> votes_of trio w' = (votes_of trio (trio_votes (1, 2, 3)))(1 := 3)"
proof -
  have m: "Max (votes_of trio (trio_votes (1, 2, 3)) ` {1..3}) = 3"
  proof -
    have "{1..3} = {1, 2, 3 :: nat}" by auto
    then show ?thesis by (simp add: votes_of_def trio_masters start_sentinel_def del: masters_simps)
  qed
  have "majority_of 3 (votes_of trio (trio_votes (1, 2, 3))) = None"
    by (simp add: majority_of_def votes_of_def trio_masters start_sentinel_def upt_rec del: masters_simps)
  then have "spec_turn 3 (votes_of trio (trio_votes (1, 2, 3))) 1
      = (None, (votes_of trio (trio_votes (1, 2, 3)))(1 := 3))"
    using m by (simp add: spec_turn_def)
  then show ?thesis
    using election_refines [OF trio_connected trio_masters(2) _ trio_epoch [of 1 2 3], of "replicate 4 (0, 0)" "replicate 4 False"]
    by (auto simp: trio_masters)
qed


end
