(* ===== verification/Oplog_Base.thy ===== *)
theory Oplog_Base
  imports Database Op_Id Protobuf Base_Server Http_Client Cluster Sentinel
begin

text \<open>
  What the three operation-log handlers share: the messages of \<open>operation_log.proto\<close>,
  \<open>upload_file.proto\<close> and \<open>get_oplog.proto\<close>, the two databases of a master, the choice of the
  next log key, and the pair of writes that records an operation. Required fields are
  options as well, because the code reads and re-serialises messages whose parsing failed;
  reading an absent field gives its default.
\<close>

section \<open>Messages\<close>

type_synonym s64 = "64 word"

datatype upload_file_request = Upload_file_request
  (ur_account: "string option") (ur_file_name: "string option")
  (ur_merkle_sha1: "string option") (ur_file_size: "s64 option")

datatype upload_file_response = Upload_file_response
  (fr_file_hosts: "string list") (fr_file_size: "s64 option") (fr_merkle_sha1: "string option")

datatype upload_file_operation = Upload_file_operation
  (fo_key: "string option") (fo_data: "upload_file_response option")

datatype operation_log = Operation_log (ol_op_type: "s64 option") (ol_log_data: "string option")

datatype operation_log_message = Operation_log_message
  (om_state: "s32 option") (om_op_id: "string option") (om_op_log: "operation_log option")

datatype get_oplog_response = Get_oplog_response
  (go_last_id: "string option") (go_log_data: "string list")

instance upload_file_request :: countable by countable_datatype
instance upload_file_response :: countable by countable_datatype
instance upload_file_operation :: countable by countable_datatype
instance operation_log :: countable by countable_datatype
instance operation_log_message :: countable by countable_datatype
instance get_oplog_response :: countable by countable_datatype

definition field :: "'a \<Rightarrow> 'a option \<Rightarrow> 'a" where
  "field d x = (case x of None \<Rightarrow> d | Some v \<Rightarrow> v)"

lemma field_simps [simp]: "field d None = d" "field d (Some v) = v"
  by (simp_all add: field_def)

definition op_data :: "upload_file_operation \<Rightarrow> upload_file_response" where
  "op_data x = field (Upload_file_response [] None None) (fo_data x)"

definition msg_op_log :: "operation_log_message \<Rightarrow> operation_log" where
  "msg_op_log x = field (Operation_log None None) (om_op_log x)"

text \<open>The serialisations the generated code provides.\<close>

record codecs =
  c_request :: "upload_file_request codec"
  c_response :: "upload_file_response codec"
  c_operation :: "upload_file_operation codec"
  c_oplog :: "operation_log codec"
  c_message :: "operation_log_message codec"
  c_page :: "get_oplog_response codec"

definition faithful :: "codecs \<Rightarrow> bool" where
  "faithful M \<longleftrightarrow> message_codec (c_request M) \<and> message_codec (c_response M)
     \<and> message_codec (c_operation M) \<and> message_codec (c_oplog M)
     \<and> message_codec (c_message M) \<and> message_codec (c_page M)"

definition ref_codecs :: codecs where
  "ref_codecs = \<lparr>c_request = ref_codec, c_response = ref_codec, c_operation = ref_codec,
     c_oplog = ref_codec, c_message = ref_codec, c_page = ref_codec\<rparr>"

lemma ref_codecs_simps [simp]:
  "c_request ref_codecs = ref_codec" "c_response ref_codecs = ref_codec"
  "c_operation ref_codecs = ref_codec" "c_oplog ref_codecs = ref_codec"
  "c_message ref_codecs = ref_codec" "c_page ref_codecs = ref_codec"
  by (simp_all add: ref_codecs_def)

lemma faithful_ref: "faithful ref_codecs"
  by (simp add: faithful_def ref_codec.message_codec_axioms)

section \<open>The databases of a master\<close>

record 'd dbs =
  userdata_db :: "'d db"
  oplog_db :: "'d db"

text \<open>The key behind the last one, or the first key of an empty (or unreadable) log.\<close>

definition next_log_key :: "'d leveldb_ops \<Rightarrow> 'd dbs \<Rightarrow> (string \<times> 'd dbs) outcome" where
  "next_log_key L s =
     obind (db_fetch_last_key L (oplog_db s)) (\<lambda>(last, o1).
       let s1 = s\<lparr>oplog_db := o1\<rparr> in
       case last of
         Some last_key \<Rightarrow> obind (add_one last_key) (\<lambda>(_, key). Ret (key, s1))
       | None \<Rightarrow> Ret (get_zero, s1))"

text \<open>
  The two writes that record an operation: the log entry under \<open>id\<close>, then the file record
  under \<open>key\<close>; when the second fails the first is removed again. The result tells which failed.
\<close>

datatype recorded = Recorded | Log_failed | Data_failed

definition record_operation ::
  "'d leveldb_ops \<Rightarrow> string \<Rightarrow> string \<Rightarrow> string \<Rightarrow> string \<Rightarrow> 'd dbs \<Rightarrow> (recorded \<times> 'd dbs) outcome" where
  "record_operation L ident log key data s =
     obind (db_put L ident log (oplog_db s)) (\<lambda>(ok, o1).
       if \<not> ok then Ret (Log_failed, s\<lparr>oplog_db := o1\<rparr>)
       else
         obind (db_put L key data (userdata_db s)) (\<lambda>(ok2, u1).
           if \<not> ok2 then
             obind (db_remove L ident o1) (\<lambda>(_, o2).
               Ret (Data_failed, s\<lparr>oplog_db := o2, userdata_db := u1\<rparr>))
           else Ret (Recorded, s\<lparr>oplog_db := o1, userdata_db := u1\<rparr>)))"

section \<open>Contents\<close>

definition log_of :: "('d \<Rightarrow> (string, string) omap) \<Rightarrow> 'd dbs \<Rightarrow> (string, string) omap" where
  "log_of stored s = stored (db_store (oplog_db s))"

definition files_of :: "('d \<Rightarrow> (string, string) omap) \<Rightarrow> 'd dbs \<Rightarrow> (string, string) omap" where
  "files_of stored s = stored (db_store (userdata_db s))"

text \<open>The log of a master that has recorded \<open>n\<close> operations.\<close>

definition log_ok :: "('d \<Rightarrow> (string, string) omap) \<Rightarrow> nat \<Rightarrow> 'd dbs \<Rightarrow> bool" where
  "log_ok stored n s \<longleftrightarrow> map fst (log_of stored s) = op_ids n \<and> n < 2 ^ 64"

lemma next_log_key_content:
  assumes "leveldb L stored" and "next_log_key L s = Ret (key, s1)"
  shows "log_of stored s1 = log_of stored s" and "files_of stored s1 = files_of stored s"
  using kv_store.last_key_frame [OF leveldb.axioms_kv [OF assms(1)]] assms(2)
  by (auto simp: next_log_key_def log_of_def files_of_def Let_def elim!: obind_RetE split: option.splits prod.splits)

text \<open>On a log with the keys \<open>op_ids n\<close> the next key is \<open>op_id n\<close>, if the last key could be read.\<close>

lemma next_log_key_op_id:
  assumes "leveldb L stored" and "log_ok stored n s" and "next_log_key L s = Ret (key, s1)"
    and "\<exists>k o1. db_fetch_last_key L (oplog_db s) = Ret (Some k, o1) \<or> n = 0"
  shows "key = op_id n"
proof (cases n)
  case 0
  then have "log_of stored s = []" using assms(2) by (simp add: log_ok_def op_ids_def)
  then have none: "db_fetch_last_key L (oplog_db s) \<noteq> Ret (Some k, o1)" for k o1
    using kv_store.last_key_some [OF leveldb.axioms_kv [OF assms(1)]] by (auto simp: log_of_def)
  obtain lk o1 where f: "db_fetch_last_key L (oplog_db s) = Ret (lk, o1)"
    using assms(3) by (auto simp: next_log_key_def elim!: obind_RetE)
  then have "lk = None" using none by (cases lk) simp_all
  then show ?thesis using assms(3) 0 f by (simp add: next_log_key_def op_id_0 Let_def)
next
  case (Suc m)
  then obtain k o1 where k: "db_fetch_last_key L (oplog_db s) = Ret (Some k, o1)" using assms(4) by auto
  have "log_of stored s \<noteq> [] \<and> k = fst (last (log_of stored s))"
    using kv_store.last_key_some [OF leveldb.axioms_kv [OF assms(1)] k] by (simp add: log_of_def)
  then have "k = last (op_ids n)" using assms(2) by (metis last_map log_ok_def)
  then have "k = op_id m" by (simp add: Suc op_ids_Suc)
  then show ?thesis
    using assms(3) k add_one_op_id [of m] by (auto simp: next_log_key_def Suc Let_def elim!: obind_RetE)
qed

lemma record_operation_Recorded:
  assumes "leveldb L stored" and "record_operation L i log key data s = Ret (Recorded, s')"
  shows "log_of stored s' = om_set i log (log_of stored s)"
    and "files_of stored s' = om_set key data (files_of stored s)"
  using leveldb.put_cases(1) [OF assms(1)] assms(2)
  by (auto simp: record_operation_def log_of_def files_of_def elim!: obind_RetE split: if_splits)

text \<open>Whatever fails, only the two keys are touched.\<close>

lemma record_operation_other:
  assumes "leveldb L stored" and "record_operation L i log key data s = Ret (r, s')"
  shows "j \<noteq> i \<Longrightarrow> om_find (log_of stored s') j = om_find (log_of stored s) j"
    and "j \<noteq> key \<Longrightarrow> om_find (files_of stored s') j = om_find (files_of stored s) j"
proof -
  note kv = leveldb.axioms_kv [OF assms(1)]
  have rm: "om_find (stored (db_store o2)) j = om_find (stored (db_store o1)) j"
    if "db_remove L i o1 = Ret (b, o2)" "j \<noteq> i" for o1 o2 b
    using that kv_store.remove_true [OF kv, of i o1 o2] kv_store.remove_false [OF kv, of i o1 o2]
    by (cases b) (auto simp: om_find_om_erase)
  show "j \<noteq> i \<Longrightarrow> om_find (log_of stored s') j = om_find (log_of stored s) j"
    using assms(2) kv_store.put_other [OF kv] rm
    by (fastforce simp: record_operation_def log_of_def elim!: obind_RetE split: if_splits)
  show "j \<noteq> key \<Longrightarrow> om_find (files_of stored s') j = om_find (files_of stored s) j"
    using assms(2) kv_store.put_other [OF kv]
    by (fastforce simp: record_operation_def files_of_def elim!: obind_RetE split: if_splits)
qed

lemma log_ok_append:
  assumes "leveldb L stored" and "log_ok stored n s" and "log_of stored s' = om_set (op_id n) v (log_of stored s)"
    and "Suc n < 2 ^ 64"
  shows "log_ok stored (Suc n) s' \<and> log_of stored s' = log_of stored s @ [(op_id n, v)]
    \<and> om_find (log_of stored s) (op_id n) = None"
proof -
  have ok: "om_ok (log_of stored s)"
    using leveldb.stored_ok [OF assms(1)] by (simp add: log_of_def)
  have n: "n < 256 ^ 8" using assms(4) by simp
  have below: "j < op_id n" if "j \<in> fst ` set (log_of stored s)" for j
    using that assms(2) op_ids_below [OF n] unfolding log_ok_def by (metis list.set_map)
  then have "om_set (op_id n) v (log_of stored s) = log_of stored s @ [(op_id n, v)]"
    by (rule om_set_last [OF ok])
  moreover have "om_find (log_of stored s) (op_id n) = None"
    using below [of "op_id n"] by (auto simp: om_find_def map_of_eq_None_iff)
  ultimately show ?thesis
    using assms(2-4) by (simp add: log_ok_def op_ids_Suc)
qed

section \<open>While the disks work\<close>

definition dbs_up :: "'d dbs \<Rightarrow> bool" where
  "dbs_up s \<longleftrightarrow> db_conn (userdata_db s) \<and> db_conn (oplog_db s)"

lemma record_operation_works:
  assumes "reliable_db L stored" and "dbs_up s"
  shows "\<exists>s'. record_operation L i log key data s = Ret (Recorded, s') \<and> dbs_up s'
    \<and> log_of stored s' = om_set i log (log_of stored s) \<and> files_of stored s' = om_set key data (files_of stored s)"
proof -
  note put = reliable_db.put_Ret [OF assms(1)]
  obtain o1 where 1: "db_put L i log (oplog_db s) = Ret (True, o1)" "db_conn o1"
      "stored (db_store o1) = om_set i log (log_of stored s)"
    using put [of "oplog_db s" i log] assms(2) by (auto simp: dbs_up_def log_of_def)
  obtain u1 where 2: "db_put L key data (userdata_db s) = Ret (True, u1)" "db_conn u1"
      "stored (db_store u1) = om_set key data (files_of stored s)"
    using put [of "userdata_db s" key data] assms(2) by (auto simp: dbs_up_def files_of_def)
  show ?thesis
    using 1 2 by (simp add: record_operation_def dbs_up_def log_of_def files_of_def)
qed

lemma next_log_key_works:
  assumes "reliable_db L stored" and "dbs_up s" and "log_ok stored n s"
  shows "\<exists>s1. next_log_key L s = Ret (op_id n, s1) \<and> dbs_up s1
    \<and> log_of stored s1 = log_of stored s \<and> files_of stored s1 = files_of stored s"
proof -
  have ldb: "leveldb L stored" using assms(1) by (rule reliable_db.axioms(1))
  obtain o1 where f: "db_fetch_last_key L (oplog_db s)
      = Ret (if log_of stored s = [] then None else Some (fst (last (log_of stored s))), o1)" "db_conn o1"
    using reliable_db.last_key_Ret [OF assms(1), of "oplog_db s"] assms(2) by (auto simp: dbs_up_def log_of_def)
  have empty: "log_of stored s = [] \<longleftrightarrow> n = 0"
    using assms(3) unfolding log_ok_def by (cases n) (auto simp: op_ids_def)
  have "\<exists>key s1. next_log_key L s = Ret (key, s1) \<and> dbs_up s1"
  proof (cases n)
    case 0
    then show ?thesis using f empty assms(2) by (simp add: next_log_key_def Let_def dbs_up_def)
  next
    case (Suc m)
    have "fst (last (log_of stored s)) = last (map fst (log_of stored s))"
      using empty Suc by (simp add: last_map)
    then have "fst (last (log_of stored s)) = op_id m"
      using assms(3) by (simp add: log_ok_def Suc op_ids_Suc)
    then show ?thesis
      using f empty Suc assms(2) add_one_op_id [of m] by (auto simp: next_log_key_def Let_def dbs_up_def)
  qed
  then obtain key s1 where k: "next_log_key L s = Ret (key, s1)" "dbs_up s1" by blast
  have "key = op_id n"
    using next_log_key_op_id [OF ldb assms(3) k(1)] f(1) empty by (cases "n = 0") auto
  then show ?thesis using k next_log_key_content [OF ldb k(1)] by blast
qed

end
