(* ===== verification/Gossip_Status.thy ===== *)
theory Gossip_Status
  imports Cluster Protobuf "HOL-Library.Multiset"
begin

text \<open>
  \<open>server/chunk/kyrin_chunk_gossiper_status.h\<close> and \<open>.cc\<close>: a chunk server's view of the chunk
  cluster, four lists of ids (alive and dead, seeds and commons) and the addresses of the
  known servers, stamped with the time of the last change. \<open>time(NULL)\<close> is the argument \<open>now\<close>,
  \<open>rand()\<close> is an argument; every operation holds the status lock and is one step here.
\<close>

section \<open>State\<close>

datatype chunk_conf = Chunk_conf
  (cc_host: string) (cc_gossip_port: u32) (cc_download_chunk_port: u32) (cc_upload_chunk_port: u32)
  (cc_set_file_keyinfo_port: u32) (cc_get_file_keyinfo_port: u32)

definition no_conf :: chunk_conf where
  "no_conf = Chunk_conf [] 0 0 0 0 0"

record status =
  m_timestamp :: u64
  m_configs :: "(u32, chunk_conf) omap"
  m_seeds :: "u32 list"
  m_commons :: "u32 list"
  m_dead_seeds :: "u32 list"
  m_dead_commons :: "u32 list"

text \<open>A new object; the timestamp of the class has no initial value, 0 stands for it.\<close>

definition status_new :: status where
  "status_new = \<lparr>m_timestamp = 0, m_configs = [], m_seeds = [], m_commons = [],
     m_dead_seeds = [], m_dead_commons = []\<rparr>"

text \<open>
  The messages of \<open>protobuf/chunk_cluster_status.proto\<close>: \<open>ChunkClusterGossipData\<close> is an id with
  its addresses; \<open>ChunkStatus\<close> is an id; the timestamp of \<open>ChunkClusterStatus\<close> is optional.
\<close>

datatype gossip_data = Gossip_data (gd_kbid: u32) (gd_conf: chunk_conf)

datatype cluster_status = Cluster_status
  (cs_seeds: "u32 list") (cs_commons: "u32 list")
  (cs_dead_seeds: "u32 list") (cs_dead_commons: "u32 list")
  (cs_datas: "gossip_data list") (cs_timestamp: "u64 option")

instance chunk_conf :: countable by countable_datatype
instance gossip_data :: countable by countable_datatype
instance cluster_status :: countable by countable_datatype

section \<open>Operations\<close>

definition conf_of :: "cluster \<Rightarrow> u32 \<Rightarrow> chunk_conf outcome" where
  "conf_of cl kbid =
     obind (get_chunk_ip cl kbid) (\<lambda>ip.
     obind (get_chunk_gossip_port cl kbid) (\<lambda>gp.
     obind (get_chunk_download_chunk_file_port cl kbid) (\<lambda>dcp.
     obind (get_chunk_upload_chunk_file_port cl kbid) (\<lambda>ucp.
     obind (get_chunk_set_file_key_info_port cl kbid) (\<lambda>sp.
     obind (get_chunk_get_file_key_info_port cl kbid) (\<lambda>gfp.
       Ret (Chunk_conf (c_str ip) gp dcp ucp sp gfp)))))))"

fun put_confs :: "cluster \<Rightarrow> u32 list \<Rightarrow> (u32, chunk_conf) omap \<Rightarrow> (u32, chunk_conf) omap outcome" where
  "put_confs cl [] m = Ret m"
| "put_confs cl (k # ks) m = obind (conf_of cl k) (\<lambda>c. put_confs cl ks (om_set k c m))"

definition initialize ::
  "cluster \<Rightarrow> u32 list \<Rightarrow> u32 list \<Rightarrow> u64 \<Rightarrow> u64 \<Rightarrow> status \<Rightarrow> status outcome" where
  "initialize cl seeds commons timestamp now s =
     obind (put_confs cl seeds []) (\<lambda>m1.
     obind (put_confs cl commons m1) (\<lambda>m2.
       Ret (s\<lparr>m_configs := m2, m_seeds := seeds, m_commons := commons,
              m_timestamp := (if timestamp \<noteq> 0 then timestamp else now)\<rparr>)))"

definition check_commons :: "gossip_data \<Rightarrow> u64 \<Rightarrow> status \<Rightarrow> bool \<times> status" where
  "check_commons d now s =
     (if om_count (m_configs s) (gd_kbid d) = 0
      then (True, s\<lparr>m_commons := m_commons s @ [gd_kbid d],
                    m_configs := om_set (gd_kbid d) (gd_conf d) (m_configs s),
                    m_timestamp := now\<rparr>)
      else (False, s))"

text \<open>\<open>get_config(kbid, config)\<close>: the flag and what \<open>config\<close> holds afterwards.\<close>

definition get_chunk_conf :: "u32 \<Rightarrow> chunk_conf \<Rightarrow> status \<Rightarrow> bool \<times> chunk_conf" where
  "get_chunk_conf kbid config s =
     (case om_find (m_configs s) kbid of Some c \<Rightarrow> (True, c) | None \<Rightarrow> (False, config))"

definition to_protobuf :: "status \<Rightarrow> cluster_status" where
  "to_protobuf s = Cluster_status (m_seeds s) (m_commons s) (m_dead_seeds s) (m_dead_commons s)
     (map (\<lambda>(k, c). Gossip_data k c) (m_configs s)) (Some (m_timestamp s))"

definition to_string :: "cluster_status codec \<Rightarrow> status \<Rightarrow> bool \<times> string" where
  "to_string P s = ser P (to_protobuf s)"

definition of_message :: "cluster_status \<Rightarrow> status" where
  "of_message m =
     \<lparr>m_timestamp = (case cs_timestamp m of Some t \<Rightarrow> t | None \<Rightarrow> 0),
      m_configs = fold (\<lambda>d. om_set (gd_kbid d) (gd_conf d)) (cs_datas m) [],
      m_seeds = cs_seeds m, m_commons = cs_commons m,
      m_dead_seeds = cs_dead_seeds m, m_dead_commons = cs_dead_commons m\<rparr>"

definition from_string :: "cluster_status codec \<Rightarrow> string \<Rightarrow> status \<Rightarrow> bool \<times> status" where
  "from_string P str s =
     (let (ok, m) = parse P str in if \<not> ok then (False, s) else (True, of_message m))"

text \<open>
  \<open>set_item(a, b, kbid)\<close>: the first occurrence of \<open>kbid\<close> moves from \<open>a\<close> to the end of \<open>b\<close>; the
  caller also gets a new timestamp whether or not there was one.
\<close>

fun move_item :: "u32 list \<Rightarrow> u32 list \<Rightarrow> u32 \<Rightarrow> u32 list \<times> u32 list" where
  "move_item [] b kbid = ([], b)"
| "move_item (x # xs) b kbid =
     (if kbid = x then (xs, b @ [kbid])
      else let (a', b') = move_item xs b kbid in (x # a', b'))"

definition set_dead :: "u32 \<Rightarrow> int \<Rightarrow> u64 \<Rightarrow> status \<Rightarrow> status" where
  "set_dead kbid flag now s =
     (if flag = 1 then
        let (a, b) = move_item (m_seeds s) (m_dead_seeds s) kbid
        in s\<lparr>m_timestamp := now, m_seeds := a, m_dead_seeds := b\<rparr>
      else if flag = 2 then
        let (a, b) = move_item (m_commons s) (m_dead_commons s) kbid
        in s\<lparr>m_timestamp := now, m_commons := a, m_dead_commons := b\<rparr>
      else s)"

definition set_alive :: "u32 \<Rightarrow> int \<Rightarrow> u64 \<Rightarrow> status \<Rightarrow> status" where
  "set_alive kbid flag now s =
     (if flag = -1 then
        let (a, b) = move_item (m_dead_seeds s) (m_seeds s) kbid
        in s\<lparr>m_timestamp := now, m_dead_seeds := a, m_seeds := b\<rparr>
      else if flag = -2 then
        let (a, b) = move_item (m_dead_commons s) (m_commons s) kbid
        in s\<lparr>m_timestamp := now, m_dead_commons := a, m_commons := b\<rparr>
      else s)"

text \<open>\<open>get_random(a)\<close> behind its four callers, which answer 0 for an empty list.\<close>

definition get_random_of :: "u32 list \<Rightarrow> nat \<Rightarrow> u32" where
  "get_random_of a rnd = (if length a = 0 then 0 else a ! (rnd mod length a))"

definition get_random_seed :: "nat \<Rightarrow> status \<Rightarrow> u32" where
  "get_random_seed rnd s = get_random_of (m_seeds s) rnd"

definition get_random_common :: "nat \<Rightarrow> status \<Rightarrow> u32" where
  "get_random_common rnd s = get_random_of (m_commons s) rnd"

definition get_random_dead_seed :: "nat \<Rightarrow> status \<Rightarrow> u32" where
  "get_random_dead_seed rnd s = get_random_of (m_dead_seeds s) rnd"

definition get_random_dead_common :: "nat \<Rightarrow> status \<Rightarrow> u32" where
  "get_random_dead_common rnd s = get_random_of (m_dead_commons s) rnd"

text \<open>
  \<open>get_random_alive_3\<close>. The arguments are the values \<open>rand()\<close> returns, in order; \<open>v\<close> and \<open>res\<close>
  are the vectors of the code. None: the loop still wants another value. \<open>m_configs[tk]\<close>
  inserts an empty configuration for an id without one.
\<close>

definition alive_nth :: "status \<Rightarrow> nat \<Rightarrow> u32" where
  "alive_nth s tk =
     (if length (m_seeds s) \<le> tk then m_commons s ! (tk - length (m_seeds s)) else m_seeds s ! tk)"

fun alive_loop ::
  "nat list \<Rightarrow> u32 list \<Rightarrow> (u32 \<times> chunk_conf) list \<Rightarrow> status
     \<Rightarrow> ((u32 \<times> chunk_conf) list \<times> status) option" where
  "alive_loop draws v res s =
     (if 3 \<le> length v then Some (res, s)
      else case draws of
        [] \<Rightarrow> None
      | r # rs \<Rightarrow>
          let tk = alive_nth s (r mod (length (m_seeds s) + length (m_commons s))) in
          if tk \<in> set v then alive_loop rs v res s
          else case om_find (m_configs s) tk of
            Some c \<Rightarrow> alive_loop rs (v @ [tk]) (res @ [(tk, c)]) s
          | None \<Rightarrow> alive_loop rs (v @ [tk]) (res @ [(tk, no_conf)])
                     (s\<lparr>m_configs := om_set tk no_conf (m_configs s)\<rparr>))"

declare alive_loop.simps [simp del]

definition get_random_alive_3 ::
  "nat list \<Rightarrow> status \<Rightarrow> (bool \<times> (u32 \<times> chunk_conf) list \<times> status) option" where
  "get_random_alive_3 draws s =
     (if length (m_seeds s) + length (m_commons s) < 3 then Some (False, [], s)
      else map_option (\<lambda>(res, s'). (True, res, s')) (alive_loop draws [] [] s))"

section \<open>Membership\<close>

text \<open>All ids of a view, with multiplicity, and the well-formed views.\<close>

definition members :: "status \<Rightarrow> u32 multiset" where
  "members s = mset (m_seeds s) + mset (m_commons s) + mset (m_dead_seeds s) + mset (m_dead_commons s)"

definition status_ok :: "status \<Rightarrow> bool" where
  "status_ok s \<longleftrightarrow>
     om_ok (m_configs s) \<and>
     distinct (m_seeds s @ m_commons s @ m_dead_seeds s @ m_dead_commons s) \<and>
     set (m_seeds s @ m_commons s @ m_dead_seeds s @ m_dead_commons s) = dom (om_find (m_configs s))"

lemma distinct_iff_count: "distinct l \<longleftrightarrow> (\<forall>k. count (mset l) k \<le> 1)"
proof
  assume "\<forall>k. count (mset l) k \<le> 1"
  then have "count (mset l) a = (if a \<in> set l then 1 else 0)" for a
    using count_greater_zero_iff [of "mset l" a] by (auto simp: le_Suc_eq not_in_iff)
  then show "distinct l" by (simp add: distinct_count_atmost_1)
qed (simp add: distinct_count_atmost_1)

lemma status_ok_members:
  "status_ok s \<longleftrightarrow> om_ok (m_configs s) \<and> (\<forall>k. count (members s) k \<le> 1)
     \<and> set_mset (members s) = dom (om_find (m_configs s))"
proof -
  let ?l = "m_seeds s @ m_commons s @ m_dead_seeds s @ m_dead_commons s"
  have m: "members s = mset ?l" by (simp add: members_def)
  show ?thesis
    unfolding status_ok_def m by (simp only: distinct_iff_count set_mset_mset)
qed

lemma move_item_mset: "move_item a b k = (a', b') \<Longrightarrow> mset a' + mset b' = mset a + mset b"
  by (induction a arbitrary: a' b') (auto split: if_splits prod.splits)

lemma move_item_absent: "k \<notin> set a \<Longrightarrow> move_item a b k = (a, b)"
  by (induction a) auto

lemma move_item_present: "k \<in> set a \<Longrightarrow> move_item a b k = (remove1 k a, b @ [k])"
  by (induction a) auto

lemma members_set_dead [simp]: "members (set_dead k flag now s) = members s"
  by (auto simp: set_dead_def members_def Let_def ac_simps split: prod.splits dest!: move_item_mset)

lemma members_set_alive [simp]: "members (set_alive k flag now s) = members s"
  by (auto simp: set_alive_def members_def Let_def ac_simps split: prod.splits dest!: move_item_mset)

lemma configs_set_dead [simp]: "m_configs (set_dead k flag now s) = m_configs s"
  by (simp add: set_dead_def Let_def split: prod.splits)

lemma configs_set_alive [simp]: "m_configs (set_alive k flag now s) = m_configs s"
  by (simp add: set_alive_def Let_def split: prod.splits)

lemma status_ok_moved [simp]:
  "status_ok (set_dead k flag now s) = status_ok s"
  "status_ok (set_alive k flag now s) = status_ok s"
  by (simp_all add: status_ok_members)

section \<open>Views stay well-formed\<close>

lemma count_zero_iff: "status_ok s \<Longrightarrow> om_count (m_configs s) k = 0 \<longleftrightarrow> k \<notin># members s"
  by (auto simp: status_ok_members)

lemma check_commons_cases:
  assumes "status_ok s"
  shows "check_commons d now s = (False, s) \<and> gd_kbid d \<in># members s
    \<or> check_commons d now s = (True, s\<lparr>m_commons := m_commons s @ [gd_kbid d],
        m_configs := om_set (gd_kbid d) (gd_conf d) (m_configs s), m_timestamp := now\<rparr>)
      \<and> gd_kbid d \<notin># members s"
  using count_zero_iff [OF assms] by (simp add: check_commons_def)

lemma check_commons_wf:
  assumes "status_ok s"
  shows "status_ok (snd (check_commons d now s))
    \<and> (fst (check_commons d now s) \<longleftrightarrow> gd_kbid d \<notin># members s)
    \<and> members (snd (check_commons d now s))
       = members s + (if gd_kbid d \<in># members s then {#} else {#gd_kbid d#})
    \<and> (gd_kbid d \<notin># members s \<longrightarrow>
         om_find (m_configs (snd (check_commons d now s))) (gd_kbid d) = Some (gd_conf d))"
  using check_commons_cases [OF assms, of d now]
proof (elim disjE conjE)
  assume new: "gd_kbid d \<notin># members s"
    and c: "check_commons d now s = (True, s\<lparr>m_commons := m_commons s @ [gd_kbid d],
      m_configs := om_set (gd_kbid d) (gd_conf d) (m_configs s), m_timestamp := now\<rparr>)"
  have m: "members (snd (check_commons d now s)) = members s + {#gd_kbid d#}"
    by (simp add: c members_def ac_simps)
  have "status_ok (snd (check_commons d now s))"
    using assms new m by (auto simp: status_ok_members c om_ok_om_set om_find_om_set not_in_iff)
  then show ?thesis
    using assms m new by (simp add: c status_ok_members om_find_om_set)
qed (use assms in auto)



text \<open>
  Failure and recovery are inverse moves: a seed found dead leaves the seeds and is filed
  once under the dead seeds, and when it answers again it returns to the seeds (at the end)
  with the dead seeds, the commons and the addresses as they were before.
\<close>

theorem seed_dies_and_recovers:
  assumes "status_ok s" and "k \<in> set (m_seeds s)"
  shows "k \<notin> set (m_seeds (set_dead k 1 now s))
    \<and> m_dead_seeds (set_dead k 1 now s) = m_dead_seeds s @ [k]
    \<and> set_alive k (-1) now' (set_dead k 1 now s)
       = s\<lparr>m_timestamp := now', m_seeds := remove1 k (m_seeds s) @ [k]\<rparr>"
proof -
  have "k \<notin> set (m_dead_seeds s)" "distinct (m_seeds s)"
    using assms by (auto simp: status_ok_def)
  then show ?thesis
    using assms(2) by (simp add: set_dead_def set_alive_def move_item_present remove1_append)
qed

lemma seed_dies_and_recovers_witness:
  "m_dead_seeds (set_dead 7 1 9
     (status_new\<lparr>m_seeds := [7], m_configs := [(7, no_conf)]\<rparr>)) = [7]"
proof -
  have "status_ok (status_new\<lparr>m_seeds := [7], m_configs := [(7, no_conf)]\<rparr>)"
    by (auto simp: status_ok_def status_new_def dom_def om_ok_def om_find_def)
  from seed_dies_and_recovers [OF this, of 7 9] show ?thesis
    by (simp add: status_new_def)
qed

section \<open>Exchange format\<close>

lemma of_message_to_protobuf:
  assumes "om_ok (m_configs s)"
  shows "of_message (to_protobuf s) = s"
proof -
  have f: "fold (\<lambda>d. om_set (gd_kbid d) (gd_conf d)) (map (\<lambda>(k, c). Gossip_data k c) m) n
      = fold (\<lambda>(k, c). om_set k c) m n" for m and n :: "(u32, chunk_conf) omap"
    by (simp add: fold_map comp_def case_prod_beta')
  have "fold (\<lambda>(k, c). om_set k c) m n = n @ m"
    if "om_ok (n @ m)" for m n :: "(u32, chunk_conf) omap"
    using that
  proof (induction m arbitrary: n)
    case (Cons p m)
    obtain k c where p: "p = (k, c)" by (cases p)
    have "om_set k c n = n @ [(k, c)]"
      using Cons.prems by (intro om_set_last) (force simp: om_ok_def p sorted_append le_less)+
    then show ?case using Cons.IH [of "n @ [p]"] Cons.prems by (simp add: p)
  qed simp
  from this [of "[]" "m_configs s"] show ?thesis
    using assms by (simp add: of_message_def to_protobuf_def f)
qed

text \<open>
  C37: The text a chunk server publishes carries its whole view: any other server that parses
  it ends up with exactly the same view (lists in order, addresses and timestamp),
  whatever it believed before.
\<close>

theorem status_string_roundtrip:
  assumes "message_codec P" and "om_ok (m_configs s)" and "to_string P s = (True, str)"
  shows "from_string P str t = (True, s)"
  using message_codec.parse_ser [OF assms(1), of "to_protobuf s" str] assms(2,3)
  by (simp add: to_string_def from_string_def of_message_to_protobuf)

lemma status_string_roundtrip_witness:
  "from_string ref_codec (snd (to_string ref_codec (status_new\<lparr>m_seeds := [3001]\<rparr>))) status_new
     = (True, status_new\<lparr>m_seeds := [3001]\<rparr>)"
  by (rule status_string_roundtrip [OF ref_codec.message_codec_axioms])
    (simp_all add: status_new_def to_string_def)

section \<open>Three distinct alive servers\<close>

text \<open>The loop of \<open>get_random_alive_3\<close> keeps these facts about its two vectors.\<close>

definition picked :: "status \<Rightarrow> u32 list \<Rightarrow> (u32 \<times> chunk_conf) list \<Rightarrow> bool" where
  "picked s v res \<longleftrightarrow> map fst res = v \<and> distinct v \<and> length v \<le> 3
     \<and> (\<forall>(k, c) \<in> set res. k \<in> set (m_seeds s) \<union> set (m_commons s) \<and> om_find (m_configs s) k = Some c)"

lemma alive_nth_mem:
  assumes "tk < length (m_seeds s) + length (m_commons s)"
  shows "alive_nth s tk \<in> set (m_seeds s) \<union> set (m_commons s)"
  using assms by (auto simp: alive_nth_def)

lemma alive_step:
  assumes "status_ok s" and "0 < length (m_seeds s) + length (m_commons s)"
    and "tk = alive_nth s (r mod (length (m_seeds s) + length (m_commons s)))"
  obtains c where "om_find (m_configs s) tk = Some c" and "tk \<in> set (m_seeds s) \<union> set (m_commons s)"
proof -
  have "tk \<in> set (m_seeds s) \<union> set (m_commons s)"
    unfolding assms(3) using assms(2) by (intro alive_nth_mem) simp
  moreover from this have "tk \<in> dom (om_find (m_configs s))"
    using assms(1) by (auto simp: status_ok_def)
  ultimately show ?thesis using that by auto
qed

lemma alive_loop_picked:
  assumes "status_ok s" and "0 < length (m_seeds s) + length (m_commons s)" and "picked s v res"
  shows "case alive_loop draws v res s of
      Some (res', s') \<Rightarrow> s' = s \<and> (\<exists>v'. length v' = 3 \<and> picked s v' res')
    | None \<Rightarrow> (\<exists>v'. length v' < 3 \<and> set v \<subseteq> set v' \<and>
        (\<forall>r \<in> set draws. alive_nth s (r mod (length (m_seeds s) + length (m_commons s))) \<in> set v'))"
  using assms(3)
proof (induction draws arbitrary: v res)
  case Nil
  then show ?case by (subst alive_loop.simps) (auto simp: picked_def intro: exI [of _ v])
next
  case (Cons r rs)
  let ?n = "length (m_seeds s) + length (m_commons s)"
  define tk where "tk = alive_nth s (r mod ?n)"
  obtain c where c: "om_find (m_configs s) tk = Some c" "tk \<in> set (m_seeds s) \<union> set (m_commons s)"
    using alive_step [OF assms(1,2) tk_def] by blast
  consider "3 \<le> length v" | "length v < 3" "tk \<in> set v" | "length v < 3" "tk \<notin> set v" by linarith
  then show ?case
  proof cases
    case 1
    then have "length v = 3" using Cons.prems by (simp add: picked_def)
    then show ?thesis using Cons.prems by (subst alive_loop.simps) auto
  next
    case 2
    then have "alive_loop (r # rs) v res s = alive_loop rs v res s"
      by (subst alive_loop.simps) (simp add: tk_def Let_def)
    then show ?thesis
      using Cons.IH [OF Cons.prems] 2 by (auto simp: tk_def split: option.splits)
  next
    case 3
    have "alive_loop (r # rs) v res s = alive_loop rs (v @ [tk]) (res @ [(tk, c)]) s"
      using 3 c by (subst alive_loop.simps) (simp add: tk_def Let_def)
    moreover have "picked s (v @ [tk]) (res @ [(tk, c)])"
      using Cons.prems 3 c by (auto simp: picked_def)
    ultimately show ?thesis
      using Cons.IH [of "v @ [tk]" "res @ [(tk, c)]"] by (auto simp: tk_def split: option.splits)
  qed
qed

text \<open>
  C36: When \<open>get_random_alive_3\<close> reports success it hands out exactly three different ids, all
  of them alive members with their known addresses, and changes nothing; it fails exactly
  when fewer than three servers are alive; and it does return as soon as the random values
  have pointed at three different members.
\<close>

theorem get_random_alive_3_distinct:
  assumes "status_ok s"
  shows "(\<forall>b res s'. get_random_alive_3 draws s = Some (b, res, s') \<longrightarrow>
      s' = s \<and> (b \<longleftrightarrow> 3 \<le> length (m_seeds s) + length (m_commons s))
      \<and> (b \<longrightarrow> length res = 3 \<and> distinct (map fst res)
         \<and> (\<forall>(k, c) \<in> set res. k \<in> set (m_seeds s) \<union> set (m_commons s)
              \<and> om_find (m_configs s) k = Some c)))
    \<and> (3 \<le> card ((\<lambda>r. alive_nth s (r mod (length (m_seeds s) + length (m_commons s)))) ` set draws)
       \<longrightarrow> get_random_alive_3 draws s \<noteq> None)"
proof (cases "length (m_seeds s) + length (m_commons s) < 3")
  case True
  then show ?thesis by (simp add: get_random_alive_3_def)
next
  case False
  let ?f = "\<lambda>r. alive_nth s (r mod (length (m_seeds s) + length (m_commons s)))"
  have "picked s [] []" by (simp add: picked_def)
  then have L: "case alive_loop draws [] [] s of
      Some (res', s') \<Rightarrow> s' = s \<and> (\<exists>v'. length v' = 3 \<and> picked s v' res')
    | None \<Rightarrow> (\<exists>v'. length v' < 3 \<and> set [] \<subseteq> set v' \<and> (\<forall>r \<in> set draws. ?f r \<in> set v'))"
    using False by (intro alive_loop_picked [OF assms]) auto
  show ?thesis
  proof (cases "alive_loop draws [] [] s")
    case None
    then obtain v' where v': "length v' < 3" "?f ` set draws \<subseteq> set v'" using L by auto
    have "card (?f ` set draws) \<le> card (set v')" using v'(2) by (simp add: card_mono)
    also have "\<dots> < 3" using card_length [of v'] v'(1) by linarith
    finally show ?thesis using None False by (simp add: get_random_alive_3_def)
  next
    case (Some p)
    then obtain res where p: "p = (res, s)" and "\<exists>v'. length v' = 3 \<and> picked s v' res"
      using L by (cases p) auto
    then show ?thesis
      using Some False by (auto simp: get_random_alive_3_def picked_def dest: arg_cong [of _ _ length])
  qed
qed

lemma get_random_alive_3_distinct_witness:
  "\<exists>r. get_random_alive_3 [0, 1, 4, 2]
     (status_new\<lparr>m_seeds := [1, 2], m_commons := [3],
        m_configs := [(1, no_conf), (2, no_conf), (3, no_conf)]\<rparr>) = Some r"
proof -
  let ?s = "status_new\<lparr>m_seeds := [1, 2], m_commons := [3],
        m_configs := [(1, no_conf), (2, no_conf), (3, no_conf)]\<rparr>"
  have "status_ok ?s"
    by (auto simp: status_ok_def status_new_def dom_def om_ok_def om_find_def)
  moreover have "3 \<le> card ((\<lambda>r. alive_nth ?s (r mod (length (m_seeds ?s) + length (m_commons ?s))))
      ` set [0, 1, 4, 2])"
    by (simp add: alive_nth_def card_insert_if)
  ultimately show ?thesis using get_random_alive_3_distinct [of ?s "[0, 1, 4, 2]"] by auto
qed

section \<open>Start-up\<close>

lemma put_confs_keys:
  assumes "put_confs cl ks m = Ret m'" and "om_ok m"
  shows "om_ok m' \<and> dom (om_find m') = dom (om_find m) \<union> set ks"
  using assms
proof (induction ks arbitrary: m)
  case (Cons k ks)
  then obtain c where "put_confs cl ks (om_set k c m) = Ret m'" by (auto elim!: obind_RetE)
  from Cons.IH [OF this] show ?case
    using Cons.prems(2) by (auto simp: om_ok_om_set om_find_om_set)
qed simp

text \<open>A seed and a common chunk server with all their ports.\<close>

definition full_cluster :: cluster where
  "full_cluster = cluster_zero\<lparr>m_kbid := 3001, m_chunk_seed_count := 2, m_chunk_configs :=
     [[(''ChunkGossipServerPort'', ''80''), (''ChunkMachineAddress'', ''c''), (''ChunkRole'', ''Seed'')],
      [(''ChunkGossipServerPort'', ''81''), (''ChunkMachineAddress'', ''d''), (''ChunkRole'', ''Common'')]]\<rparr>"



end
