(* ===== verification/Small_Cluster.thy ===== *)
theory Small_Cluster
  imports Oplog_Base Gossip_Status
begin

text \<open>
  A small deployment for concrete runs: three masters and one chunk seed, three chunk servers
  alive, one file to upload, codecs for the messages that occur, empty stores, and a network
  whose masters agree to everything.
\<close>

definition small_master :: "string \<Rightarrow> config" where
  "small_master address =
     [(''MachineAddress'', address), (''MasterConfirmOplogPort'', ''80''), (''MasterGetOplogPort'', ''81''),
      (''MasterSentinelPort'', ''82'')]"

definition small_cluster :: "u32 \<Rightarrow> cluster" where
  "small_cluster kbid = cluster_zero\<lparr>m_kbid := kbid, m_master_server_count := 3,
     m_master_configs := [small_master ''a'', small_master ''b'', small_master ''c''],
     m_chunk_seed_count := 1,
     m_chunk_configs := [[(''ChunkGossipServerPort'', ''83''), (''ChunkMachineAddress'', ''s'')]]\<rparr>"

definition small_conf :: chunk_conf where
  "small_conf = Chunk_conf ''h'' 1 2 3 4 5"

definition small_view :: cluster_status where
  "small_view = Cluster_status [3001, 3002] [3003] [] []
     [Gossip_data 3001 small_conf, Gossip_data 3002 small_conf, Gossip_data 3003 small_conf] (Some 7)"

definition small_request :: upload_file_request where
  "small_request = Upload_file_request (Some ''u'') (Some ''f'') (Some ''d'') (Some 5)"

definition small_response :: upload_file_response where
  "small_response = Upload_file_response [''h 3001'', ''h 3002'', ''h 3003''] (Some 5) (Some ''d'')"

definition small_operation :: upload_file_operation where
  "small_operation = Upload_file_operation (Some ''uf'') (Some small_response)"

definition small_oplog :: operation_log where
  "small_oplog = Operation_log (Some 1) (Some ''0'')"

definition small_propose :: operation_log_message where
  "small_propose = Operation_log_message (Some 1) (Some (op_id 0)) (Some small_oplog)"

definition small_confirm :: operation_log_message where
  "small_confirm = Operation_log_message (Some 2) (Some (op_id 0)) None"

definition small_codecs :: "operation_log_message list \<Rightarrow> get_oplog_response list \<Rightarrow> codecs" where
  "small_codecs msgs pages =
     \<lparr>c_request = table_codec [small_request], c_response = table_codec [small_response],
      c_operation = table_codec [small_operation], c_oplog = table_codec [small_oplog],
      c_message = table_codec (small_propose # small_confirm # msgs),
      c_page = table_codec (Get_oplog_response None [] # pages)\<rparr>"

lemma small_faithful: "length msgs < 100 \<Longrightarrow> length pages < 100 \<Longrightarrow> faithful (small_codecs msgs pages)"
  by (simp add: faithful_def small_codecs_def table_codec_ok)

definition small_dbs :: "journal \<Rightarrow> journal \<Rightarrow> script_db dbs" where
  "small_dbs files log =
     \<lparr>userdata_db = \<lparr>db_conn = True, db_store = (files, [])\<rparr>,
      oplog_db = \<lparr>db_conn = True, db_store = (log, [])\<rparr>\<rparr>"

definition small_post :: "string \<Rightarrow> request" where
  "small_post data = \<lparr>find_header = Map.empty, input_buffer = base64_encode data\<rparr>"

definition agreeing_net :: "unit curl_ops" where
  "agreeing_net = net_of (\<lambda>url posted w. (Some (if url ! 7 = CHR ''s'' then base64_encode ''0'' else ''ok''), w))"

definition refusing_net :: "unit curl_ops" where
  "refusing_net = net_of (\<lambda>url posted w. (if url ! 7 = CHR ''s'' then Some (base64_encode ''0'') else None, w))"

definition small_leader :: sentinel where
  "small_leader = (start_sentinel 1 0)\<lparr>m_status := K_status_leader\<rparr>"

definition small_follower :: sentinel where
  "small_follower = (start_sentinel 2 0)\<lparr>m_status := K_status_follower, m_leader := 1\<rparr>"

lemma small_addresses:
  "get_master_ip (small_cluster k) 1 = Ret ''a''" "get_master_ip (small_cluster k) 2 = Ret ''b''"
  "get_master_ip (small_cluster k) 3 = Ret ''c''"
  "get_master_confirm_oplog_port (small_cluster k) 1 = Ret 80" "get_master_confirm_oplog_port (small_cluster k) 2 = Ret 80"
  "get_master_confirm_oplog_port (small_cluster k) 3 = Ret 80"
  "get_master_get_oplog_port (small_cluster k) 1 = Ret 81"
  "masters (small_cluster k) = [1, 2, 3]" "m_kbid (small_cluster k) = k"
  "get_master_count (small_cluster k) = 3" "m_master_server_count (small_cluster k) = 3"
  "get_random_chunk_seed_for_gossip (small_cluster k) 0 = Ret (''s'', 83)"
  by code_simp+

lemma small_urls:
  "http_url ''a'' 80 ''/ConfirmOplog'' = ''http://a:80/ConfirmOplog''"
  "http_url ''b'' 80 ''/ConfirmOplog'' = ''http://b:80/ConfirmOplog''"
  "http_url ''c'' 80 ''/ConfirmOplog'' = ''http://c:80/ConfirmOplog''"
  "http_url ''a'' 81 ''/GetOplog'' = ''http://a:81/GetOplog''"
  "http_url ''s'' 83 ''/GetStatus'' = ''http://s:83/GetStatus''"
  by code_simp+

lemma small_answers:
  "make_request_post agreeing_net ''b'' 80 ''/ConfirmOplog'' [] post () = Ret (True, ''ok'', ())"
  "make_request_post agreeing_net ''c'' 80 ''/ConfirmOplog'' [] post () = Ret (True, ''ok'', ())"
  "make_request_post refusing_net ''b'' 80 ''/ConfirmOplog'' [] post () = Ret (False, [], ())"
  "make_request_post refusing_net ''c'' 80 ''/ConfirmOplog'' [] post () = Ret (False, [], ())"
  "make_request_post agreeing_net ''s'' 83 ''/GetStatus'' [] post () = Ret (True, base64_encode ''0'', ())"
  "make_request_post refusing_net ''s'' 83 ''/GetStatus'' [] post () = Ret (True, base64_encode ''0'', ())"
  by (simp_all add: agreeing_net_def refusing_net_def net_of_post small_urls)

lemmas small_simps = small_addresses small_answers b64.dec_enc

end
