(* ===== verification/Upload_File.thy ===== *)
theory Upload_File
  imports Small_Cluster
begin

text \<open>
  \<open>server/request_handlers/upload_file_request_handler.cc\<close>: the leader registers a new file.
  It asks a chunk server for the cluster view, picks three chunk servers for the file,
  proposes the log entry to the other masters, and when more than half of all masters agree
  tells them to commit and records the operation itself.
\<close>

section \<open>Choosing the chunk servers\<close>

text \<open>
  \<open>sprintf(gsp_port, "%s %u", host, kbid)\<close> into 30 bytes, for each of the three servers.
\<close>

fun host_lines :: "(u32 \<times> chunk_conf) list \<Rightarrow> string list outcome" where
  "host_lines [] = Ret []"
| "host_lines ((kbid, c) # hs) =
     (let line = c_str (cc_host c) @ '' '' @ print_u32 kbid in
      if 30 \<le> length line then Undef
      else obind (host_lines hs) (\<lambda>ls. Ret (line # ls)))"

text \<open>
  The view is asked from a random seed; a view that cannot be fetched or parsed is an empty
  one. \<open>draws\<close> are the values of \<open>rand()\<close>; a selection that never completes is \<open>Diverge\<close>.
\<close>

definition choose_chunks ::
  "cluster_status codec \<Rightarrow> 'w curl_ops \<Rightarrow> cluster \<Rightarrow> u32 \<Rightarrow> nat list \<Rightarrow> 'w
     \<Rightarrow> ((bool \<times> (u32 \<times> chunk_conf) list) \<times> 'w) outcome" where
  "choose_chunks Ps C cl rnd draws w =
     obind (get_random_chunk_seed_for_gossip cl rnd) (\<lambda>(ip, port).
     obind (make_request_post C ip port ''/GetStatus'' [] ''Read'' w) (\<lambda>(_, response, w1).
     let view = snd (from_string Ps (base64_decode response) status_new) in
     case get_random_alive_3 draws view of
       None \<Rightarrow> Diverge
     | Some (ok, hosts, _) \<Rightarrow> Ret ((ok, hosts), w1)))"

section \<open>Two phases\<close>

text \<open>
  One message to every other master; the number of answers that are exactly \<open>ok\<close> is added
  to the count.
\<close>

fun ask_masters ::
  "'w curl_ops \<Rightarrow> cluster \<Rightarrow> string \<Rightarrow> nat list \<Rightarrow> nat \<Rightarrow> 'w \<Rightarrow> (nat \<times> 'w) outcome" where
  "ask_masters C cl post [] cnt w = Ret (cnt, w)"
| "ask_masters C cl post (i # is) cnt w =
     (if i = unat (m_kbid cl) then ask_masters C cl post is cnt w
      else
        obind (get_master_ip cl (of_nat i)) (\<lambda>ip.
        obind (get_master_confirm_oplog_port cl (of_nat i)) (\<lambda>port.
        obind (make_request_post C ip port ''/ConfirmOplog'' [] post w) (\<lambda>(_, tp_res, w1).
          ask_masters C cl post is (if tp_res = ''ok'' then cnt + 1 else cnt) w1))))"

definition phase_post :: "codecs \<Rightarrow> operation_log_message \<Rightarrow> string" where
  "phase_post M message = base64_encode (snd (ser (c_message M) message))"

definition two_phase ::
  "codecs \<Rightarrow> 'w curl_ops \<Rightarrow> cluster \<Rightarrow> string \<Rightarrow> operation_log \<Rightarrow> 'w \<Rightarrow> (bool \<times> 'w) outcome" where
  "two_phase M C cl last_key op_log w =
     (let propose = phase_post M (Operation_log_message (Some 1) (Some last_key) (Some op_log));
          confirm = phase_post M (Operation_log_message (Some 2) (Some last_key) None) in
      obind (ask_masters C cl propose (masters cl) 1 w) (\<lambda>(tp_cnt, w1).
      if tp_cnt \<le> unat (get_master_count cl) div 2 then Ret (False, w1)
      else obind (ask_masters C cl confirm (masters cl) 0 w1) (\<lambda>(_, w2). Ret (True, w2))))"

section \<open>The handler\<close>

definition upload_response ::
  "upload_file_request \<Rightarrow> string list \<Rightarrow> upload_file_response" where
  "upload_response request hosts =
     Upload_file_response hosts (Some (field 0 (ur_file_size request)))
       (Some (field [] (ur_merkle_sha1 request)))"

definition upload_key :: "upload_file_request \<Rightarrow> string" where
  "upload_key request = field [] (ur_account request) @ field [] (ur_file_name request)"

definition upload_op_log :: "codecs \<Rightarrow> string \<Rightarrow> upload_file_response \<Rightarrow> operation_log" where
  "upload_op_log M key response =
     Operation_log (Some 1) (Some (snd (ser (c_operation M) (Upload_file_operation (Some key) (Some response)))))"

text \<open>From \<open>// Two phase\<close> to the end, with the collected data.\<close>

definition upload_commit ::
  "codecs \<Rightarrow> 'w curl_ops \<Rightarrow> 'd leveldb_ops \<Rightarrow> cluster \<Rightarrow> string \<Rightarrow> upload_file_response \<Rightarrow> string
     \<Rightarrow> 'd dbs \<Rightarrow> 'w \<Rightarrow> (reply \<times> 'd dbs \<times> 'w) outcome" where
  "upload_commit M C L cl key response operation_data s w =
     obind (next_log_key L s) (\<lambda>(last_key, s1).
     let op_log = upload_op_log M key response in
     obind (two_phase M C cl last_key op_log w) (\<lambda>(agreed, w1).
     if \<not> agreed then Ret (server_send_reply_bad ''Two phase rejected..'', s1, w1)
     else
       let (ok, op_log_str) = ser (c_oplog M) op_log in
       if \<not> ok then Ret (server_send_reply_bad ''Serialize op_log failed'', s1, w1)
       else
         obind (record_operation L last_key op_log_str key operation_data s1) (\<lambda>(r, s2).
           Ret (case r of
                  Log_failed \<Rightarrow> server_send_reply_bad ''put in oplog failed''
                | Data_failed \<Rightarrow> server_send_reply_bad ''put in userdata failed''
                | Recorded \<Rightarrow> server_send_reply_ok (base64_encode operation_data), s2, w1))))"

text \<open>
  \<open>while (status == k_status_consensus);\<close> tests a local copy that nothing changes.
\<close>

definition upload_file_handler ::
  "codecs \<Rightarrow> cluster_status codec \<Rightarrow> 'w curl_ops \<Rightarrow> 'd leveldb_ops \<Rightarrow> cluster \<Rightarrow> u32 \<Rightarrow> nat list
     \<Rightarrow> sentinel \<Rightarrow> request \<Rightarrow> 'd dbs \<Rightarrow> 'w \<Rightarrow> (reply \<times> 'd dbs \<times> 'w) outcome" where
  "upload_file_handler M Ps C L cl rnd draws sentinel req s w =
     (let status = get_status sentinel in
      if status = K_status_consensus then Diverge
      else if status = K_status_follower then Ret (server_send_reply_bad ''Service denied...'', s, w)
      else
        let (got, request_body) = server_get_postdata req [] in
        if \<not> got then Ret (server_send_reply_bad ''Can't read post data...'', s, w)
        else
          let request = snd (parse (c_request M) (base64_decode request_body)) in
          obind (choose_chunks Ps C cl rnd draws w) (\<lambda>((ready, hosts), w1).
          if \<not> ready then Ret (server_send_reply_bad ''Chunk server not ready...'', s, w1)
          else
            obind (host_lines hosts) (\<lambda>lines.
            let response = upload_response request lines;
                (ok, operation_data) = ser (c_response M) response in
            if \<not> ok then Ret (server_send_reply_bad ''Fail to serialize protobuf'', s, w1)
            else
              let key = upload_key request in
              obind (db_exist L key (userdata_db s)) (\<lambda>(existed, u1).
              let s1 = s\<lparr>userdata_db := u1\<rparr> in
              if existed then Ret (server_send_reply_bad (key @ ''Filename existed...''), s1, w1)
              else upload_commit M C L cl key response operation_data s1 w1))))"

section \<open>What the replies mean\<close>

lemma upload_commit_cases:
  assumes "upload_commit M C L cl key response data s w = Ret (reply, s', w')"
  obtains (rejected) last_key s1 where "next_log_key L s = Ret (last_key, s1)" "s' = s1" "\<not> is_ok reply"
      "two_phase M C cl last_key (upload_op_log M key response) w = Ret (False, w')"
    | (unserialised) last_key s1 where "next_log_key L s = Ret (last_key, s1)" "s' = s1" "\<not> is_ok reply"
      "\<not> fst (ser (c_oplog M) (upload_op_log M key response))"
    | (written) last_key s1 r where "next_log_key L s = Ret (last_key, s1)"
      "two_phase M C cl last_key (upload_op_log M key response) w = Ret (True, w')"
      "record_operation L last_key (snd (ser (c_oplog M) (upload_op_log M key response))) key data s1 = Ret (r, s')"
      "is_ok reply \<longleftrightarrow> r = Recorded" "is_ok reply \<Longrightarrow> body_of reply = base64_encode data"
      "r \<noteq> Recorded \<Longrightarrow> body_of reply \<in> {''put in oplog failed'', ''put in userdata failed''}"
proof -
  obtain last_key s1 where 1: "next_log_key L s = Ret (last_key, s1)"
    and a: "obind (two_phase M C cl last_key (upload_op_log M key response) w) (\<lambda>(agreed, w1).
     if \<not> agreed then Ret (server_send_reply_bad ''Two phase rejected..'', s1, w1)
     else
       let (ok, op_log_str) = ser (c_oplog M) (upload_op_log M key response) in
       if \<not> ok then Ret (server_send_reply_bad ''Serialize op_log failed'', s1, w1)
       else
         obind (record_operation L last_key op_log_str key data s1) (\<lambda>(r, s2).
           Ret (case r of
                  Log_failed \<Rightarrow> server_send_reply_bad ''put in oplog failed''
                | Data_failed \<Rightarrow> server_send_reply_bad ''put in userdata failed''
                | Recorded \<Rightarrow> server_send_reply_ok (base64_encode data), s2, w1))) = Ret (reply, s', w')"
    using assms unfolding upload_commit_def Let_def by (elim obind_RetE) (simp split: prod.splits)
  then obtain agreed w1 where 2: "two_phase M C cl last_key (upload_op_log M key response) w = Ret (agreed, w1)"
    by (auto elim: obind_RetE)
  show ?thesis
  proof (cases agreed)
    case False
    then show ?thesis using rejected 1 2 a by auto
  next
    case True
    show ?thesis
    proof (cases "fst (ser (c_oplog M) (upload_op_log M key response))")
      case False
      then show ?thesis using unserialised 1 2 a \<open>agreed\<close> by (auto split: prod.splits)
    next
      case ok: True
      then have "obind (record_operation L last_key (snd (ser (c_oplog M) (upload_op_log M key response))) key data s1)
          (\<lambda>(r, s2). Ret (case r of
                  Log_failed \<Rightarrow> server_send_reply_bad ''put in oplog failed''
                | Data_failed \<Rightarrow> server_send_reply_bad ''put in userdata failed''
                | Recorded \<Rightarrow> server_send_reply_ok (base64_encode data), s2, w1)) = Ret (reply, s', w')"
        using 2 a True by (simp add: Let_def split: prod.splits)
      then obtain r where r: "record_operation L last_key (snd (ser (c_oplog M) (upload_op_log M key response))) key data s1
          = Ret (r, s')" "w' = w1" "reply = (case r of
                  Log_failed \<Rightarrow> server_send_reply_bad ''put in oplog failed''
                | Data_failed \<Rightarrow> server_send_reply_bad ''put in userdata failed''
                | Recorded \<Rightarrow> server_send_reply_ok (base64_encode data))"
        by (auto elim!: obind_RetE)
      show ?thesis
        using 1 2 True r by (intro written [OF 1 _ r(1)]) (auto simp: b64.enc_c_str split: recorded.splits)
    qed
  qed
qed

text \<open>From the choice of chunk servers on: refused, or on to the user data.\<close>

lemma upload_ready:
  assumes "obind (choose_chunks Ps C cl rnd draws w) (\<lambda>((ready, hosts), w1).
      if \<not> ready then Ret (server_send_reply_bad a, s, w1)
      else
        obind (host_lines hosts) (\<lambda>lines.
        let response = upload_response request lines;
            (ok, operation_data) = ser (c_response M) response in
        if \<not> ok then Ret (server_send_reply_bad b, s, w1)
        else K response operation_data w1)) = Ret (reply, s', w')"
  obtains (refused) "\<not> is_ok reply" "s' = s"
    | (ready) lines w1 where "fst (ser (c_response M) (upload_response request lines))"
      "K (upload_response request lines) (snd (ser (c_response M) (upload_response request lines))) w1 = Ret (reply, s', w')"
proof -
  obtain ready hosts w1 where c: "choose_chunks Ps C cl rnd draws w = Ret ((ready, hosts), w1)"
    using assms by (auto elim: obind_RetE)
  show ?thesis
  proof (cases ready)
    case False
    then show ?thesis using assms c refused by auto
  next
    case True
    then obtain lines where l: "host_lines hosts = Ret lines"
      using assms c by (auto elim: obind_RetE)
    show ?thesis
    proof (cases "fst (ser (c_response M) (upload_response request lines))")
      case False
      then show ?thesis using assms c l \<open>ready\<close> refused by (auto simp: Let_def split: prod.splits)
    next
      case ok: True
      then obtain data where d: "ser (c_response M) (upload_response request lines) = (True, data)"
        by (metis prod.collapse)
      show ?thesis using ready [of lines w1] assms c l \<open>ready\<close> d by (simp add: Let_def)
    qed
  qed
qed

lemma upload_handler_cases:
  assumes "upload_file_handler M Ps C L cl rnd draws sentinel req s w = Ret (reply, s', w')"
  obtains (refused) "\<not> is_ok reply" "s' = s"
    | (existed) request u1 where "\<not> is_ok reply" "s' = s\<lparr>userdata_db := u1\<rparr>"
      "db_exist L (upload_key request) (userdata_db s) = Ret (True, u1)"
    | (committed) request lines u1 w1 where "get_status sentinel = K_status_leader"
      "request = snd (parse (c_request M) (base64_decode (input_buffer req)))"
      "fst (ser (c_response M) (upload_response request lines))"
      "db_exist L (upload_key request) (userdata_db s) = Ret (False, u1)"
      "upload_commit M C L cl (upload_key request) (upload_response request lines)
         (snd (ser (c_response M) (upload_response request lines))) (s\<lparr>userdata_db := u1\<rparr>) w1 = Ret (reply, s', w')"
proof (cases "get_status sentinel = K_status_leader \<and> fst (server_get_postdata req [])")
  case False
  then show ?thesis
    using assms refused
    by (cases "get_status sentinel") (auto simp: upload_file_handler_def Let_def split: prod.splits if_splits)
next
  case True
  define request where "request = snd (parse (c_request M) (base64_decode (input_buffer req)))"
  have body: "server_get_postdata req [] = (True, input_buffer req)"
    using True by (auto simp: server_get_postdata_def Let_def split: if_splits)
  have run: "obind (choose_chunks Ps C cl rnd draws w) (\<lambda>((ready, hosts), w1).
          if \<not> ready then Ret (server_send_reply_bad ''Chunk server not ready...'', s, w1)
          else
            obind (host_lines hosts) (\<lambda>lines.
            let response = upload_response request lines;
                (ok, operation_data) = ser (c_response M) response in
            if \<not> ok then Ret (server_send_reply_bad ''Fail to serialize protobuf'', s, w1)
            else
              obind (db_exist L (upload_key request) (userdata_db s)) (\<lambda>(existed, u1).
              if existed then Ret (server_send_reply_bad (upload_key request @ ''Filename existed...''), s\<lparr>userdata_db := u1\<rparr>, w1)
              else upload_commit M C L cl (upload_key request) response operation_data (s\<lparr>userdata_db := u1\<rparr>) w1)))
        = Ret (reply, s', w')"
    using assms True unfolding upload_file_handler_def request_def Let_def body by simp
  then show ?thesis
  proof (cases rule: upload_ready)
    case (ready lines w1)
    then obtain ex u1 where "db_exist L (upload_key request) (userdata_db s) = Ret (ex, u1)"
      by (auto elim: obind_RetE)
    then show ?thesis
      using ready existed [of u1 request] committed [OF _ request_def ready(1), of u1 w1] True by (cases ex) auto
  qed (rule refused)
qed

lemma two_phase_True:
  assumes "two_phase M C cl last_key op_log w = Ret (True, w')"
  shows "\<exists>cnt w1. ask_masters C cl (phase_post M (Operation_log_message (Some 1) (Some last_key) (Some op_log)))
      (masters cl) 1 w = Ret (cnt, w1) \<and> unat (m_master_server_count cl) < 2 * cnt"
proof -
  obtain cnt w1 where 1: "ask_masters C cl (phase_post M (Operation_log_message (Some 1) (Some last_key) (Some op_log)))
      (masters cl) 1 w = Ret (cnt, w1)"
    and 2: "\<not> cnt \<le> unat (m_master_server_count cl) div 2"
    using assms unfolding two_phase_def Let_def get_master_count_def
    by (elim obind_RetE) (auto split: if_splits)
  have "unat (m_master_server_count cl) < 2 * cnt"
    using 2 unfolding majority_iff by simp
  then show ?thesis using 1 by blast
qed

lemma dbs_update [simp]:
  "log_of stored (s\<lparr>userdata_db := u\<rparr>) = log_of stored s"
  "files_of stored (s\<lparr>userdata_db := u\<rparr>) = stored (db_store u)"
  by (simp_all add: log_of_def files_of_def)

lemma exist_content:
  "leveldb L stored \<Longrightarrow> db_exist L k (userdata_db s) = Ret (b, u) \<Longrightarrow> stored (db_store u) = files_of stored s"
  using kv_store.exist_frame [OF leveldb.axioms_kv] by (fastforce simp: files_of_def)

text \<open>
  C3: An upload is acknowledged only by the leader, only after more than half of all masters
  (itself included) agreed to the log entry, and only when it is recorded: its entry is in
  the log, the file's record is in the user data under account and name, nothing else in
  the two stores has changed, and the reply is that record.
\<close>

theorem upload_acknowledged:
  assumes "leveldb L stored"
    and "upload_file_handler M Ps C L cl rnd draws sentinel req s w = Ret (reply, s', w')" and "is_ok reply"
  shows "m_status sentinel = K_status_leader \<and> (\<exists>request response data key op_log w1 w2 cnt.
      request = snd (parse (c_request M) (base64_decode (input_buffer req)))
    \<and> ser (c_response M) response = (True, data)
    \<and> fr_file_size response = Some (field 0 (ur_file_size request))
    \<and> fr_merkle_sha1 response = Some (field [] (ur_merkle_sha1 request))
    \<and> op_log = upload_op_log M (upload_key request) response
    \<and> ask_masters C cl (phase_post M (Operation_log_message (Some 1) (Some key) (Some op_log))) (masters cl) 1 w1
        = Ret (cnt, w2)
    \<and> unat (m_master_server_count cl) < 2 * cnt
    \<and> log_of stored s' = om_set key (snd (ser (c_oplog M) op_log)) (log_of stored s)
    \<and> files_of stored s' = om_set (upload_key request) data (files_of stored s)
    \<and> base64_decode (body_of reply) = data)"
  using assms(2)
proof (cases rule: upload_handler_cases)
  case (committed request lines u1 w1)
  let ?s = "s\<lparr>userdata_db := u1\<rparr>" and ?response = "upload_response request lines"
  have frame: "log_of stored ?s = log_of stored s" "files_of stored ?s = files_of stored s"
    using exist_content [OF assms(1) committed(4)] by simp_all
  from committed(5) show ?thesis
  proof (cases rule: upload_commit_cases)
    case (written key s1 r)
    have r: "r = Recorded" using written(4) assms(3) by simp
    obtain cnt w2 where cnt: "ask_masters C cl (phase_post M (Operation_log_message (Some 1) (Some key)
        (Some (upload_op_log M (upload_key request) ?response)))) (masters cl) 1 w1 = Ret (cnt, w2)"
      "unat (m_master_server_count cl) < 2 * cnt"
      using two_phase_True [OF written(2)] by blast
    note key = next_log_key_content [OF assms(1) written(1), unfolded frame]
    note rec = record_operation_Recorded [OF assms(1) written(3) [unfolded r], unfolded key]
    have "ser (c_response M) ?response = (True, snd (ser (c_response M) ?response))"
      using committed(3) by (simp add: prod_eq_iff)
    moreover have "base64_decode (body_of reply) = snd (ser (c_response M) ?response)"
      using written(5) assms(3) by (simp add: b64.dec_enc)
    ultimately show ?thesis
      using committed(1,2) cnt rec by (intro conjI exI) (auto simp: get_status_def upload_response_def)
  qed (use assms(3) in auto)
qed (use assms(3) in auto)


text \<open>
  The leader's log stays a gap-free sequence: on a log with the keys \<open>op_ids n\<close> (whose last
  key can be read) an acknowledged upload appends exactly one entry, under \<open>op_id n\<close>.
\<close>

theorem upload_appends:
  assumes "leveldb L stored" and "log_ok stored n s" and "Suc n < 2 ^ 64"
    and "n = 0 \<or> (\<exists>k o1. db_fetch_last_key L (oplog_db s) = Ret (Some k, o1))"
    and "upload_file_handler M Ps C L cl rnd draws sentinel req s w = Ret (reply, s', w')" and "is_ok reply"
  shows "log_ok stored (Suc n) s' \<and> (\<exists>entry. log_of stored s' = log_of stored s @ [(op_id n, entry)])"
  using assms(5)
proof (cases rule: upload_handler_cases)
  case (committed request lines u1 w1)
  let ?s = "s\<lparr>userdata_db := u1\<rparr>" and ?response = "upload_response request lines"
  have frame: "log_of stored ?s = log_of stored s" by simp
  from committed(5) show ?thesis
  proof (cases rule: upload_commit_cases)
    case (written key s1 r)
    have r: "r = Recorded" using written(4) assms(6) by simp
    have "log_ok stored n ?s" using assms(2) by (simp add: log_ok_def)
    then have "key = op_id n"
      using next_log_key_op_id [OF assms(1) _ written(1)] assms(4) by auto
    moreover note next_log_key_content(1) [OF assms(1) written(1), unfolded frame]
    moreover note record_operation_Recorded(1) [OF assms(1) written(3) [unfolded r]]
    ultimately show ?thesis
      using log_ok_append [OF assms(1,2) _ assms(3), of s'] by auto
  qed (use assms(6) in auto)
qed (use assms(6) in auto)

section \<open>Concrete runs\<close>

definition small_upload :: "unit curl_ops \<Rightarrow> (reply \<times> script_db dbs \<times> unit) outcome" where
  "small_upload C = upload_file_handler (small_codecs [] []) (table_codec [small_view]) C script_ldb
     (small_cluster 1) 0 [0, 4, 8] small_leader (small_post ''0'') (small_dbs [] []) ()"

lemma small_choice:
  "C \<in> {agreeing_net, refusing_net} \<Longrightarrow>
    choose_chunks (table_codec [small_view]) C (small_cluster 1) 0 [0, 4, 8] ()
      = Ret ((True, [(3001, small_conf), (3002, small_conf), (3003, small_conf)]), ())"
proof -
  have "get_random_alive_3 [0, 4, 8] (snd (from_string (table_codec [small_view]) ''0'' status_new))
    = Some (True, [(3001, small_conf), (3002, small_conf), (3003, small_conf)],
        snd (from_string (table_codec [small_view]) ''0'' status_new))"
    by code_simp
  then show "C \<in> {agreeing_net, refusing_net} \<Longrightarrow> ?thesis" by (auto simp: choose_chunks_def small_simps)
qed

lemma small_two_phase:
  "two_phase M agreeing_net (small_cluster 1) i op () = Ret (True, ())"
  "two_phase M refusing_net (small_cluster 1) i op () = Ret (False, ())"
  by (simp_all add: two_phase_def small_simps)

lemma small_body: "server_get_postdata (small_post ''0'') [] = (True, base64_encode ''0'')"
proof -
  have "base64_encode ''0'' = ''MA==''" by code_simp
  then show ?thesis by (simp add: small_post_def get_postdata_True k_server_max_post_data_size_def)
qed

lemma small_lines:
  "host_lines [(3001, small_conf), (3002, small_conf), (3003, small_conf)] = Ret (fr_file_hosts small_response)"
proof -
  have "digit_char 3 = CHR ''3''" "digit_char 0 = CHR ''0''" "digit_char 1 = CHR ''1''" "digit_char 2 = CHR ''2''"
    by code_simp+
  then show ?thesis
    by (simp add: small_conf_def small_response_def print_u32_def print_nat.simps c_str_def Let_def)
qed

lemma small_codes:
  "parse (c_request (small_codecs [] [])) ''0'' = (True, small_request)"
  "upload_response small_request (fr_file_hosts small_response) = small_response"
  "ser (c_response (small_codecs [] [])) small_response = (True, ''0'')"
  "ser (c_oplog (small_codecs [] [])) small_oplog = (True, ''0'')"
  "upload_key small_request = ''uf''"
  "upload_op_log (small_codecs [] []) ''uf'' small_response = small_oplog"
  "db_exist script_ldb ''uf'' (userdata_db (small_dbs [] [])) = Ret (False, userdata_db (small_dbs [] []))"
  "next_log_key script_ldb (small_dbs [] []) = Ret (op_id 0, small_dbs [] [])"
  "record_operation script_ldb (op_id 0) ''0'' ''uf'' ''0'' (small_dbs [] [])
     = Ret (Recorded, small_dbs [(''uf'', Some ''0'')] [(op_id 0, Some ''0'')])"
  by code_simp+

lemma small_upload_runs:
  "small_upload agreeing_net = Ret (Reply_ok (base64_encode ''0''),
     small_dbs [(''uf'', Some ''0'')] [(op_id 0, Some ''0'')], ())"
  "small_upload refusing_net = Ret (Reply_bad ''Two phase rejected..'', small_dbs [] [], ())"
proof -
  have [simp]: "small_dbs [] []\<lparr>userdata_db := userdata_db (small_dbs [] [])\<rparr> = small_dbs [] []" by simp
  have [simp]: "server_send_reply_bad ''Two phase rejected..'' = Reply_bad ''Two phase rejected..''" by code_simp
  show "small_upload agreeing_net = Ret (Reply_ok (base64_encode ''0''),
     small_dbs [(''uf'', Some ''0'')] [(op_id 0, Some ''0'')], ())"
    "small_upload refusing_net = Ret (Reply_bad ''Two phase rejected..'', small_dbs [] [], ())"
    by (simp_all del: host_lines.simps add: small_upload_def upload_file_handler_def upload_commit_def small_leader_def
        get_status_def small_body small_lines
        small_codes small_choice small_two_phase b64.dec_enc server_send_reply_ok_def b64.enc_c_str Let_def)
qed

lemma upload_acknowledged_witness:
  "\<exists>response data. ser (table_codec [small_response]) response = (True, data)
    \<and> files_of journal_content (small_dbs [(''uf'', Some ''0'')] [(op_id 0, Some ''0'')])
      = om_set ''uf'' data (files_of journal_content (small_dbs [] []))"
proof -
  have "parse (c_request (small_codecs [] [])) (base64_decode (input_buffer (small_post ''0''))) = (True, small_request)"
    using small_codes(1) by (simp add: small_post_def b64.dec_enc)
  moreover have "c_response (small_codecs [] []) = table_codec [small_response]" by (simp add: small_codecs_def)
  ultimately show ?thesis
    using upload_acknowledged [OF script.leveldb_axioms small_upload_runs(1) [unfolded small_upload_def]]
    by (auto simp: small_codes(5))
qed


lemma upload_appends_witness:
  "log_ok journal_content 1 (small_dbs [(''uf'', Some ''0'')] [(op_id 0, Some ''0'')])"
proof -
  have "log_ok journal_content 0 (small_dbs [] [])"
    by (simp add: log_ok_def op_ids_def log_of_def small_dbs_def journal_content_def)
  from upload_appends [OF script.leveldb_axioms this _ _ small_upload_runs(1) [unfolded small_upload_def]]
  show ?thesis by simp
qed

end
