(* ===== verification/Confirm_Oplog.thy ===== *)
theory Confirm_Oplog
  imports Upload_File
begin

text \<open>
  \<open>server/request_handlers/confirm_oplog_request_handler.cc\<close>: the follower's side of the two
  phases. State 1 of a message proposes a log entry, state 2 commits the proposed one; a
  follower whose log does not end right before the proposed id first fetches the missing
  entries from the leader.
\<close>

section \<open>State\<close>

record confirm_state =
  m_state :: bool
  m_state_id :: string
  m_state_data :: operation_log

definition confirm_new :: confirm_state where
  "confirm_new = \<lparr>m_state = False, m_state_id = [], m_state_data = Operation_log None None\<rparr>"

section \<open>Fetching missing entries\<close>

text \<open>
  One entry of a page: only uploads are recorded, under the running id, which they advance.
  The result: whether to go on, the running id, the stores.
\<close>

definition apply_entry ::
  "codecs \<Rightarrow> 'd leveldb_ops \<Rightarrow> string \<Rightarrow> string \<Rightarrow> 'd dbs \<Rightarrow> (bool \<times> string \<times> 'd dbs) outcome" where
  "apply_entry M L item current s =
     (let op_log = snd (parse (c_oplog M) item) in
      if field 0 (ol_op_type op_log) \<noteq> 1 then Ret (True, current, s)
      else
        let op = snd (parse (c_operation M) (field [] (ol_log_data op_log)));
            (ok, operation_data) = ser (c_response M) (op_data op) in
        if \<not> ok then Ret (False, current, s)
        else
          obind (record_operation L current item (field [] (fo_key op)) operation_data s) (\<lambda>(r, s1).
          if r \<noteq> Recorded then Ret (False, current, s1)
          else obind (add_one current) (\<lambda>(_, next). Ret (True, next, s1))))"

fun apply_page ::
  "codecs \<Rightarrow> 'd leveldb_ops \<Rightarrow> string list \<Rightarrow> string \<Rightarrow> 'd dbs \<Rightarrow> (bool \<times> string \<times> 'd dbs) outcome" where
  "apply_page M L [] current s = Ret (True, current, s)"
| "apply_page M L (item # items) current s =
     obind (apply_entry M L item current s) (\<lambda>(ok, current1, s1).
       if ok then apply_page M L items current1 s1 else Ret (False, current1, s1))"

text \<open>
  \<open>while (true)\<close>: every turn asks for the entries from \<open>wanted\<close> on, the \<open>last_id\<close> the caller
  passed; only the running id moves. Fuel bounds the number of turns; running out of it is
  \<open>Diverge\<close>.
\<close>

fun update_loop ::
  "codecs \<Rightarrow> 'w curl_ops \<Rightarrow> 'd leveldb_ops \<Rightarrow> cluster \<Rightarrow> u32 \<Rightarrow> string \<Rightarrow> string \<Rightarrow> nat \<Rightarrow> string
     \<Rightarrow> 'd dbs \<Rightarrow> 'w \<Rightarrow> (bool \<times> 'd dbs \<times> 'w) outcome" where
  "update_loop M C L cl leader wanted target 0 current s w = Diverge"
| "update_loop M C L cl leader wanted target (Suc fuel) current s w =
     obind (get_master_ip cl leader) (\<lambda>ip.
     obind (get_master_get_oplog_port cl leader) (\<lambda>port.
     obind (make_request_post C ip port ''/GetOplog'' [] (base64_encode wanted) w) (\<lambda>(sent, response, w1).
       if \<not> sent then Ret (False, s, w1)
       else
         let data = snd (parse (c_page M) (base64_decode response)) in
         obind (apply_page M L (go_log_data data) current s) (\<lambda>(ok, current1, s1).
           if \<not> ok then Ret (False, s1, w1)
           else if current1 = target then Ret (True, s1, w1)
           else update_loop M C L cl leader wanted target fuel current1 s1 w1))))"

definition update_oplog ::
  "codecs \<Rightarrow> 'w curl_ops \<Rightarrow> 'd leveldb_ops \<Rightarrow> cluster \<Rightarrow> nat \<Rightarrow> sentinel \<Rightarrow> string \<Rightarrow> string
     \<Rightarrow> 'd dbs \<Rightarrow> 'w \<Rightarrow> (bool \<times> 'd dbs \<times> 'w) outcome" where
  "update_oplog M C L cl fuel sentinel last_id target_id s w =
     update_loop M C L cl (get_leader sentinel) last_id target_id fuel last_id s w"

section \<open>The handler\<close>

text \<open>State 1: a proposal.\<close>

definition handle_propose ::
  "codecs \<Rightarrow> 'w curl_ops \<Rightarrow> 'd leveldb_ops \<Rightarrow> cluster \<Rightarrow> nat \<Rightarrow> sentinel \<Rightarrow> operation_log_message
     \<Rightarrow> confirm_state \<Rightarrow> 'd dbs \<Rightarrow> 'w \<Rightarrow> (reply \<times> confirm_state \<times> 'd dbs \<times> 'w) outcome" where
  "handle_propose M C L cl fuel sentinel message m s w =
     (let m1 = m\<lparr>m_state_id := field [] (om_op_id message)\<rparr>;
          m2 = m1\<lparr>m_state := True, m_state_data := msg_op_log message\<rparr> in
      obind (next_log_key L s) (\<lambda>(last_id, s1).
        if last_id = m_state_id m1 then Ret (server_send_reply_ok ''ok'', m2, s1, w)
        else
          obind (update_oplog M C L cl fuel sentinel last_id (m_state_id m1) s1 w) (\<lambda>(updated, s2, w1).
            if updated then Ret (server_send_reply_bad ''ok'', m2, s2, w1)
            else Ret (server_send_reply_bad ''no ok'', m1, s2, w1))))"

text \<open>State 2: a commit. Nothing resets the proposal.\<close>

definition handle_commit ::
  "codecs \<Rightarrow> 'd leveldb_ops \<Rightarrow> operation_log_message \<Rightarrow> confirm_state \<Rightarrow> 'd dbs \<Rightarrow> (reply \<times> 'd dbs) outcome" where
  "handle_commit M L message m s =
     (if \<not> m_state m then Ret (server_send_reply_bad ''System error'', s)
      else
        let current_id = field [] (om_op_id message) in
        if current_id \<noteq> m_state_id m then Ret (server_send_reply_bad ''No such current id'', s)
        else if field 0 (ol_op_type (m_state_data m)) \<noteq> 1
        then Ret (server_send_reply_bad ''No such operation type...'', s)
        else
          let operation = snd (parse (c_operation M) (field [] (ol_log_data (m_state_data m))));
              (ok1, op_log_str) = ser (c_oplog M) (m_state_data m) in
          if \<not> ok1 then Ret (server_send_reply_bad ''Serialize op_log failed'', s)
          else
            let (ok2, operation_data) = ser (c_response M) (op_data operation) in
            if \<not> ok2 then Ret (server_send_reply_bad ''Serialize op_data failed'', s)
            else
              obind (record_operation L current_id op_log_str (field [] (fo_key operation)) operation_data s)
                (\<lambda>(r, s1).
                  Ret (case r of
                         Log_failed \<Rightarrow> server_send_reply_bad ''put in oplog failed''
                       | Data_failed \<Rightarrow> server_send_reply_bad ''put in userdata failed''
                       | Recorded \<Rightarrow> server_send_reply_ok ''ok'', s1)))"

definition confirm_oplog_handler ::
  "codecs \<Rightarrow> 'w curl_ops \<Rightarrow> 'd leveldb_ops \<Rightarrow> cluster \<Rightarrow> nat \<Rightarrow> sentinel \<Rightarrow> request
     \<Rightarrow> confirm_state \<Rightarrow> 'd dbs \<Rightarrow> 'w \<Rightarrow> (reply \<times> confirm_state \<times> 'd dbs \<times> 'w) outcome" where
  "confirm_oplog_handler M C L cl fuel sentinel req m s w =
     (if get_status sentinel = K_status_leader then Ret (server_send_reply_bad ''System error'', m, s, w)
      else
        let (got, request_body) = server_get_postdata req [] in
        if \<not> got then Ret (server_send_reply_bad ''Can't read post data.'', m, s, w)
        else
          let (parsed, message) = parse (c_message M) (base64_decode request_body) in
          if \<not> parsed then Ret (server_send_reply_bad ''Can't parse from post data'', m, s, w)
          else
            let state = field 0 (om_state message) in
            if state = 1 then handle_propose M C L cl fuel sentinel message m s w
            else if state = 2 then
              obind (handle_commit M L message m s) (\<lambda>(reply, s1). Ret (reply, m, s1, w))
            else Ret (server_send_reply_bad ''System error'', m, s, w))"

section \<open>Recording a page\<close>

text \<open>The key and file record of an entry that is a readable upload.\<close>

definition upload_item :: "codecs \<Rightarrow> string \<Rightarrow> (string \<times> string) option" where
  "upload_item M item =
     (let op_log = snd (parse (c_oplog M) item);
          op = snd (parse (c_operation M) (field [] (ol_log_data op_log)));
          (ok, data) = ser (c_response M) (op_data op) in
      if field 0 (ol_op_type op_log) = 1 \<and> ok then Some (field [] (fo_key op), data) else None)"

definition record_item :: "codecs \<Rightarrow> string \<Rightarrow> (string, string) omap \<Rightarrow> (string, string) omap" where
  "record_item M item files = (case upload_item M item of Some (key, data) \<Rightarrow> om_set key data files | None \<Rightarrow> files)"

lemma apply_entry_upload:
  assumes "upload_item M item = Some (key, data)"
  shows "apply_entry M L item current s =
    obind (record_operation L current item key data s) (\<lambda>(r, s1).
      if r \<noteq> Recorded then Ret (False, current, s1) else obind (add_one current) (\<lambda>(_, next). Ret (True, next, s1)))"
  using assms by (simp add: upload_item_def apply_entry_def Let_def split: prod.splits if_splits)

lemma log_ok_snd:
  assumes "leveldb L stored" and "log_ok stored n s" and "log_of stored s' = om_set (op_id n) v (log_of stored s)"
    and "Suc n < 2 ^ 64"
  shows "log_ok stored (Suc n) s'" and "map snd (log_of stored s') = map snd (log_of stored s) @ [v]"
  using log_ok_append [OF assms] by simp_all

lemma apply_entry_works:
  assumes "reliable_db L stored" and "dbs_up s" and "log_ok stored n s" and "Suc n < 2 ^ 64"
    and "upload_item M item \<noteq> None"
  shows "\<exists>s'. apply_entry M L item (op_id n) s = Ret (True, op_id (Suc n), s') \<and> dbs_up s'
    \<and> log_ok stored (Suc n) s' \<and> map snd (log_of stored s') = map snd (log_of stored s) @ [item]
    \<and> files_of stored s' = record_item M item (files_of stored s)"
proof -
  obtain key data where i: "upload_item M item = Some (key, data)" using assms(5) by auto
  obtain s' where s': "record_operation L (op_id n) item key data s = Ret (Recorded, s')" "dbs_up s'"
      "log_of stored s' = om_set (op_id n) item (log_of stored s)" "files_of stored s' = om_set key data (files_of stored s)"
    using record_operation_works [OF assms(1,2)] by blast
  obtain r where r: "add_one (op_id n) = Ret (r, op_id (Suc n))" using add_one_op_id by blast
  show ?thesis
    using s' r log_ok_snd [OF reliable_db.axioms(1) [OF assms(1)] assms(3) s'(3) assms(4)]
    by (simp add: apply_entry_upload [OF i] record_item_def i)
qed

lemma apply_page_works:
  assumes "reliable_db L stored" and "dbs_up s" and "log_ok stored n s" and "n + length items < 2 ^ 64"
    and "\<forall>item \<in> set items. upload_item M item \<noteq> None"
  shows "\<exists>s'. apply_page M L items (op_id n) s = Ret (True, op_id (n + length items), s') \<and> dbs_up s'
    \<and> log_ok stored (n + length items) s' \<and> map snd (log_of stored s') = map snd (log_of stored s) @ items
    \<and> files_of stored s' = fold (record_item M) items (files_of stored s)"
  using assms(2-5)
proof (induction items arbitrary: n s)
  case Nil
  then show ?case by simp
next
  case (Cons item items)
  then obtain s1 where 1: "apply_entry M L item (op_id n) s = Ret (True, op_id (Suc n), s1)" "dbs_up s1"
      "log_ok stored (Suc n) s1" "map snd (log_of stored s1) = map snd (log_of stored s) @ [item]"
      "files_of stored s1 = record_item M item (files_of stored s)"
    using apply_entry_works [OF assms(1) Cons.prems(1,2), of M item] by auto
  have "Suc n + length items < 2 ^ 64" using Cons.prems(3) by simp
  with Cons.IH [OF 1(2,3)] Cons.prems(4) 1 show ?case by auto
qed

section \<open>The update loop against a leader with a fixed answer\<close>

definition serves :: "'w curl_ops \<Rightarrow> cluster \<Rightarrow> u32 \<Rightarrow> string \<Rightarrow> string \<Rightarrow> bool" where
  "serves C cl leader wanted response \<longleftrightarrow>
     (\<exists>ip port. get_master_ip cl leader = Ret ip \<and> get_master_get_oplog_port cl leader = Ret port
       \<and> (\<forall>w. \<exists>w'. make_request_post C ip port ''/GetOplog'' [] (base64_encode wanted) w = Ret (True, response, w')))"

lemma update_loop_turn:
  assumes "serves C cl leader wanted response" and "reliable_db L stored" and "dbs_up s" and "log_ok stored n s"
    and "items = go_log_data (snd (parse (c_page M) (base64_decode response)))"
    and "\<forall>item \<in> set items. upload_item M item \<noteq> None" and "n + length items < 2 ^ 64"
  shows "\<exists>s' w'. update_loop M C L cl leader wanted target (Suc fuel) (op_id n) s w =
      (if op_id (n + length items) = target then Ret (True, s', w')
       else update_loop M C L cl leader wanted target fuel (op_id (n + length items)) s' w')
    \<and> dbs_up s' \<and> log_ok stored (n + length items) s' \<and> map snd (log_of stored s') = map snd (log_of stored s) @ items
    \<and> files_of stored s' = fold (record_item M) items (files_of stored s)"
proof -
  obtain ip port w' where 1: "get_master_ip cl leader = Ret ip" "get_master_get_oplog_port cl leader = Ret port"
    "make_request_post C ip port ''/GetOplog'' [] (base64_encode wanted) w = Ret (True, response, w')"
    using assms(1) unfolding serves_def by blast
  obtain s' where "apply_page M L items (op_id n) s = Ret (True, op_id (n + length items), s')" "dbs_up s'"
      "log_ok stored (n + length items) s'" "map snd (log_of stored s') = map snd (log_of stored s) @ items"
      "files_of stored s' = fold (record_item M) items (files_of stored s)"
    using apply_page_works [OF assms(2,3,4,7,6)] by blast
  then show ?thesis
    using 1 by (intro exI [of _ s'] exI [of _ w']) (simp add: Let_def assms(5))
qed

lemma update_loop_repeats:
  assumes "serves C cl leader wanted response" and "reliable_db L stored"
    and "items = go_log_data (snd (parse (c_page M) (base64_decode response)))"
    and "\<forall>item \<in> set items. upload_item M item \<noteq> None" and "items \<noteq> []"
    and "dbs_up s" and "log_ok stored n s" and "n + length items * Suc r < 2 ^ 64" and "Suc r \<le> fuel"
  shows "\<exists>s' w'. update_loop M C L cl leader wanted (op_id (n + length items * Suc r)) fuel (op_id n) s w = Ret (True, s', w')
    \<and> dbs_up s' \<and> log_ok stored (n + length items * Suc r) s'
    \<and> map snd (log_of stored s') = map snd (log_of stored s) @ concat (replicate (Suc r) items)
    \<and> files_of stored s' = fold (record_item M) (concat (replicate (Suc r) items)) (files_of stored s)"
  using assms(6-9)
proof (induction r arbitrary: n s w fuel)
  case 0
  then obtain f where f: "fuel = Suc f" by (cases fuel) auto
  have "n + length items < 2 ^ 64" using 0 by simp
  from update_loop_turn [OF assms(1,2) 0(1,2) assms(3,4) this, of "op_id (n + length items)" f w]
  show ?case by (auto simp: f)
next
  case (Suc r)
  obtain f where f: "fuel = Suc f" using Suc.prems(4) by (cases fuel) auto
  let ?t = "n + length items * Suc (Suc r)" and ?n = "n + length items"
  have lt: "?n < 2 ^ 64" "?t < 256 ^ 8" "?n < ?t" "?t = ?n + length items * Suc r"
    using Suc.prems(3) assms(5) by simp_all
  then have ne: "op_id ?n \<noteq> op_id ?t" using op_id_eq_iff [of ?n ?t] by simp
  obtain s1 w1 where 1: "update_loop M C L cl leader wanted (op_id ?t) fuel (op_id n) s w
      = update_loop M C L cl leader wanted (op_id ?t) f (op_id ?n) s1 w1"
    "dbs_up s1" "log_ok stored ?n s1" "map snd (log_of stored s1) = map snd (log_of stored s) @ items"
    "files_of stored s1 = fold (record_item M) items (files_of stored s)"
    using update_loop_turn [OF assms(1,2) Suc.prems(1,2) assms(3,4) lt(1), of "op_id ?t" f w] ne unfolding f by auto
  have "?n + length items * Suc r < 2 ^ 64" "Suc r \<le> f" using Suc.prems(3,4) lt(4) f by simp_all
  from Suc.IH [OF 1(2,3) this, of w1, folded lt(4)] show ?case
    unfolding 1(1) by (auto simp del: mult_Suc_right simp: 1(4,5))
qed

lemma update_loop_misses:
  assumes "serves C cl leader wanted response" and "reliable_db L stored"
    and "items = go_log_data (snd (parse (c_page M) (base64_decode response)))"
    and "\<forall>item \<in> set items. upload_item M item \<noteq> None"
    and "dbs_up s" and "log_ok stored n s" and "n + length items * fuel < 2 ^ 64" and "t < 2 ^ 64"
    and "\<forall>j. 1 \<le> j \<and> j \<le> fuel \<longrightarrow> n + length items * j \<noteq> t"
  shows "update_loop M C L cl leader wanted (op_id t) fuel (op_id n) s w = Diverge"
  using assms(5-9)
proof (induction fuel arbitrary: n s w)
  case 0
  then show ?case by simp
next
  case (Suc fuel)
  let ?n = "n + length items"
  have lt: "?n < 2 ^ 64" "?n + length items * fuel < 2 ^ 64" using Suc.prems(3) by simp_all
  have "?n \<noteq> t" using Suc.prems(5) [rule_format, of 1] by simp
  then have ne: "op_id ?n \<noteq> op_id t" using op_id_eq_iff [of ?n t] lt Suc.prems(4) by simp
  have "\<forall>j. 1 \<le> j \<and> j \<le> fuel \<longrightarrow> ?n + length items * j \<noteq> t"
    using Suc.prems(5) [rule_format, of "Suc _"] by (auto simp: add.assoc)
  then show ?case
    using update_loop_turn [OF assms(1,2) Suc.prems(1,2) assms(3,4) lt(1), of "op_id t" fuel w] ne
      Suc.IH [OF _ _ lt(2) Suc.prems(4)] by metis
qed

section \<open>What the handler does to the stores\<close>

text \<open>A request that carries a message.\<close>

definition carries :: "codecs \<Rightarrow> request \<Rightarrow> operation_log_message \<Rightarrow> bool" where
  "carries M req message \<longleftrightarrow> parse (c_message M) (base64_decode (input_buffer req)) = (True, message)"

lemma confirm_cases:
  assumes "confirm_oplog_handler M C L cl fuel sentinel req m s w = Ret (reply, m', s', w')" and "carries M req message"
  obtains (refused) "\<not> is_ok reply" "body_of reply \<noteq> ''ok''" "body_of reply \<noteq> ''no ok''" "m' = m" "s' = s" "w' = w"
    | (propose) "field 0 (om_state message) = 1" "handle_propose M C L cl fuel sentinel message m s w = Ret (reply, m', s', w')"
    | (commit) "field 0 (om_state message) = 2" "handle_commit M L message m s = Ret (reply, s')" "m' = m" "w' = w"
proof -
  have err: "c_str ''System error'' = ''System error''" "c_str ''Can't read post data.'' = ''Can't read post data.''"
    by (simp_all add: c_str_def)
  have post: "server_get_postdata req [] = (True, input_buffer req) \<or> \<not> fst (server_get_postdata req [])"
    by (auto simp: server_get_postdata_def Let_def)
  consider (leader) "get_status sentinel = K_status_leader" | (nobody) "get_status sentinel \<noteq> K_status_leader"
      "\<not> fst (server_get_postdata req [])"
    | (body) "get_status sentinel \<noteq> K_status_leader" "server_get_postdata req [] = (True, input_buffer req)"
    using post by blast
  then show ?thesis
  proof cases
    case leader
    then show ?thesis using assms(1) refused err by (auto simp: confirm_oplog_handler_def)
  next
    case nobody
    then show ?thesis using assms(1) refused err
      by (auto simp: confirm_oplog_handler_def Let_def split: prod.splits if_splits)
  next
    case body
    have run: "(if field 0 (om_state message) = 1 then handle_propose M C L cl fuel sentinel message m s w
          else if field 0 (om_state message) = 2 then
            obind (handle_commit M L message m s) (\<lambda>(reply, s1). Ret (reply, m, s1, w))
          else Ret (server_send_reply_bad ''System error'', m, s, w)) = Ret (reply, m', s', w')"
      using assms(1) body assms(2)[unfolded carries_def]
      unfolding confirm_oplog_handler_def Let_def by simp
    show ?thesis
    proof (cases "field 0 (om_state message) = 1")
      case True
      then show ?thesis using run propose by simp
    next
      case not1: False
      show ?thesis
      proof (cases "field 0 (om_state message) = 2")
        case True
        then show ?thesis using run not1 commit by (auto elim!: obind_RetE)
      next
        case False
        then show ?thesis using run not1 refused err by auto
      qed
    qed
  qed
qed

lemma handle_commit_cases:
  assumes "handle_commit M L message m s = Ret (reply, s')"
  obtains (refused) "s' = s" "\<not> is_ok reply" "body_of reply \<noteq> ''ok''"
    | (written) op r where "m_state m" "field [] (om_op_id message) = m_state_id m"
      "op = snd (parse (c_operation M) (field [] (ol_log_data (m_state_data m))))"
      "record_operation L (m_state_id m) (snd (ser (c_oplog M) (m_state_data m))) (field [] (fo_key op))
         (snd (ser (c_response M) (op_data op))) s = Ret (r, s')"
      "is_ok reply \<longleftrightarrow> r = Recorded" "body_of reply = ''ok'' \<longleftrightarrow> r = Recorded"
proof -
  let ?op = "snd (parse (c_operation M) (field [] (ol_log_data (m_state_data m))))"
  consider "s' = s \<and> \<not> is_ok reply \<and> body_of reply \<noteq> ''ok''"
    | "m_state m \<and> field [] (om_op_id message) = m_state_id m \<and>
       obind (record_operation L (m_state_id m) (snd (ser (c_oplog M) (m_state_data m))) (field [] (fo_key ?op))
         (snd (ser (c_response M) (op_data ?op))) s) (\<lambda>(r, s1).
            Ret (case r of
                   Log_failed \<Rightarrow> server_send_reply_bad ''put in oplog failed''
                 | Data_failed \<Rightarrow> server_send_reply_bad ''put in userdata failed''
                 | Recorded \<Rightarrow> server_send_reply_ok ''ok'', s1)) = Ret (reply, s')"
    using assms unfolding handle_commit_def Let_def
    by (auto simp: c_str_def split: if_splits prod.splits)
  then show ?thesis
  proof cases
    case 1
    then show ?thesis using refused by blast
  next
    case 2
    then obtain r where r: "record_operation L (m_state_id m) (snd (ser (c_oplog M) (m_state_data m))) (field [] (fo_key ?op))
         (snd (ser (c_response M) (op_data ?op))) s = Ret (r, s')"
      "reply = (case r of
                   Log_failed \<Rightarrow> server_send_reply_bad ''put in oplog failed''
                 | Data_failed \<Rightarrow> server_send_reply_bad ''put in userdata failed''
                 | Recorded \<Rightarrow> server_send_reply_ok ''ok'')"
      by (auto elim!: obind_RetE)
    have "is_ok reply \<longleftrightarrow> r = Recorded" "body_of reply = ''ok'' \<longleftrightarrow> r = Recorded"
      using r(2) by (cases r; simp add: c_str_def)+
    then show ?thesis using 2 r(1) written [OF _ _ refl] by blast
  qed
qed

lemma handle_propose_cases:
  assumes "handle_propose M C L cl fuel sentinel message m s w = Ret (reply, m', s', w')"
  obtains (in_step) "next_log_key L s = Ret (field [] (om_op_id message), s')" "reply = Reply_ok ''ok''" "w' = w"
      "m' = \<lparr>m_state = True, m_state_id = field [] (om_op_id message), m_state_data = msg_op_log message\<rparr>"
    | (fetched) last_id s1 where "next_log_key L s = Ret (last_id, s1)" "last_id \<noteq> field [] (om_op_id message)"
      "update_oplog M C L cl fuel sentinel last_id (field [] (om_op_id message)) s1 w = Ret (True, s', w')"
      "reply = Reply_bad ''ok''"
      "m' = \<lparr>m_state = True, m_state_id = field [] (om_op_id message), m_state_data = msg_op_log message\<rparr>"
    | (failed) last_id s1 where "next_log_key L s = Ret (last_id, s1)" "last_id \<noteq> field [] (om_op_id message)"
      "update_oplog M C L cl fuel sentinel last_id (field [] (om_op_id message)) s1 w = Ret (False, s', w')"
      "reply = Reply_bad ''no ok''" "m' = m\<lparr>m_state_id := field [] (om_op_id message)\<rparr>"
proof -
  have rep: "server_send_reply_ok ''ok'' = Reply_ok ''ok''" "server_send_reply_bad ''ok'' = Reply_bad ''ok''"
    "server_send_reply_bad ''no ok'' = Reply_bad ''no ok''"
    by (simp_all add: server_send_reply_ok_def server_send_reply_bad_def c_str_def)
  have m2: "m\<lparr>m_state_id := i, m_state := True, m_state_data := d\<rparr> = \<lparr>m_state = True, m_state_id = i, m_state_data = d\<rparr>"
    for i d by simp
  obtain last_id s1 where 1: "next_log_key L s = Ret (last_id, s1)"
    using assms unfolding handle_propose_def Let_def by (auto elim: obind_RetE)
  show ?thesis
  proof (cases "last_id = field [] (om_op_id message)")
    case True
    then show ?thesis using assms 1 in_step unfolding handle_propose_def Let_def by (auto simp: rep)
  next
    case False
    then obtain u s2 w2 where 2: "update_oplog M C L cl fuel sentinel last_id (field [] (om_op_id message)) s1 w = Ret (u, s2, w2)"
      using assms 1 unfolding handle_propose_def Let_def by (auto elim: obind_RetE)
    then show ?thesis
      using assms 1 False fetched failed unfolding handle_propose_def Let_def by (cases u) (auto simp: rep)
  qed
qed

text \<open>
  C7: The two phases make a follower repeat the leader's write. When both the proposal of an
  upload and the commit of the same id are answered with the \<open>ok\<close> the leader counts, the
  follower's log has got exactly the leader's entry under the leader's id and its user data
  exactly the leader's record; a proposal answered with status 200 has changed nothing yet.
\<close>

theorem commit_mirrors_leader:
  assumes "leveldb L stored" and "faithful M"
    and "carries M req1 (Operation_log_message (Some 1) (Some i) (Some (upload_op_log M key response)))"
    and "carries M req2 (Operation_log_message (Some 2) (Some i) None)"
    and "fst (ser (c_operation M) (Upload_file_operation (Some key) (Some response)))"
    and "confirm_oplog_handler M C L cl fuel sentinel1 req1 m s w = Ret (r1, m1, s1, w1)" and "body_of r1 = ''ok''"
    and "confirm_oplog_handler M C L cl fuel sentinel2 req2 m1 s1 w2 = Ret (r2, m2, s2, w3)" and "body_of r2 = ''ok''"
  shows "log_of stored s2 = om_set i (snd (ser (c_oplog M) (upload_op_log M key response))) (log_of stored s1)
    \<and> files_of stored s2 = om_set key (snd (ser (c_response M) response)) (files_of stored s1)
    \<and> (is_ok r1 \<longrightarrow> log_of stored s1 = log_of stored s \<and> files_of stored s1 = files_of stored s)"
proof -
  have pr: "m1 = \<lparr>m_state = True, m_state_id = i, m_state_data = upload_op_log M key response\<rparr>
      \<and> (is_ok r1 \<longrightarrow> log_of stored s1 = log_of stored s \<and> files_of stored s1 = files_of stored s)"
    using assms(6,3)
  proof (cases rule: confirm_cases)
    case propose
    from propose(2) show ?thesis
      by (cases rule: handle_propose_cases)
        (use assms(7) next_log_key_content [OF assms(1)] in \<open>auto simp: msg_op_log_def\<close>)
  qed (use assms(7) in auto)
  have op: "parse (c_operation M) (field [] (ol_log_data (upload_op_log M key response)))
      = (True, Upload_file_operation (Some key) (Some response))"
    using assms(2,5) message_codec.parse_snd_ser [of "c_operation M" "Upload_file_operation (Some key) (Some response)"]
    by (simp add: upload_op_log_def faithful_def)
  have "log_of stored s2 = om_set i (snd (ser (c_oplog M) (upload_op_log M key response))) (log_of stored s1)
    \<and> files_of stored s2 = om_set key (snd (ser (c_response M) response)) (files_of stored s1)"
    using assms(8,4)
  proof (cases rule: confirm_cases)
    case commit
    from commit(2) show ?thesis
    proof (cases rule: handle_commit_cases)
      case (written op r)
      then have "r = Recorded" using assms(9) by simp
      then show ?thesis
        using record_operation_Recorded [OF assms(1)] written(3,4) pr op by (simp add: op_data_def)
    qed (use assms(9) in simp)
  qed (use assms(9) in auto)
  then show ?thesis using pr by blast
qed



text \<open>
  Fetching asks for the same page again and again. Against a leader that keeps answering
  with the page of \<open>k\<close> uploads that starts at the first missing entry, a follower that is
  \<open>k * r\<close> entries behind makes exactly \<open>r\<close> requests and then holds that page \<open>r\<close> times: the
  missing entries when \<open>r\<close> is one, copies of the first page under the later ids otherwise.
\<close>

theorem resync_repeats_page:
  assumes "serves C cl (get_leader sentinel) (op_id n) response" and "reliable_db L stored"
    and "items = go_log_data (snd (parse (c_page M) (base64_decode response)))"
    and "\<forall>item \<in> set items. upload_item M item \<noteq> None" and "items \<noteq> []"
    and "dbs_up s" and "log_ok stored n s" and "0 < r" and "n + length items * r < 2 ^ 64" and "r \<le> fuel"
  shows "\<exists>s' w'. update_oplog M C L cl fuel sentinel (op_id n) (op_id (n + length items * r)) s w = Ret (True, s', w')
    \<and> log_ok stored (n + length items * r) s'
    \<and> map snd (log_of stored s') = map snd (log_of stored s) @ concat (replicate r items)
    \<and> files_of stored s' = fold (record_item M) (concat (replicate r items)) (files_of stored s)"
proof -
  obtain q where q: "r = Suc q" using assms(8) by (cases r) auto
  show ?thesis
    using update_loop_repeats [OF assms(1-7), of q fuel w] assms(9,10) unfolding q update_oplog_def by blast
qed

text \<open>
  Fetching may never end: when the proposed id is not a whole number of pages ahead (an
  empty page included), the loop has not returned after any number of turns before the ids
  run out.
\<close>

theorem resync_spins:
  assumes "serves C cl (get_leader sentinel) (op_id n) response" and "reliable_db L stored"
    and "items = go_log_data (snd (parse (c_page M) (base64_decode response)))"
    and "\<forall>item \<in> set items. upload_item M item \<noteq> None"
    and "dbs_up s" and "log_ok stored n s" and "n < t" and "t < 2 ^ 64" and "\<not> length items dvd t - n"
    and "n + length items * fuel < 2 ^ 64"
  shows "update_oplog M C L cl fuel sentinel (op_id n) (op_id t) s w = Diverge"
proof -
  have "n + length items * j \<noteq> t" for j using assms(9) by auto
  then show ?thesis
    unfolding update_oplog_def by (intro update_loop_misses [OF assms(1-6,10,8)]) blast
qed

section \<open>Concrete runs\<close>

text \<open>
  The upload of \<^const>\<open>small_upload\<close> at a follower, and a later proposal (of another kind of
  operation) that arrives while the leader cannot be asked.
\<close>

definition small_M :: codecs where
  "small_M = small_codecs [Operation_log_message (Some 1) (Some (op_id 5)) (Some (Operation_log None None)),
     Operation_log_message (Some 2) (Some (op_id 5)) None] []"

definition small_proposed :: confirm_state where
  "small_proposed = \<lparr>m_state = True, m_state_id = op_id 0, m_state_data = small_oplog\<rparr>"

lemma small_bodies:
  "server_get_postdata (small_post ''0'') [] = (True, base64_encode ''0'')"
  "server_get_postdata (small_post ''1'') [] = (True, base64_encode ''1'')"
  "server_get_postdata (small_post ''2'') [] = (True, base64_encode ''2'')"
  "server_get_postdata (small_post ''3'') [] = (True, base64_encode ''3'')"
proof -
  have "base64_encode ''0'' = ''MA==''" "base64_encode ''1'' = ''MQ==''" "base64_encode ''2'' = ''Mg==''"
    "base64_encode ''3'' = ''Mw==''"
    by code_simp+
  then show "server_get_postdata (small_post ''0'') [] = (True, base64_encode ''0'')"
    "server_get_postdata (small_post ''1'') [] = (True, base64_encode ''1'')"
    "server_get_postdata (small_post ''2'') [] = (True, base64_encode ''2'')"
    "server_get_postdata (small_post ''3'') [] = (True, base64_encode ''3'')"
    by (simp_all add: small_post_def get_postdata_True k_server_max_post_data_size_def)
qed

lemma small_messages:
  "parse (c_message small_M) ''0'' = (True, Operation_log_message (Some 1) (Some (op_id 0)) (Some small_oplog))"
  "parse (c_message small_M) ''1'' = (True, Operation_log_message (Some 2) (Some (op_id 0)) None)"
  "parse (c_message small_M) ''2''
     = (True, Operation_log_message (Some 1) (Some (op_id 5)) (Some (Operation_log None None)))"
  "parse (c_message small_M) ''3'' = (True, Operation_log_message (Some 2) (Some (op_id 5)) None)"
  "parse (c_operation small_M) ''0'' = (True, small_operation)"
  "ser (c_oplog small_M) small_oplog = (True, ''0'')" "ser (c_response small_M) small_response = (True, ''0'')"
  by code_simp+

lemma small_carries:
  "carries small_M (small_post ''0'') (Operation_log_message (Some 1) (Some (op_id 0)) (Some small_oplog))"
  "carries small_M (small_post ''1'') (Operation_log_message (Some 2) (Some (op_id 0)) None)"
  "carries small_M (small_post ''2'')
     (Operation_log_message (Some 1) (Some (op_id 5)) (Some (Operation_log None None)))"
  "carries small_M (small_post ''3'') (Operation_log_message (Some 2) (Some (op_id 5)) None)"
  by (simp_all add: carries_def small_post_def b64.dec_enc small_messages)

lemma small_steps:
  "next_log_key script_ldb (small_dbs [] []) = Ret (op_id 0, small_dbs [] [])"
  "record_operation script_ldb (op_id i) ''0'' ''uf'' ''0'' (small_dbs [] [])
     = Ret (Recorded, small_dbs [(''uf'', Some ''0'')] [(op_id i, Some ''0'')])"
  by (simp_all add: next_log_key_def record_operation_def small_dbs_def db_fetch_last_key_def db_iterator_def
      db_put_def script_ldb_def next_ok_def Let_def op_id_0)

lemma small_unreachable:
  "make_request_post refusing_net ''a'' 81 ''/GetOplog'' [] post () = Ret (False, [], ())"
  by (simp add: refusing_net_def net_of_post small_urls)

abbreviation small_confirms where
  "small_confirms body m s \<equiv> confirm_oplog_handler small_M refusing_net script_ldb (small_cluster 2) 1 small_follower
     (small_post body) m s ()"

lemma small_follows:
  "get_status small_follower \<noteq> K_status_leader" "get_leader small_follower = 1"
  by (simp_all add: small_follower_def get_status_def get_leader_def)

lemma small_confirm_runs:
  "small_confirms ''0'' confirm_new (small_dbs [] []) = Ret (Reply_ok ''ok'', small_proposed, small_dbs [] [], ())"
  "small_confirms ''1'' small_proposed (small_dbs [] [])
     = Ret (Reply_ok ''ok'', small_proposed, small_dbs [(''uf'', Some ''0'')] [(op_id 0, Some ''0'')], ())"
  "small_confirms ''2'' small_proposed (small_dbs [] [])
     = Ret (Reply_bad ''no ok'', small_proposed\<lparr>m_state_id := op_id 5\<rparr>, small_dbs [] [], ())"
  "small_confirms ''3'' (small_proposed\<lparr>m_state_id := op_id 5\<rparr>) (small_dbs [] [])
     = Ret (Reply_ok ''ok'', small_proposed\<lparr>m_state_id := op_id 5\<rparr>, small_dbs [(''uf'', Some ''0'')] [(op_id 5, Some ''0'')], ())"
proof -
  have ids: "op_id 0 \<noteq> op_id 5" by (simp add: op_id_eq_iff)
  have rep: "server_send_reply_ok ''ok'' = Reply_ok ''ok''" "server_send_reply_bad ''no ok'' = Reply_bad ''no ok''"
    by (simp_all add: server_send_reply_ok_def server_send_reply_bad_def c_str_def)
  have op: "field 0 (ol_op_type small_oplog) = 1" "field [] (ol_log_data small_oplog) = ''0''"
    "field [] (fo_key small_operation) = ''uf''" "op_data small_operation = small_response"
    by (simp_all add: small_oplog_def small_operation_def op_data_def)
  note run = confirm_oplog_handler_def small_follows small_bodies b64.dec_enc small_messages Let_def rep
    small_steps small_proposed_def confirm_new_def msg_op_log_def op
  show "small_confirms ''0'' confirm_new (small_dbs [] []) = Ret (Reply_ok ''ok'', small_proposed, small_dbs [] [], ())"
    "small_confirms ''2'' small_proposed (small_dbs [] [])
     = Ret (Reply_bad ''no ok'', small_proposed\<lparr>m_state_id := op_id 5\<rparr>, small_dbs [] [], ())"
    using ids by (simp_all add: run handle_propose_def update_oplog_def small_addresses small_unreachable)
  show "small_confirms ''1'' small_proposed (small_dbs [] [])
     = Ret (Reply_ok ''ok'', small_proposed, small_dbs [(''uf'', Some ''0'')] [(op_id 0, Some ''0'')], ())"
    "small_confirms ''3'' (small_proposed\<lparr>m_state_id := op_id 5\<rparr>) (small_dbs [] [])
     = Ret (Reply_ok ''ok'', small_proposed\<lparr>m_state_id := op_id 5\<rparr>, small_dbs [(''uf'', Some ''0'')] [(op_id 5, Some ''0'')], ())"
    by (simp_all add: run handle_commit_def)
qed

lemma commit_mirrors_leader_witness:
  "files_of journal_content (small_dbs [(''uf'', Some ''0'')] [(op_id 0, Some ''0'')])
     = om_set ''uf'' (snd (ser (c_response small_M) small_response)) (files_of journal_content (small_dbs [] []))"
proof -
  have log: "upload_op_log small_M ''uf'' small_response = small_oplog" by code_simp
  have "fst (ser (c_operation small_M) (Upload_file_operation (Some ''uf'') (Some small_response)))" by code_simp
  moreover have "faithful small_M" unfolding small_M_def by (rule small_faithful) simp_all
  ultimately show ?thesis
    using commit_mirrors_leader [OF script.leveldb_axioms _ small_carries(1) [folded log] small_carries(2) _
        small_confirm_runs(1) _ small_confirm_runs(2)] by simp
qed



text \<open>A leader that answers every request for entries with one page.\<close>

definition page_net :: "string \<Rightarrow> unit curl_ops" where
  "page_net body = net_of (\<lambda>url posted w. (Some body, w))"

definition empty_dbs :: "journal dbs" where
  "empty_dbs = \<lparr>userdata_db = \<lparr>db_conn = True, db_store = []\<rparr>, oplog_db = \<lparr>db_conn = True, db_store = []\<rparr>\<rparr>"

lemma page_net_serves: "serves (page_net body) (small_cluster 2) (get_leader small_follower) wanted body"
  by (simp add: serves_def page_net_def small_follows small_addresses net_of_post small_urls)

lemma empty_dbs_ok: "dbs_up empty_dbs" "log_ok replay 0 empty_dbs" "log_of replay empty_dbs = []"
  by (simp_all add: dbs_up_def log_ok_def empty_dbs_def log_of_def op_ids_def)

lemma resync_repeats_page_witness:
  "\<exists>s' w'. update_oplog (small_codecs [] [Get_oplog_response (Some (op_id 0)) [''0'']]) (page_net (base64_encode ''1''))
      journal_ldb (small_cluster 2) 9 small_follower (op_id 0) (op_id 2) empty_dbs () = Ret (True, s', w')
    \<and> map snd (log_of replay s') = [''0'', ''0'']"
proof -
  let ?M = "small_codecs [] [Get_oplog_response (Some (op_id 0)) [''0'']]"
  have page: "[''0''] = go_log_data (snd (parse (c_page ?M) (base64_decode (base64_encode ''1''))))"
    unfolding b64.dec_enc by code_simp
  have item: "upload_item ?M ''0'' \<noteq> None" by code_simp
  have two: "0 + length [''0''] * 2 = 2" "concat (replicate 2 [''0'']) = [''0'', ''0'']" by (simp_all add: numeral_2_eq_2)
  have "\<exists>s' w'. update_oplog ?M (page_net (base64_encode ''1'')) journal_ldb (small_cluster 2) 9 small_follower
      (op_id 0) (op_id 2) empty_dbs () = Ret (True, s', w') \<and> log_ok replay 2 s'
    \<and> map snd (log_of replay s') = map snd (log_of replay empty_dbs) @ [''0'', ''0'']
    \<and> files_of replay s' = fold (record_item ?M) [''0'', ''0''] (files_of replay empty_dbs)"
    by (rule resync_repeats_page [OF page_net_serves journal.reliable_db_axioms page _ _ empty_dbs_ok(1,2), of 2, unfolded two])
      (use item in auto)
  then show ?thesis by (auto simp: empty_dbs_ok(3))
qed

lemma resync_spins_witness:
  "update_oplog (small_codecs [] []) (page_net (base64_encode ''0'')) journal_ldb (small_cluster 2) 1000
     small_follower (op_id 0) (op_id 5) empty_dbs () = Diverge"
proof -
  have page: "[] = go_log_data (snd (parse (c_page (small_codecs [] [])) (base64_decode (base64_encode ''0''))))"
    unfolding b64.dec_enc by code_simp
  show ?thesis
    by (rule resync_spins [OF page_net_serves journal.reliable_db_axioms page _ empty_dbs_ok(1,2)]) simp_all
qed

end
