(* ===== verification/Get_Oplog.thy ===== *)
theory Get_Oplog
  imports Small_Cluster
begin

text \<open>
  \<open>server/request_handlers/get_oplog_request_handler.cc\<close>: a master that has fallen behind asks
  the leader for the log entries from an id on, at most a hundred at a time.
\<close>

text \<open>
  The \<open>while (true)\<close> around the iterator: the first argument is what the iterator still
  visits (its head is the current entry), the result the key of the last entry taken and
  the values taken.
\<close>

fun page_loop :: "(string \<times> string) list \<Rightarrow> nat \<Rightarrow> string list \<Rightarrow> string \<times> string list" where
  "page_loop [] cnt acc = ([], acc)"
| "page_loop ((key, v) # it) cnt acc =
     (if it = [] \<or> cnt + 1 = k_server_max_get_oplog_size then (key, acc @ [v])
      else page_loop it (cnt + 1) (acc @ [v]))"

definition get_oplog_handler ::
  "codecs \<Rightarrow> 'd leveldb_ops \<Rightarrow> request \<Rightarrow> 'd dbs \<Rightarrow> (reply \<times> 'd dbs) outcome" where
  "get_oplog_handler M L req s =
     (let (got, request_body) = server_get_postdata req [] in
      if \<not> got then Ret (server_send_reply_bad ''Can't read post'', s)
      else
        let wanted = base64_decode request_body in
        obind (db_exist L wanted (oplog_db s)) (\<lambda>(existed, o1).
        if \<not> existed then Ret (server_send_reply_bad ''No such op id'', s\<lparr>oplog_db := o1\<rparr>)
        else
          obind (db_iterator L o1) (\<lambda>(it, o2).
          case it of
            None \<Rightarrow> Undef
          | Some xs \<Rightarrow>
              (case dropWhile (\<lambda>p. fst p < wanted) xs of
                 [] \<Rightarrow> Ret (server_send_reply_bad ''Invalid status'', s\<lparr>oplog_db := o2\<rparr>)
               | e # es \<Rightarrow>
                   let (last_id, log_data) = page_loop (e # es) 0 [] in
                   Ret (server_send_reply_ok
                          (base64_encode (snd (ser (c_page M) (Get_oplog_response (Some last_id) log_data)))),
                        s\<lparr>oplog_db := o2\<rparr>)))))"

section \<open>What a page holds\<close>

lemma page_loop_take:
  assumes "es \<noteq> []" and "cnt < 100"
  shows "page_loop es cnt acc = (fst (last (take (100 - cnt) es)), acc @ map snd (take (100 - cnt) es))"
  using assms
proof (induction es cnt acc rule: page_loop.induct)
  case (2 key v it cnt acc)
  have t: "take (100 - cnt) ((key, v) # it) = (key, v) # take (99 - cnt) it"
    using "2.prems" by (simp add: take_Cons')
  show ?case
  proof (cases "it = [] \<or> cnt + 1 = 100")
    case True
    then show ?thesis unfolding t by (auto simp: k_server_max_get_oplog_size_def)
  next
    case False
    then have "page_loop it (cnt + 1) (acc @ [v])
        = (fst (last (take (100 - (cnt + 1)) it)), (acc @ [v]) @ map snd (take (100 - (cnt + 1)) it))"
      using "2.prems" by (intro "2.IH") (auto simp: k_server_max_get_oplog_size_def)
    moreover have "take (99 - cnt) it \<noteq> []" using False "2.prems" by simp
    ultimately show ?thesis
      unfolding t using False by (simp add: k_server_max_get_oplog_size_def)
  qed
qed simp

lemma log_nth:
  assumes "map fst xs = op_ids n"
  shows "length xs = n" and "j < n \<Longrightarrow> fst (xs ! j) = op_id j"
proof -
  show len: "length xs = n" using arg_cong [OF assms, of length] by (simp add: op_ids_def)
  show "j < n \<Longrightarrow> fst (xs ! j) = op_id j"
    using arg_cong [OF assms, of "\<lambda>ys. ys ! j"] len by (simp add: op_ids_def)
qed

lemma dropWhile_log:
  assumes "map fst xs = op_ids n" and "i < n" and "n < 2 ^ 64"
  shows "dropWhile (\<lambda>p. fst p < op_id i) xs = drop i xs"
proof -
  note nth = log_nth [OF assms(1)]
  have lt: "op_id j < op_id i" if "j < i" for j
    using that assms(2,3) op_id_less_iff [of j i] by simp
  have split: "xs = take i xs @ xs ! i # drop (Suc i) xs"
    using assms(2) nth(1) by (simp add: id_take_nth_drop)
  have "\<forall>p \<in> set (take i xs). fst p < op_id i"
  proof
    fix p
    assume "p \<in> set (take i xs)"
    then obtain j where "j < i" "p = xs ! j" using assms(2) nth(1) by (auto simp: in_set_conv_nth)
    then show "fst p < op_id i" using nth(2) [of j] lt assms(2) by simp
  qed
  moreover have "fst (xs ! i) = op_id i" using nth assms(2) by simp
  ultimately have "dropWhile (\<lambda>p. fst p < op_id i) (take i xs @ xs ! i # drop (Suc i) xs) = xs ! i # drop (Suc i) xs"
    by simp
  then show ?thesis
    using split assms(2) nth(1) by (simp add: Cons_nth_drop_Suc)
qed

lemma last_of_page:
  assumes "map fst xs = op_ids n" and "i < n"
  shows "fst (last (take 100 (drop i xs))) = op_id (min n (i + 100) - 1)"
proof -
  note nth = log_nth [OF assms(1)]
  have ne: "take 100 (drop i xs) \<noteq> []" using assms(2) nth(1) by simp
  have len: "length (take 100 (drop i xs)) = min 100 (n - i)" using nth(1) by simp
  have "last (take 100 (drop i xs)) = xs ! (i + (min 100 (n - i) - 1))"
    using ne assms(2) nth(1) by (simp add: last_conv_nth len min.commute)
  also have "i + (min 100 (n - i) - 1) = min n (i + 100) - 1"
    using assms(2) by arith
  finally show ?thesis using nth(2) [of "min n (i + 100) - 1"] assms(2) by simp
qed

text \<open>The ways the handler ends.\<close>

lemma get_oplog_cases:
  assumes "get_oplog_handler M L req s = Ret (reply, s')"
  obtains "s' = s" "\<not> is_ok reply"
    | b o1 where "db_exist L (base64_decode (input_buffer req)) (oplog_db s) = Ret (b, o1)" "s' = s\<lparr>oplog_db := o1\<rparr>"
      "\<not> is_ok reply"
    | o1 o2 xs where "db_exist L (base64_decode (input_buffer req)) (oplog_db s) = Ret (True, o1)"
      "db_iterator L o1 = Ret (Some xs, o2)" "s' = s\<lparr>oplog_db := o2\<rparr>"
      "is_ok reply \<longrightarrow> (\<exists>e es. dropWhile (\<lambda>p. fst p < base64_decode (input_buffer req)) xs = e # es \<and>
        body_of reply = base64_encode (snd (ser (c_page M)
          (Get_oplog_response (Some (fst (page_loop (e # es) 0 []))) (snd (page_loop (e # es) 0 []))))))"
proof (cases "fst (server_get_postdata req [])")
  case False
  then show ?thesis using assms that(1) by (auto simp: get_oplog_handler_def Let_def split: prod.splits if_splits)
next
  case True
  let ?wanted = "base64_decode (input_buffer req)"
  have body: "server_get_postdata req [] = (True, input_buffer req)"
    using True by (auto simp: server_get_postdata_def Let_def split: if_splits)
  obtain b o1 where 1: "db_exist L ?wanted (oplog_db s) = Ret (b, o1)"
    using assms unfolding get_oplog_handler_def Let_def body by (auto elim: obind_RetE)
  show ?thesis
  proof (cases b)
    case False
    then show ?thesis using assms 1 that(2) unfolding get_oplog_handler_def Let_def body by auto
  next
    case True
    obtain it o2 where 2: "db_iterator L o1 = Ret (it, o2)"
      using assms 1 True unfolding get_oplog_handler_def Let_def body by (auto elim: obind_RetE)
    obtain xs where xs: "it = Some xs"
      using assms 1 2 True unfolding get_oplog_handler_def Let_def body by (cases it) auto
    show ?thesis
    proof (rule that(3) [of o1 xs o2])
      show "db_exist L ?wanted (oplog_db s) = Ret (True, o1)" using 1 True by simp
      show "db_iterator L o1 = Ret (Some xs, o2)" using 2 xs by simp
      show "s' = s\<lparr>oplog_db := o2\<rparr>" "is_ok reply \<longrightarrow> (\<exists>e es. dropWhile (\<lambda>p. fst p < ?wanted) xs = e # es \<and>
        body_of reply = base64_encode (snd (ser (c_page M)
          (Get_oplog_response (Some (fst (page_loop (e # es) 0 []))) (snd (page_loop (e # es) 0 []))))))"
        using assms 1 2 xs True unfolding get_oplog_handler_def Let_def body
        by (auto simp del: page_loop.simps simp: b64.enc_c_str split: list.splits prod.splits)
    qed
  qed
qed

lemma get_oplog_content:
  assumes "leveldb L stored" and "faithful M" and "\<forall>m. fst (ser (c_page M) m)"
    and "log_ok stored n s" and "base64_decode (input_buffer req) = op_id i" and "i < 2 ^ 64"
    and "get_oplog_handler M L req s = Ret (reply, s')"
  shows "log_of stored s' = log_of stored s \<and> files_of stored s' = files_of stored s
    \<and> (is_ok reply \<longrightarrow> i < n \<and> parse (c_page M) (base64_decode (body_of reply)) =
          (True, Get_oplog_response (Some (op_id (min n (i + 100) - 1)))
             (map snd (take 100 (drop i (log_of stored s))))))"
proof -
  note kv = leveldb.axioms_kv [OF assms(1)]
  let ?log = "log_of stored s"
  have keys: "map fst ?log = op_ids n" "n < 2 ^ 64" using assms(4) by (simp_all add: log_ok_def)
  show ?thesis
    using assms(7)
  proof (cases rule: get_oplog_cases)
    case 1
    then show ?thesis by simp
  next
    case (2 b o1)
    then show ?thesis using kv_store.exist_frame [OF kv 2(1)] by (simp add: log_of_def files_of_def)
  next
    case (3 o1 o2 xs)
    note 3 = 3 [unfolded assms(5)]
    have c1: "stored (db_store o1) = ?log" using kv_store.exist_frame [OF kv 3(1)] by (simp add: log_of_def)
    have c2: "stored (db_store o2) = ?log" "xs = ?log"
      using leveldb.iterator_cases [OF assms(1) 3(2)] c1 by simp_all
    have "op_id i \<in> fst ` set ?log"
      using kv_store.exist_true [OF kv 3(1)] by (auto simp: log_of_def om_find_def map_of_eq_None_iff)
    then obtain j where j: "j < n" "op_id j = op_id i"
      using keys(1) by (metis (no_types, lifting) atLeastLessThan_iff imageE list.set_map op_ids_def set_upt)
    then have i: "i < n" using op_id_eq_iff [of j i] keys(2) assms(6) by simp
    have drop: "dropWhile (\<lambda>p. fst p < op_id i) xs = drop i ?log"
      using dropWhile_log [OF keys(1) i keys(2)] c2(2) by simp
    have ne: "drop i ?log \<noteq> []" using i log_nth(1) [OF keys(1)] by simp
    let ?page = "Get_oplog_response (Some (op_id (min n (i + 100) - 1))) (map snd (take 100 (drop i ?log)))"
    have "parse (c_page M) (base64_decode (body_of reply)) = (True, ?page)" if "is_ok reply"
    proof -
      have "body_of reply = base64_encode (snd (ser (c_page M) ?page))"
        using 3(4) that page_loop_take [OF ne, of 0 "[]"] last_of_page [OF keys(1) i] by (auto simp: drop)
      then show ?thesis
        using assms(2,3) message_codec.parse_snd_ser [of "c_page M" ?page]
        by (simp add: b64.dec_enc faithful_def)
    qed
    then show ?thesis using i c2 3(3) by (simp add: log_of_def files_of_def)
  qed
qed

text \<open>While the disks work the handler always answers.\<close>

lemma op_id_body: "server_get_postdata \<lparr>find_header = h, input_buffer = base64_encode (op_id i)\<rparr> []
    = (True, base64_encode (op_id i))"
proof -
  have "length (base64_encode (op_id i)) = 12" by (simp add: base64_length)
  then show ?thesis by (auto simp: get_postdata_True k_server_max_post_data_size_def)
qed

lemma get_oplog_works:
  assumes "reliable_db L stored" and "dbs_up s" and "log_ok stored n s" and "i < 2 ^ 64"
    and "req = \<lparr>find_header = h, input_buffer = base64_encode (op_id i)\<rparr>"
  shows "\<exists>reply s'. get_oplog_handler M L req s = Ret (reply, s') \<and> dbs_up s'
    \<and> log_of stored s' = log_of stored s \<and> files_of stored s' = files_of stored s
    \<and> (if i < n then is_ok reply else reply = Reply_bad ''No such op id'')"
proof -
  have keys: "map fst (log_of stored s) = op_ids n" "n < 2 ^ 64" using assms(3) by (simp_all add: log_ok_def)
  have up: "db_conn (oplog_db s)" "db_conn (userdata_db s)" using assms(2) by (simp_all add: dbs_up_def)
  obtain o1 where o1: "db_exist L (op_id i) (oplog_db s) = Ret (om_find (log_of stored s) (op_id i) \<noteq> None, o1)"
    "db_conn o1" "stored (db_store o1) = log_of stored s"
    using reliable_db.exist_Ret [OF assms(1) up(1)] by (auto simp: log_of_def)
  have "(op_id i \<in> set (op_ids n)) = (i < n)"
    using keys(2) assms(4) op_id_eq_iff [of i] by (auto simp: op_ids_def image_iff)
  then have found: "om_find (log_of stored s) (op_id i) \<noteq> None \<longleftrightarrow> i < n"
    using keys(1) by (metis list.set_map map_of_eq_None_iff om_find_def)
  note body = op_id_body [of h i]
  show ?thesis
  proof (cases "i < n")
    case False
    have "server_send_reply_bad ''No such op id'' = Reply_bad ''No such op id''"
      by (simp add: server_send_reply_bad_def)
    then show ?thesis
      using False o1 found up
      by (simp add: get_oplog_handler_def assms(5) body b64.dec_enc Let_def dbs_up_def log_of_def files_of_def)
  next
    case True
    obtain o2 where o2: "db_iterator L o1 = Ret (Some (log_of stored s), o2)" "db_conn o2" "stored (db_store o2) = log_of stored s"
      using reliable_db.iterator_Ret [OF assms(1) o1(2)] o1(3) by auto
    have ne: "drop i (log_of stored s) \<noteq> []" using True log_nth(1) [OF keys(1)] by simp
    then obtain e es where e: "drop i (log_of stored s) = e # es" by (cases "drop i (log_of stored s)") auto
    have "dropWhile (\<lambda>p. fst p < op_id i) (log_of stored s) = e # es"
      using dropWhile_log [OF keys(1) True keys(2)] e by simp
    then have "\<exists>text. get_oplog_handler M L req s = Ret (server_send_reply_ok text, s\<lparr>oplog_db := o2\<rparr>)"
      using True o1(1) o2(1) found
      by (cases "page_loop (e # es) 0 []")
        (auto simp del: page_loop.simps simp: get_oplog_handler_def assms(5) body b64.dec_enc Let_def)
    then show ?thesis using True o2 up by (auto simp: dbs_up_def log_of_def files_of_def)
  qed
qed



end
