(* ===== verification/Replication.thy ===== *)
theory Replication
  imports Confirm_Oplog Get_Oplog
begin

text \<open>
  The leader and its followers together: the confirm handlers of the other masters as the
  network the leader's upload talks to, and the leader's log pages as the answers a follower
  fetches. Across the two halves the development shows that an upload on a cluster in step
  leaves all masters with the same stores, and exactly when fetching makes a follower catch up.
\<close>

section \<open>The followers as a network\<close>

text \<open>
  The world is the state of every master's confirm handler and stores. A POST to a master runs
  its handler, with \<open>Cf\<close> for the requests that handler makes itself; other addresses answer by
  \<open>other\<close>.
\<close>

type_synonym 'd followers = "u32 \<Rightarrow> confirm_state \<times> 'd dbs"

definition post_of :: "string \<Rightarrow> request" where
  "post_of body = \<lparr>find_header = Map.empty, input_buffer = body\<rparr>"

definition run_follower ::
  "codecs \<Rightarrow> unit curl_ops \<Rightarrow> 'd leveldb_ops \<Rightarrow> (u32 \<Rightarrow> cluster) \<Rightarrow> nat \<Rightarrow> (u32 \<Rightarrow> sentinel) \<Rightarrow> u32 \<Rightarrow> string
     \<Rightarrow> confirm_state \<times> 'd dbs \<Rightarrow> (reply \<times> confirm_state \<times> 'd dbs) option" where
  "run_follower M Cf L cl_of fuel sents i body x =
     (case confirm_oplog_handler M Cf L (cl_of i) fuel (sents i) (post_of body) (fst x) (snd x) () of
        Ret (reply, m, s, _) \<Rightarrow> Some (reply, m, s) | _ \<Rightarrow> None)"

definition oplog_net ::
  "codecs \<Rightarrow> unit curl_ops \<Rightarrow> 'd leveldb_ops \<Rightarrow> (u32 \<Rightarrow> cluster) \<Rightarrow> nat \<Rightarrow> (u32 \<Rightarrow> sentinel)
     \<Rightarrow> (string \<Rightarrow> u32 option) \<Rightarrow> (string \<Rightarrow> string option) \<Rightarrow> 'd followers curl_ops" where
  "oplog_net M Cf L cl_of fuel sents node other = net_of (\<lambda>url posted w.
     case (node url, posted) of
       (Some i, Some body) \<Rightarrow>
         (case run_follower M Cf L cl_of fuel sents i body (w i) of
            Some (reply, x) \<Rightarrow> (Some (body_of reply), w(i := x))
          | None \<Rightarrow> (None, w))
     | _ \<Rightarrow> (other url, w))"

text \<open>Every other master can be addressed.\<close>

definition reachable_masters :: "cluster \<Rightarrow> (string \<Rightarrow> u32 option) \<Rightarrow> bool" where
  "reachable_masters cl node \<longleftrightarrow>
     unat (m_kbid cl) \<in> set (masters cl) \<and>
     (\<forall>i \<in> set (masters cl) - {unat (m_kbid cl)}. \<exists>ip port.
        get_master_ip cl (of_nat i) = Ret ip \<and> get_master_confirm_oplog_port cl (of_nat i) = Ret port \<and>
        length (http_url ip port ''/ConfirmOplog'') < 1024 \<and>
        node (http_url ip port ''/ConfirmOplog'') = Some (of_nat i))"

lemma reachable_post:
  assumes "reachable_masters cl node" and "i \<in> set (masters cl) - {unat (m_kbid cl)}" and "c_str post = post"
  obtains ip port where "get_master_ip cl (of_nat i) = Ret ip" "get_master_confirm_oplog_port cl (of_nat i) = Ret port"
    "make_request_post (oplog_net M Cf L cl_of fuel sents node other) ip port ''/ConfirmOplog'' [] post w =
      (case run_follower M Cf L cl_of fuel sents (of_nat i) post (w (of_nat i)) of
         Some (reply, x) \<Rightarrow> Ret (True, body_of reply, w(of_nat i := x))
       | None \<Rightarrow> Ret (False, [], w))"
proof -
  obtain ip port where 1: "get_master_ip cl (of_nat i) = Ret ip" "get_master_confirm_oplog_port cl (of_nat i) = Ret port"
    "length (http_url ip port ''/ConfirmOplog'') < 1024" "node (http_url ip port ''/ConfirmOplog'') = Some (of_nat i)"
    using assms(1,2) unfolding reachable_masters_def by blast
  show ?thesis
    by (rule that [OF 1(1,2)])
      (simp add: oplog_net_def net_of_post [OF 1(3)] 1(4) assms(3) split: option.splits)
qed

text \<open>
  When every follower that satisfies \<open>P\<close> answers the posted text with \<open>ok\<close> and satisfies \<open>Q\<close>
  afterwards, all of them count.
\<close>

lemma of_nat_masters_inj:
  assumes "i \<in> set (masters cl)" and "j \<in> set (masters cl)" and "(of_nat i :: u32) = of_nat j"
  shows "i = j"
proof -
  have "k < 2 ^ 32" if "k \<in> set (masters cl)" for k
  proof -
    have "unat (m_master_server_count cl) < 2 ^ 32" using unsigned_less [of "m_master_server_count cl"] by simp
    then show ?thesis using that by simp
  qed
  then have "i < 2 ^ 32" "j < 2 ^ 32" using assms(1,2) by blast+
  then have "unat (of_nat i :: u32) = i" "unat (of_nat j :: u32) = j" by (simp_all add: unat_of_nat)
  then show ?thesis using assms(3) by metis
qed

text \<open>A follower that answers \<open>ok\<close> is counted, and no other follower's state changes.\<close>

lemma ask_answered:
  assumes "reachable_masters cl node" and "c_str post = post" and "i \<in> set (masters cl) - {unat (m_kbid cl)}"
    and "run_follower M Cf L cl_of fuel sents (of_nat i) post (w (of_nat i)) = Some (reply, y)"
    and "body_of reply = ''ok''"
  shows "ask_masters (oplog_net M Cf L cl_of fuel sents node other) cl post (i # js) cnt w
      = ask_masters (oplog_net M Cf L cl_of fuel sents node other) cl post js (cnt + 1) (w(of_nat i := y))"
    and "k \<in> set (masters cl) \<Longrightarrow> k \<noteq> i \<Longrightarrow> (w(of_nat i := y)) (of_nat k) = w (of_nat k)"
proof -
  let ?C = "oplog_net M Cf L cl_of fuel sents node other"
  obtain ip port where p: "get_master_ip cl (of_nat i) = Ret ip" "get_master_confirm_oplog_port cl (of_nat i) = Ret port"
    "make_request_post ?C ip port ''/ConfirmOplog'' [] post w =
      (case run_follower M Cf L cl_of fuel sents (of_nat i) post (w (of_nat i)) of
         Some (reply, x) \<Rightarrow> Ret (True, body_of reply, w(of_nat i := x)) | None \<Rightarrow> Ret (False, [], w))"
    using reachable_post [OF assms(1,3,2)] by blast
  show "ask_masters ?C cl post (i # js) cnt w = ask_masters ?C cl post js (cnt + 1) (w(of_nat i := y))"
    using assms(3-5) p by simp
  show "(w(of_nat i := y)) (of_nat k) = w (of_nat k)" if "k \<in> set (masters cl)" "k \<noteq> i"
    using that assms(3) of_nat_masters_inj [of k cl i] by auto
qed

lemma ask_all:
  assumes "reachable_masters cl node" and "c_str post = post"
    and answer: "\<forall>i \<in> set (masters cl) - {unat (m_kbid cl)}. \<forall>x. P x \<longrightarrow>
      (\<exists>reply y. run_follower M Cf L cl_of fuel sents (of_nat i) post x = Some (reply, y) \<and> body_of reply = ''ok'' \<and> Q y)"
    and "distinct js" and "set js \<subseteq> set (masters cl)"
    and "\<forall>i \<in> set js - {unat (m_kbid cl)}. P (w (of_nat i))"
  shows "\<exists>w'. ask_masters (oplog_net M Cf L cl_of fuel sents node other) cl post js cnt w
      = Ret (cnt + card (set js - {unat (m_kbid cl)}), w')
    \<and> (\<forall>i \<in> set js - {unat (m_kbid cl)}. Q (w' (of_nat i)))
    \<and> (\<forall>i \<in> set (masters cl) - (set js - {unat (m_kbid cl)}). w' (of_nat i) = w (of_nat i))"
  using assms(4-6)
proof (induction js arbitrary: cnt w)
  case Nil
  then show ?case by simp
next
  case (Cons i js)
  let ?me = "unat (m_kbid cl)" and ?C = "oplog_net M Cf L cl_of fuel sents node other"
  show ?case
  proof (cases "i = ?me")
    case True
    then have "i # js = ?me # js" by simp
    moreover have "set (i # js) - {?me} = set js - {?me}" using True by auto
    ultimately show ?thesis using Cons by simp
  next
    case False
    then have i: "i \<in> set (masters cl) - {?me}" using Cons.prems(2) by simp
    have "P (w (of_nat i))" using Cons.prems(3) False by simp
    then obtain reply y where r: "run_follower M Cf L cl_of fuel sents (of_nat i) post (w (of_nat i)) = Some (reply, y)"
      "body_of reply = ''ok''" "Q y" using answer i by blast
    let ?w = "w(of_nat i := y)"
    note step = ask_answered [where w = w and i = i, OF assms(1,2) i r(1,2)]
    note other = step(2)
    have sub: "distinct js" "set js \<subseteq> set (masters cl)" "i \<notin> set js" using Cons.prems by simp_all
    have "\<forall>k \<in> set js - {?me}. P (?w (of_nat k))"
      using other sub(2,3) Cons.prems(3) by (metis Diff_iff list.set_intros(2) subsetD)
    from Cons.IH [OF sub(1,2) this, of "cnt + 1"] obtain w' where
      w': "ask_masters ?C cl post js (cnt + 1) ?w = Ret (cnt + 1 + card (set js - {?me}), w')"
        "\<forall>k \<in> set js - {?me}. Q (w' (of_nat k))"
        "\<forall>k \<in> set (masters cl) - (set js - {?me}). w' (of_nat k) = ?w (of_nat k)" by blast
    have "card (set (i # js) - {?me}) = Suc (card (set js - {?me}))"
      using False sub(3) by (simp add: insert_Diff_if)
    then have "ask_masters ?C cl post (i # js) cnt w = Ret (cnt + card (set (i # js) - {?me}), w')"
      using step(1) w'(1) by simp
    moreover have "w' (of_nat i) = y" using w'(3) i sub(3) by simp
    moreover have "\<forall>k \<in> set (masters cl) - (set (i # js) - {?me}). w' (of_nat k) = w (of_nat k)"
      using w'(3) other False by (metis Diff_iff insertI1 list.set(2) list.set_intros(2) singletonD)
    ultimately show ?thesis using w'(2) r(3) by (intro exI [of _ w']) (auto simp del: masters_simps(1))
  qed
qed

section \<open>An upload on a cluster in step\<close>

text \<open>A follower holds the same log and user data as the leader's stores \<open>s\<close>.\<close>

definition in_step :: "('d \<Rightarrow> (string, string) omap) \<Rightarrow> 'd dbs \<Rightarrow> confirm_state \<times> 'd dbs \<Rightarrow> bool" where
  "in_step stored s x \<longleftrightarrow> dbs_up (snd x) \<and> log_of stored (snd x) = log_of stored s \<and> files_of stored (snd x) = files_of stored s"

definition postable :: "codecs \<Rightarrow> operation_log_message \<Rightarrow> bool" where
  "postable M message \<longleftrightarrow> fst (ser (c_message M) message) \<and> phase_post M message \<noteq> []
     \<and> length (phase_post M message) < k_server_max_post_data_size"

lemma postable_read:
  assumes "postable M message" and "faithful M"
  shows "server_get_postdata (post_of (phase_post M message)) [] = (True, phase_post M message)"
    and "parse (c_message M) (base64_decode (phase_post M message)) = (True, message)"
  using assms message_codec.parse_snd_ser [of "c_message M" message]
  by (simp_all add: postable_def get_postdata_True post_of_def phase_post_def b64.dec_enc faithful_def)

lemma follower_proposes:
  assumes "reliable_db L stored" and "faithful M" and "get_status (sents i) \<noteq> K_status_leader" and "log_ok stored n s"
    and "message = Operation_log_message (Some 1) (Some (op_id n)) (Some op_log)" and "postable M message"
    and "in_step stored s x"
  shows "\<exists>reply y. run_follower M Cf L cl_of fuel sents i (phase_post M message) x = Some (reply, y) \<and> body_of reply = ''ok''
    \<and> in_step stored s y \<and> fst y = \<lparr>m_state = True, m_state_id = op_id n, m_state_data = op_log\<rparr>"
proof -
  obtain m sx where x: "x = (m, sx)" by fastforce
  have up: "dbs_up sx" "log_ok stored n sx" using assms(4,7) by (simp_all add: in_step_def x log_ok_def)
  obtain s1 where s1: "next_log_key L sx = Ret (op_id n, s1)" "dbs_up s1" "log_of stored s1 = log_of stored sx"
    "files_of stored s1 = files_of stored sx"
    using next_log_key_works [OF assms(1) up] by blast
  have "handle_propose M Cf L (cl_of i) fuel (sents i) message m sx ()
    = Ret (server_send_reply_ok ''ok'', \<lparr>m_state = True, m_state_id = op_id n, m_state_data = op_log\<rparr>, s1, ())"
    by (simp add: handle_propose_def Let_def s1(1) assms(5) msg_op_log_def)
  then have "confirm_oplog_handler M Cf L (cl_of i) fuel (sents i) (post_of (phase_post M message)) m sx ()
    = Ret (server_send_reply_ok ''ok'', \<lparr>m_state = True, m_state_id = op_id n, m_state_data = op_log\<rparr>, s1, ())"
    using assms(3,5) postable_read [OF assms(6,2)] by (simp add: confirm_oplog_handler_def)
  then show ?thesis
    using s1 assms(7) by (simp add: run_follower_def x in_step_def c_str_def)
qed

lemma follower_commits:
  assumes "reliable_db L stored" and "faithful M" and "get_status (sents i) \<noteq> K_status_leader"
    and "op_log = upload_op_log M key response"
    and "fst (ser (c_operation M) (Upload_file_operation (Some key) (Some response)))"
    and "ser (c_oplog M) op_log = (True, item)" and "ser (c_response M) response = (True, data)"
    and "message = Operation_log_message (Some 2) (Some (op_id n)) None" and "postable M message"
    and "in_step stored s x" and "fst x = \<lparr>m_state = True, m_state_id = op_id n, m_state_data = op_log\<rparr>"
    and "log_of stored s' = om_set (op_id n) item (log_of stored s)" and "files_of stored s' = om_set key data (files_of stored s)"
  shows "\<exists>reply y. run_follower M Cf L cl_of fuel sents i (phase_post M message) x = Some (reply, y) \<and> body_of reply = ''ok''
    \<and> in_step stored s' y"
proof -
  obtain sx where x: "x = (\<lparr>m_state = True, m_state_id = op_id n, m_state_data = op_log\<rparr>, sx)"
    using assms(11) by (cases x) simp
  have "dbs_up sx" using assms(10) by (simp add: in_step_def x)
  then obtain s2 where s2: "record_operation L (op_id n) item key data sx = Ret (Recorded, s2)" "dbs_up s2"
    "log_of stored s2 = om_set (op_id n) item (log_of stored sx)" "files_of stored s2 = om_set key data (files_of stored sx)"
    using record_operation_works [OF assms(1)] by blast
  have op: "parse (c_operation M) (field [] (ol_log_data op_log)) = (True, Upload_file_operation (Some key) (Some response))"
    "field 0 (ol_op_type op_log) = 1"
    using assms(2,4,5) message_codec.parse_snd_ser [of "c_operation M" "Upload_file_operation (Some key) (Some response)"]
    by (simp_all add: upload_op_log_def faithful_def)
  have "handle_commit M L message (fst x) sx = Ret (server_send_reply_ok ''ok'', s2)"
    by (simp add: handle_commit_def x assms(8) op assms(6,7) op_data_def s2(1) Let_def)
  then have "confirm_oplog_handler M Cf L (cl_of i) fuel (sents i) (post_of (phase_post M message)) (fst x) sx ()
    = Ret (server_send_reply_ok ''ok'', fst x, s2, ())"
    using assms(3,8) postable_read [OF assms(9,2)] by (simp add: confirm_oplog_handler_def)
  then show ?thesis
    using s2 assms(10,12,13) by (simp add: run_follower_def x in_step_def c_str_def)
qed

text \<open>The two phases, when every follower agrees and then commits.\<close>

lemma two_phase_all:
  assumes "reachable_masters cl node" and "\<forall>msg. c_str (phase_post M msg) = phase_post M msg"
    and "\<forall>i \<in> set (masters cl) - {unat (m_kbid cl)}. \<forall>x. P x \<longrightarrow> (\<exists>reply y.
      run_follower M Cf L cl_of fuel sents (of_nat i) (phase_post M (Operation_log_message (Some 1) (Some key) (Some op_log))) x
        = Some (reply, y) \<and> body_of reply = ''ok'' \<and> Q y)"
    and "\<forall>i \<in> set (masters cl) - {unat (m_kbid cl)}. \<forall>x. Q x \<longrightarrow> (\<exists>reply y.
      run_follower M Cf L cl_of fuel sents (of_nat i) (phase_post M (Operation_log_message (Some 2) (Some key) None)) x
        = Some (reply, y) \<and> body_of reply = ''ok'' \<and> R y)"
    and "\<forall>i \<in> set (masters cl) - {unat (m_kbid cl)}. P (w (of_nat i))"
  shows "\<exists>w'. two_phase M (oplog_net M Cf L cl_of fuel sents node other) cl key op_log w = Ret (True, w')
    \<and> (\<forall>i \<in> set (masters cl) - {unat (m_kbid cl)}. R (w' (of_nat i)))"
proof -
  let ?C = "oplog_net M Cf L cl_of fuel sents node other" and ?F = "set (masters cl) - {unat (m_kbid cl)}"
  have plain: "c_str (phase_post M msg) = phase_post M msg" for msg using assms(2) by blast
  from ask_all [OF assms(1) plain assms(3) masters_simps(3) subset_refl assms(5), where cnt = 1 and other = other]
  obtain w1 where w1: "ask_masters ?C cl (phase_post M (Operation_log_message (Some 1) (Some key) (Some op_log))) (masters cl) 1 w
      = Ret (1 + card ?F, w1)" "\<forall>i \<in> ?F. Q (w1 (of_nat i))"
    by (elim exE conjE)
  from ask_all [OF assms(1) plain assms(4) masters_simps(3) subset_refl w1(2), where cnt = 0 and other = other]
  obtain w2 where w2: "ask_masters ?C cl (phase_post M (Operation_log_message (Some 2) (Some key) None)) (masters cl) 0 w1
      = Ret (0 + card ?F, w2)" "\<forall>i \<in> ?F. R (w2 (of_nat i))"
    by (elim exE conjE)
  have me: "unat (m_kbid cl) \<in> set (masters cl)" using assms(1) by (simp add: reachable_masters_def)
  then have "0 < length (masters cl)" by auto
  with me have "1 + card ?F = length (masters cl)" "length (masters cl) \<noteq> 0"
    using distinct_card [OF masters_simps(3), of cl] by (auto simp del: masters_simps(1) simp: card_Suc_Diff1)
  then have "\<not> 1 + card ?F \<le> unat (get_master_count cl) div 2" by (simp add: get_master_count_def)
  then have "two_phase M ?C cl key op_log w = Ret (True, w2)"
    using w1(1) w2(1) by (simp add: two_phase_def Let_def)
  then show ?thesis using w2(2) by blast
qed

text \<open>An upload whose messages can be written and fit a request.\<close>

definition uploadable :: "codecs \<Rightarrow> nat \<Rightarrow> string \<times> upload_file_response \<times> string \<Rightarrow> bool" where
  "uploadable M n u \<longleftrightarrow> (case u of (key, response, data) \<Rightarrow>
     fst (ser (c_operation M) (Upload_file_operation (Some key) (Some response)))
     \<and> fst (ser (c_oplog M) (upload_op_log M key response)) \<and> ser (c_response M) response = (True, data)
     \<and> postable M (Operation_log_message (Some 1) (Some (op_id n)) (Some (upload_op_log M key response)))
     \<and> postable M (Operation_log_message (Some 2) (Some (op_id n)) None))"

text \<open>What an upload is recorded as in the log.\<close>

definition item_of :: "codecs \<Rightarrow> string \<times> upload_file_response \<times> string \<Rightarrow> string" where
  "item_of M u = snd (ser (c_oplog M) (upload_op_log M (fst u) (fst (snd u))))"

lemma upload_step:
  assumes "reliable_db L stored" and "faithful M" and "reachable_masters cl node"
    and followers: "\<forall>i \<in> set (masters cl) - {unat (m_kbid cl)}.
      get_status (sents (of_nat i)) \<noteq> K_status_leader \<and> in_step stored s (w (of_nat i))"
    and "dbs_up s" and "log_ok stored n s" and "Suc n < 2 ^ 64" and "uploadable M n (key, response, data)"
  shows "\<exists>s' w'. upload_commit M (oplog_net M Cf L cl_of fuel sents node other) L cl key response data s w
      = Ret (Reply_ok (base64_encode data), s', w')
    \<and> dbs_up s' \<and> log_ok stored (Suc n) s' \<and> files_of stored s' = om_set key data (files_of stored s)
    \<and> map snd (log_of stored s') = map snd (log_of stored s) @ [item_of M (key, response, data)]
    \<and> (\<forall>i \<in> set (masters cl) - {unat (m_kbid cl)}. in_step stored s' (w' (of_nat i)))"
proof -
  let ?F = "set (masters cl) - {unat (m_kbid cl)}" and ?op_log = "upload_op_log M key response"
  let ?item = "item_of M (key, response, data)"
  note ldb = reliable_db.axioms(1) [OF assms(1)]
  have u: "fst (ser (c_operation M) (Upload_file_operation (Some key) (Some response)))"
    "ser (c_oplog M) ?op_log = (True, ?item)" "ser (c_response M) response = (True, data)"
    "postable M (Operation_log_message (Some 1) (Some (op_id n)) (Some ?op_log))"
    "postable M (Operation_log_message (Some 2) (Some (op_id n)) None)"
    using assms(8) by (simp_all add: uploadable_def item_of_def prod_eq_iff)
  obtain s1 where s1: "next_log_key L s = Ret (op_id n, s1)" "dbs_up s1" "log_of stored s1 = log_of stored s"
    "files_of stored s1 = files_of stored s"
    using next_log_key_works [OF assms(1,5,6)] by blast
  obtain s' where s': "record_operation L (op_id n) ?item key data s1 = Ret (Recorded, s')" "dbs_up s'"
    "log_of stored s' = om_set (op_id n) ?item (log_of stored s)" "files_of stored s' = om_set key data (files_of stored s)"
    using record_operation_works [OF assms(1) s1(2)] s1(3,4) by metis
  let ?Q = "\<lambda>x. in_step stored s x \<and> fst x = \<lparr>m_state = True, m_state_id = op_id n, m_state_data = ?op_log\<rparr>"
  have plain: "\<forall>msg. c_str (phase_post M msg) = phase_post M msg" by (simp add: phase_post_def b64.enc_c_str)
  have agree: "\<forall>i \<in> ?F. \<forall>x. in_step stored s x \<longrightarrow> (\<exists>reply y. run_follower M Cf L cl_of fuel sents (of_nat i)
      (phase_post M (Operation_log_message (Some 1) (Some (op_id n)) (Some ?op_log))) x = Some (reply, y)
      \<and> body_of reply = ''ok'' \<and> ?Q y)"
    using follower_proposes [OF assms(1,2) _ assms(6) refl u(4)] followers by blast
  have commit: "\<forall>i \<in> ?F. \<forall>x. ?Q x \<longrightarrow> (\<exists>reply y. run_follower M Cf L cl_of fuel sents (of_nat i)
      (phase_post M (Operation_log_message (Some 2) (Some (op_id n)) None)) x = Some (reply, y)
      \<and> body_of reply = ''ok'' \<and> in_step stored s' y)"
    using follower_commits [OF assms(1,2) _ refl u(1-3) refl u(5) _ _ s'(3,4)] followers by blast
  have "\<forall>i \<in> ?F. in_step stored s (w (of_nat i))" using followers by blast
  from two_phase_all [OF assms(3) plain agree commit this] obtain w' where
    two: "two_phase M (oplog_net M Cf L cl_of fuel sents node other) cl (op_id n) ?op_log w = Ret (True, w')"
    and step: "\<forall>i \<in> ?F. in_step stored s' (w' (of_nat i))" by blast
  have "upload_commit M (oplog_net M Cf L cl_of fuel sents node other) L cl key response data s w
      = Ret (Reply_ok (base64_encode data), s', w')"
    by (simp add: upload_commit_def s1(1) two u(2) s'(1) server_send_reply_ok_def b64.enc_c_str Let_def)
  then show ?thesis
    using log_ok_append [OF ldb assms(6) s'(3) assms(7)] step s'(2,4) by auto
qed

text \<open>
  C1: One upload keeps the cluster in step. When the stores work, every other master can be
  addressed, none of them believes to be leader, all hold the leader's log and user data, and
  the messages fit a request, the two phases succeed: the leader answers 200 with the file's
  record, its log is one entry longer, and every follower again holds the leader's stores.
\<close>

theorem upload_replicates:
  assumes "reliable_db L stored" and "faithful M" and "reachable_masters cl node"
    and "\<forall>i \<in> set (masters cl) - {unat (m_kbid cl)}.
      get_status (sents (of_nat i)) \<noteq> K_status_leader \<and> in_step stored s (w (of_nat i))"
    and "dbs_up s" and "log_ok stored n s" and "Suc n < 2 ^ 64"
    and "op_log = upload_op_log M key response"
    and "fst (ser (c_operation M) (Upload_file_operation (Some key) (Some response)))"
    and "fst (ser (c_oplog M) op_log)" and "ser (c_response M) response = (True, data)"
    and "postable M (Operation_log_message (Some 1) (Some (op_id n)) (Some op_log))"
    and "postable M (Operation_log_message (Some 2) (Some (op_id n)) None)"
  shows "\<exists>s' w'. upload_commit M (oplog_net M Cf L cl_of fuel sents node other) L cl key response data s w
      = Ret (Reply_ok (base64_encode data), s', w')
    \<and> log_ok stored (Suc n) s' \<and> (\<forall>i \<in> set (masters cl) - {unat (m_kbid cl)}. in_step stored s' (w' (of_nat i)))"
proof -
  have "uploadable M n (key, response, data)" using assms(8-13) by (simp add: uploadable_def)
  from upload_step [OF assms(1-7) this] show ?thesis by blast
qed

section \<open>Any number of uploads\<close>

fun upload_all ::
  "codecs \<Rightarrow> 'w curl_ops \<Rightarrow> 'd leveldb_ops \<Rightarrow> cluster \<Rightarrow> (string \<times> upload_file_response \<times> string) list
     \<Rightarrow> 'd dbs \<Rightarrow> 'w \<Rightarrow> (reply list \<times> 'd dbs \<times> 'w) outcome" where
  "upload_all M C L cl [] s w = Ret ([], s, w)"
| "upload_all M C L cl ((key, response, data) # us) s w =
     obind (upload_commit M C L cl key response data s w) (\<lambda>(reply, s1, w1).
     obind (upload_all M C L cl us s1 w1) (\<lambda>(replies, s2, w2). Ret (reply # replies, s2, w2)))"

fun all_uploadable :: "codecs \<Rightarrow> nat \<Rightarrow> (string \<times> upload_file_response \<times> string) list \<Rightarrow> bool" where
  "all_uploadable M n [] \<longleftrightarrow> True"
| "all_uploadable M n (u # us) \<longleftrightarrow> uploadable M n u \<and> all_uploadable M (Suc n) us"

lemma uploads_replicate:
  assumes "reliable_db L stored" and "faithful M" and "reachable_masters cl node"
    and "\<forall>i \<in> set (masters cl) - {unat (m_kbid cl)}. get_status (sents (of_nat i)) \<noteq> K_status_leader"
    and "\<forall>i \<in> set (masters cl) - {unat (m_kbid cl)}. in_step stored s (w (of_nat i))"
    and "dbs_up s" and "log_ok stored n s" and "n + length us < 2 ^ 64" and "all_uploadable M n us"
  shows "\<exists>s' w'. upload_all M (oplog_net M Cf L cl_of fuel sents node other) L cl us s w
      = Ret (map (\<lambda>(_, _, data). Reply_ok (base64_encode data)) us, s', w')
    \<and> dbs_up s' \<and> log_ok stored (n + length us) s'
    \<and> map snd (log_of stored s') = map snd (log_of stored s) @ map (item_of M) us
    \<and> files_of stored s' = fold (\<lambda>(key, _, data). om_set key data) us (files_of stored s)
    \<and> (\<forall>i \<in> set (masters cl) - {unat (m_kbid cl)}. in_step stored s' (w' (of_nat i)))"
  using assms(5-9)
proof (induction us arbitrary: n s w)
  case Nil
  then show ?case by simp
next
  case (Cons u us)
  obtain key response data where u: "u = (key, response, data)" by (cases u)
  have f: "\<forall>i \<in> set (masters cl) - {unat (m_kbid cl)}.
      get_status (sents (of_nat i)) \<noteq> K_status_leader \<and> in_step stored s (w (of_nat i))"
    using assms(4) Cons.prems(1) by blast
  have n: "Suc n < 2 ^ 64" "Suc n + length us < 2 ^ 64" using Cons.prems(4) by simp_all
  have ok: "uploadable M n (key, response, data)" "all_uploadable M (Suc n) us" using Cons.prems(5) u by simp_all
  from upload_step [OF assms(1-3) f Cons.prems(2,3) n(1) ok(1)] obtain s1 w1 where
    1: "upload_commit M (oplog_net M Cf L cl_of fuel sents node other) L cl key response data s w
      = Ret (Reply_ok (base64_encode data), s1, w1)"
      "dbs_up s1" "log_ok stored (Suc n) s1" "files_of stored s1 = om_set key data (files_of stored s)"
      "map snd (log_of stored s1) = map snd (log_of stored s) @ [item_of M (key, response, data)]"
      "\<forall>i \<in> set (masters cl) - {unat (m_kbid cl)}. in_step stored s1 (w1 (of_nat i))" by blast
  from Cons.IH [OF 1(6,2,3) n(2) ok(2)] 1 show ?case by (auto simp: u)
qed

text \<open>The log entry of an upload is read back as its key and record.\<close>

lemma upload_item_of:
  assumes "faithful M" and "uploadable M n (key, response, data)"
  shows "upload_item M (item_of M (key, response, data)) = Some (key, data)"
proof -
  have u: "fst (ser (c_operation M) (Upload_file_operation (Some key) (Some response)))"
    "fst (ser (c_oplog M) (upload_op_log M key response))" "ser (c_response M) response = (True, data)"
    using assms(2) by (simp_all add: uploadable_def)
  have "parse (c_oplog M) (item_of M (key, response, data)) = (True, upload_op_log M key response)"
    using assms(1) u(2) message_codec.parse_snd_ser [of "c_oplog M" "upload_op_log M key response"]
    by (simp add: item_of_def faithful_def)
  moreover have "parse (c_operation M) (field [] (ol_log_data (upload_op_log M key response)))
      = (True, Upload_file_operation (Some key) (Some response))"
    using assms(1) u(1) message_codec.parse_snd_ser [of "c_operation M" "Upload_file_operation (Some key) (Some response)"]
    by (simp add: upload_op_log_def faithful_def)
  ultimately show ?thesis by (simp add: upload_item_def upload_op_log_def op_data_def u(3) Let_def)
qed

lemma upload_items_of:
  assumes "faithful M" and "all_uploadable M n us"
  shows "\<forall>item \<in> set (map (item_of M) us). upload_item M item \<noteq> None"
    and "fold (record_item M) (map (item_of M) us) files = fold (\<lambda>(key, _, data). om_set key data) us files"
  using assms(2)
proof (induction us arbitrary: n files)
  case (Cons u us)
  obtain key response data where u: "u = (key, response, data)" by (cases u)
  { case 1
    then have "upload_item M (item_of M u) \<noteq> None" using upload_item_of [OF assms(1), of n key response data] u by simp
    then show ?case using Cons.IH(1) 1 by auto
  next
    case 2
    then have "record_item M (item_of M u) files = om_set key data files"
      using upload_item_of [OF assms(1), of n key response data] u by (simp add: record_item_def)
    then show ?case using Cons.IH(2) [of "Suc n" "om_set key data files"] 2 u by simp }
qed simp_all

section \<open>Fetching from a real leader\<close>

lemma log_eqI: "map fst xs = map fst ys \<Longrightarrow> map snd xs = map snd ys \<Longrightarrow> xs = ys"
  by (metis zip_map_fst_snd)

text \<open>The page a leader with \<open>N\<close> entries sends for id \<open>n\<close>.\<close>

lemma leader_page:
  assumes "leveldb L stored" and "faithful M" and "\<forall>m. fst (ser (c_page M) m)" and "log_ok stored N sl"
    and "n < N" and "base64_decode (input_buffer req) = op_id n"
    and "get_oplog_handler M L req sl = Ret (reply, sl')" and "is_ok reply"
  shows "go_log_data (snd (parse (c_page M) (base64_decode (body_of reply)))) = take 100 (drop n (map snd (log_of stored sl)))"
proof -
  have "n < 2 ^ 64" using assms(4,5) by (simp add: log_ok_def)
  from get_oplog_content [OF assms(1-4,6) this assms(7)] assms(8) show ?thesis
    by (simp add: take_map drop_map)
qed

lemma leader_items:
  assumes "leveldb L stored" and "faithful M" and "\<forall>m. fst (ser (c_page M) m)" and "log_ok stored N sl" and "n < N"
    and "entries = map snd (log_of stored sl)" and "\<forall>item \<in> set entries. upload_item M item \<noteq> None"
    and "get_oplog_handler M L req sl = Ret (reply, sl')" and "is_ok reply" and "input_buffer req = base64_encode (op_id n)"
  shows "take 100 (drop n entries) = go_log_data (snd (parse (c_page M) (base64_decode (body_of reply))))"
    and "\<forall>item \<in> set (take 100 (drop n entries)). upload_item M item \<noteq> None"
    and "length (take 100 (drop n entries)) = min 100 (N - n)" and "take 100 (drop n entries) \<noteq> []"
proof -
  show "take 100 (drop n entries) = go_log_data (snd (parse (c_page M) (base64_decode (body_of reply))))"
    using leader_page [OF assms(1-5) _ assms(8,9)] assms(6,10) by (simp add: b64.dec_enc)
  show "\<forall>item \<in> set (take 100 (drop n entries)). upload_item M item \<noteq> None"
    using assms(7) set_take_subset [of 100 "drop n entries"] set_drop_subset [of n entries] by blast
  have "length entries = N" using assms(4,6) by (simp add: log_ok_def log_nth(1))
  then show "length (take 100 (drop n entries)) = min 100 (N - n)" and "take 100 (drop n entries) \<noteq> []"
    using assms(5) by auto
qed


section \<open>Concrete runs\<close>

definition small_node :: "string \<Rightarrow> u32 option" where
  "small_node url = (if url ! 7 = CHR ''b'' then Some 2 else if url ! 7 = CHR ''c'' then Some 3 else None)"

lemma small_reachable: "reachable_masters (small_cluster 1) small_node"
  by (auto simp: reachable_masters_def small_addresses small_urls small_node_def)

lemma upload_replicates_witness:
  "\<exists>s' w'. upload_commit (small_codecs [] []) (oplog_net (small_codecs [] []) refusing_net journal_ldb small_cluster 0
      (\<lambda>_. small_follower) small_node (\<lambda>_. None)) journal_ldb (small_cluster 1) ''uf'' small_response ''0'' empty_dbs
      (\<lambda>_. (confirm_new, empty_dbs)) = Ret (Reply_ok (base64_encode ''0''), s', w')
    \<and> log_ok replay 1 s' \<and> in_step replay s' (w' 2) \<and> in_step replay s' (w' 3)"
proof -
  let ?M = "small_codecs [] []"
  have log: "small_oplog = upload_op_log ?M ''uf'' small_response" by (simp only: small_codes)
  have F: "set (masters (small_cluster 1)) - {unat (m_kbid (small_cluster 1))} = {2, 3}"
    unfolding small_addresses by auto
  have posts: "phase_post ?M small_propose = ''MA==''" "phase_post ?M small_confirm = ''MQ==''" by code_simp+
  have post: "postable ?M small_propose" "postable ?M small_confirm"
    unfolding postable_def posts
    by (simp_all add: k_server_max_post_data_size_def small_codecs_def table_codec_def)
  have ops: "fst (ser (c_operation ?M) (Upload_file_operation (Some ''uf'') (Some small_response)))"
    "fst (ser (c_oplog ?M) small_oplog)" "ser (c_response ?M) small_response = (True, ''0'')"
    by code_simp+
  have step: "in_step replay empty_dbs (confirm_new, empty_dbs)" "get_status small_follower \<noteq> K_status_leader"
    by (simp_all add: in_step_def empty_dbs_ok small_follows)
  show ?thesis
    using upload_replicates [OF journal.reliable_db_axioms small_faithful small_reachable _ empty_dbs_ok(1,2) _ log ops,
        where sents = "\<lambda>_. small_follower" and w = "\<lambda>_. (confirm_new, empty_dbs)" and Cf = refusing_net
          and cl_of = small_cluster and fuel = 0 and other = "\<lambda>_. None", unfolded F] post step
    by (simp add: small_propose_def small_confirm_def)
qed

text \<open>A leader with one entry and an empty follower, on the reference codecs.\<close>

definition one_item :: string where
  "one_item = snd (ser ref_codec (Operation_log (Some 1) (Some (snd (ser ref_codec small_operation)))))"

definition one_data :: string where
  "one_data = snd (ser ref_codec small_response)"

definition one_dbs :: "journal dbs" where
  "one_dbs = \<lparr>userdata_db = \<lparr>db_conn = True, db_store = [(''uf'', Some one_data)]\<rparr>,
     oplog_db = \<lparr>db_conn = True, db_store = [(op_id 0, Some one_item)]\<rparr>\<rparr>"

lemma one_upload: "upload_item ref_codecs one_item = Some (''uf'', one_data)"
  by (simp add: upload_item_def one_item_def one_data_def small_operation_def op_data_def Let_def)

lemma one_contents: "log_of replay one_dbs = [(op_id 0, one_item)]" "files_of replay one_dbs = om_set ''uf'' one_data []"
  by (simp_all add: log_of_def files_of_def one_dbs_def om_set_def)

lemma one_page:
  "get_oplog_handler ref_codecs journal_ldb (small_post (op_id 0)) one_dbs
    = Ret (Reply_ok (base64_encode (snd (ser ref_codec (Get_oplog_response (Some (op_id 0)) [one_item])))), one_dbs)"
proof -
  have len: "length (base64_encode (op_id 0)) = 12" by code_simp
  have body: "server_get_postdata (small_post (op_id 0)) [] = (True, base64_encode (op_id 0))"
    using len by (auto simp: small_post_def get_postdata_True k_server_max_post_data_size_def)
  have ex: "db_exist journal_ldb (op_id 0) (oplog_db one_dbs) = Ret (True, oplog_db one_dbs)"
    by (simp add: db_exist_def db_get_def journal_ldb_def one_dbs_def om_find_def om_set_def)
  have it: "db_iterator journal_ldb (oplog_db one_dbs) = Ret (Some [(op_id 0, one_item)], oplog_db one_dbs)"
    by (simp add: db_iterator_def journal_ldb_def one_dbs_def om_set_def)
  show ?thesis
    by (simp add: get_oplog_handler_def Let_def body b64.dec_enc b64.enc_c_str ex it server_send_reply_ok_def)
qed


end
