(* ===== verification/Chunk_Files.thy ===== *)
theory Chunk_Files
  imports Database Protobuf Base_Server Oplog_Base
begin

text \<open>
  The four request handlers of a chunk server, in \<open>server/request_handlers\<close>: storing and
  fetching a file's key information, and writing and reading a piece of a chunk file. The
  file system is the parameter \<open>F\<close>, a record of the calls the code makes (each a stdio or POSIX
  call with its path); what a stream does at a position is written out.
\<close>

section \<open>Messages of \<open>upload_chunk_file.proto\<close>\<close>

datatype upload_chunk_file_request = Upload_chunk_file_request
  (uc_account: "string option") (uc_file_name: "string option") (uc_chunk: "string option") (uc_offset: "s64 option")

datatype download_chunk_file_request = Download_chunk_file_request
  (dc_account: "string option") (dc_file_name: "string option") (dc_offset: "s64 option")

datatype set_file_key_info = Set_file_key_info
  (sk_account: "string option") (sk_file_name: "string option") (sk_file_hosts: "string list")
  (sk_file_size: "s64 option") (sk_merkle_sha1: "string option") (sk_key_aes: "string option")

datatype get_file_key_info = Get_file_key_info (gi_account: "string option") (gi_file_name: "string option")

section \<open>Files\<close>

text \<open>
  \<open>stat\<close> on a path; \<open>mkdir\<close>; \<open>fopen(path, "wb")\<close> and closing the stream again; what a stream
  from \<open>fopen(path, "rb+")\<close> holds (None: the call gave NULL); and \<open>fwrite\<close> of one block at a
  position of such a stream, then closing it.
\<close>

record 'f file_ops =
  f_exists :: "string \<Rightarrow> 'f \<Rightarrow> bool"
  f_mkdir :: "string \<Rightarrow> 'f \<Rightarrow> 'f"
  f_truncate :: "string \<Rightarrow> 'f \<Rightarrow> bool \<times> 'f"
  f_content :: "string \<Rightarrow> 'f \<Rightarrow> string option"
  f_write :: "string \<Rightarrow> nat \<Rightarrow> string \<Rightarrow> 'f \<Rightarrow> 'f"

text \<open>\<open>fseek(fp, offset, SEEK_SET)\<close> on a fresh stream fails for a negative offset and leaves it at 0.\<close>

definition seek_pos :: "s64 \<Rightarrow> nat" where
  "seek_pos offset = (if sint offset < 0 then 0 else nat (sint offset))"

text \<open>Writing behind the end of a file fills the hole with zero bytes; writing nothing changes nothing.\<close>

definition write_at :: "nat \<Rightarrow> string \<Rightarrow> string \<Rightarrow> string" where
  "write_at pos data old =
     (if data = [] then old
      else take pos (old @ replicate (pos - length old) nul) @ data @ drop (pos + length data) old)"

text \<open>What the code relies on, while the disk works.\<close>

locale file_laws =
  fixes F :: "'f file_ops" and held :: "'f \<Rightarrow> string \<rightharpoonup> string"
  assumes content_law: "f_content F p f = held f p"
    and mkdir_law: "held (f_mkdir F p f) = held f"
    and truncate_law: "f_truncate F p f = (True, f') \<Longrightarrow> held f' = (held f)(p \<mapsto> [])"
    and truncate_fail_law: "f_truncate F p f = (False, f') \<Longrightarrow> held f' = held f"
    and write_law: "held f p = Some old \<Longrightarrow> held (f_write F p pos d f) = (held f)(p \<mapsto> write_at pos d old)"
begin

lemma write_read:
  "f_content F p f = Some old \<Longrightarrow> f_content F p (f_write F p pos d f) = Some (write_at pos d old)"
  by (simp add: content_law write_law)

lemma write_other:
  "f_content F p f = Some old \<Longrightarrow> q \<noteq> p \<Longrightarrow> f_content F q (f_write F p pos d f) = f_content F q f"
  by (simp add: content_law write_law)

end

text \<open>A file system as a map from paths to contents.\<close>

definition mem_files :: "(string \<rightharpoonup> string) file_ops" where
  "mem_files =
     \<lparr>f_exists = (\<lambda>p f. f p \<noteq> None), f_mkdir = (\<lambda>_ f. f),
      f_truncate = (\<lambda>p f. (True, f(p \<mapsto> []))), f_content = (\<lambda>p f. f p),
      f_write = (\<lambda>p pos d f. case f p of Some old \<Rightarrow> f(p \<mapsto> write_at pos d old) | None \<Rightarrow> f)\<rparr>"

lemma mem_files_simps [simp]:
  "f_exists mem_files p f = (f p \<noteq> None)" "f_mkdir mem_files p f = f" "f_truncate mem_files p f = (True, f(p \<mapsto> []))"
  "f_content mem_files p f = f p"
  "f_write mem_files p pos d f = (case f p of Some old \<Rightarrow> f(p \<mapsto> write_at pos d old) | None \<Rightarrow> f)"
  by (simp_all add: mem_files_def)

interpretation mem: file_laws mem_files id
  by unfold_locales auto

section \<open>Handlers\<close>

text \<open>\<open>sprintf(filepath, "./%s/%s.chunkfile", ...)\<close> into 1024 bytes.\<close>

definition chunk_path :: "string \<Rightarrow> string \<Rightarrow> string outcome" where
  "chunk_path account file_name =
     (let path = ''./'' @ c_str account @ ''/'' @ c_str file_name @ ''.chunkfile'' in
      if 1024 \<le> length path then Undef else Ret path)"

definition user_dir :: "string \<Rightarrow> string outcome" where
  "user_dir account = (let path = ''./'' @ c_str account in if 1024 \<le> length path then Undef else Ret path)"

definition upload_chunk_handler ::
  "upload_chunk_file_request codec \<Rightarrow> 'f file_ops \<Rightarrow> request \<Rightarrow> 'f \<Rightarrow> (reply \<times> 'f) outcome" where
  "upload_chunk_handler P F req f =
     (let (got, request_body) = server_get_postdata req [] in
      if \<not> got then Ret (server_send_reply_bad ''Can't read post data...'', f)
      else
        let request = snd (parse P (base64_decode request_body)) in
        obind (chunk_path (field [] (uc_account request)) (field [] (uc_file_name request))) (\<lambda>filepath.
        case f_content F filepath f of
          None \<Rightarrow> Ret (server_send_reply_bad ''failed to right'', f)
        | Some _ \<Rightarrow>
            let chunk = base64_decode (field [] (uc_chunk request)) in
            Ret (server_send_reply_ok ''OK'',
                 f_write F filepath (seek_pos (field 0 (uc_offset request))) chunk f)))"

definition k_chunk_size :: nat where
  "k_chunk_size = 1024"

text \<open>
  \<open>fread\<close> takes at most \<open>k_chunk_size\<close> bytes from the position on. The length of the reply is
  \<open>ftell(fp) - offset\<close>: after a failed seek it exceeds what was read, and the reply would hold
  bytes of the buffer that were never written.
\<close>

definition download_chunk_handler ::
  "download_chunk_file_request codec \<Rightarrow> 'f file_ops \<Rightarrow> request \<Rightarrow> 'f \<Rightarrow> reply outcome" where
  "download_chunk_handler P F req f =
     (let (got, request_body) = server_get_postdata req [] in
      if \<not> got then Ret (server_send_reply_bad ''Can't read post data...'')
      else
        let request = snd (parse P (base64_decode request_body)) in
        obind (chunk_path (field [] (dc_account request)) (field [] (dc_file_name request))) (\<lambda>filepath.
        case f_content F filepath f of
          None \<Rightarrow> Ret (server_send_reply_bad ''failed to right'')
        | Some content \<Rightarrow>
            let offset = field 0 (dc_offset request);
                buff = take k_chunk_size (drop (seek_pos offset) content) in
            if sint offset < 0 then Undef
            else Ret (server_send_reply_ok (base64_encode buff))))"

text \<open>
  The outcome of \<open>put\<close> is ignored; \<open>fclose\<close> gets the stream of \<open>fopen(..., "wb")\<close> whether or
  not it was opened.
\<close>

definition set_file_key_info_handler ::
  "set_file_key_info codec \<Rightarrow> 'd leveldb_ops \<Rightarrow> 'f file_ops \<Rightarrow> request \<Rightarrow> 'd db \<Rightarrow> 'f
     \<Rightarrow> (reply \<times> 'd db \<times> 'f) outcome" where
  "set_file_key_info_handler P L F req db f =
     (let (got, body) = server_get_postdata req [] in
      if \<not> got then Ret (server_send_reply_bad ''Can't read post data...'', db, f)
      else
        let request_body = base64_decode body;
            info = snd (parse P request_body);
            account = field [] (sk_account info);
            file_name = field [] (sk_file_name info) in
        obind (db_put L (account @ file_name) request_body db) (\<lambda>(_, db1).
        obind (user_dir account) (\<lambda>dir.
        let f1 = (if \<not> f_exists F dir f then f_mkdir F dir f else f) in
        obind (chunk_path account file_name) (\<lambda>path.
        let (opened, f2) = f_truncate F path f1 in
        if \<not> opened then Undef
        else Ret (server_send_reply_ok ''Set file key info success'', db1, f2)))))"

definition get_file_key_info_handler ::
  "get_file_key_info codec \<Rightarrow> 'd leveldb_ops \<Rightarrow> request \<Rightarrow> 'd db \<Rightarrow> (reply \<times> 'd db) outcome" where
  "get_file_key_info_handler P L req db =
     (let (got, request_body) = server_get_postdata req [] in
      if \<not> got then Ret (server_send_reply_bad ''Can't read post data...'', db)
      else
        let info = snd (parse P (base64_decode request_body)) in
        obind (db_get L (field [] (gi_account info) @ field [] (gi_file_name info)) ''Service denied...'' db)
          (\<lambda>(found, reply, db1).
            if \<not> found then Ret (server_send_reply_bad ''No such file'', db1)
            else Ret (server_send_reply_ok (base64_encode reply), db1)))"

section \<open>Pieces of a file\<close>

lemma length_padded: "length (take pos (old @ replicate (pos - length old) c)) = pos"
  by (simp del: take_append)

lemma length_write_at: "length (write_at pos d old) = (if d = [] then length old else max (length old) (pos + length d))"
  unfolding write_at_def by (auto simp del: take_append length_take simp: length_padded max_def)

lemma nth_padded: "i < pos \<Longrightarrow> take pos (old @ replicate (pos - length old) c) ! i = (if i < length old then old ! i else c)"
  by (simp del: take_append add: nth_append)

lemma nth_write_at:
  assumes "i < length (write_at pos d old)"
  shows "write_at pos d old ! i
    = (if pos \<le> i \<and> i < pos + length d then d ! (i - pos) else if i < length old then old ! i else nul)"
proof (cases "d = []")
  case True
  then show ?thesis using assms by (auto simp: write_at_def)
next
  case False
  have "i < max (length old) (pos + length d)" using assms False by (simp add: length_write_at)
  then show ?thesis
    using False unfolding write_at_def
    by (auto simp del: take_append length_take simp: nth_append length_padded nth_padded)
      (simp_all add: min_def)
qed

lemma drop_write_at: "drop pos (write_at pos d old) = d @ drop (pos + length d) old"
  unfolding write_at_def by (simp del: take_append length_take add: length_padded)

lemma write_at_commute:
  assumes "p + length d \<le> q"
  shows "write_at p d (write_at q e old) = write_at q e (write_at p d old)"
proof (rule nth_equalityI)
  show len: "length (write_at p d (write_at q e old)) = length (write_at q e (write_at p d old))"
    by (auto simp: length_write_at)
  fix i
  assume i: "i < length (write_at p d (write_at q e old))"
  have r: "write_at p d (write_at q e old) ! i
    = (if p \<le> i \<and> i < p + length d then d ! (i - p)
       else if i < length (write_at q e old) then write_at q e old ! i else nul)"
    by (rule nth_write_at [OF i])
  have l: "write_at q e (write_at p d old) ! i
    = (if q \<le> i \<and> i < q + length e then e ! (i - q)
       else if i < length (write_at p d old) then write_at p d old ! i else nul)"
    by (rule nth_write_at) (use i len in simp)
  show "write_at p d (write_at q e old) ! i = write_at q e (write_at p d old) ! i"
    unfolding l r using assms nth_write_at [of i q e old] nth_write_at [of i p d old]
    by (auto simp: length_write_at)
qed

section \<open>What the handlers do\<close>

definition reads :: "'m codec \<Rightarrow> request \<Rightarrow> 'm \<Rightarrow> bool" where
  "reads P req message \<longleftrightarrow> snd (parse P (base64_decode (input_buffer req))) = message"

lemma upload_chunk_ok:
  assumes "upload_chunk_handler P F req f = Ret (reply, f')" and "is_ok reply"
    and "reads P req (Upload_chunk_file_request (Some account) (Some name) (Some (base64_encode data)) (Some offset))"
  shows "\<exists>path old. chunk_path account name = Ret path \<and> f_content F path f = Some old
    \<and> f' = f_write F path (seek_pos offset) data f"
proof -
  obtain path where p: "chunk_path account name = Ret path"
    using assms unfolding upload_chunk_handler_def reads_def Let_def
    by (auto elim!: obind_RetE split: prod.splits if_splits simp: server_get_postdata_def Let_def)
  then show ?thesis
    using assms unfolding upload_chunk_handler_def reads_def Let_def
    by (auto split: prod.splits if_splits option.splits simp: server_get_postdata_def Let_def b64.dec_enc)
qed

lemma download_chunk_ok:
  assumes "download_chunk_handler P F req f = Ret reply" and "is_ok reply"
    and "reads P req (Download_chunk_file_request (Some account) (Some name) (Some offset))"
  shows "\<exists>path content. chunk_path account name = Ret path \<and> f_content F path f = Some content \<and> 0 \<le> sint offset
    \<and> base64_decode (body_of reply) = take k_chunk_size (drop (seek_pos offset) content)"
proof -
  obtain path where p: "chunk_path account name = Ret path"
    using assms unfolding download_chunk_handler_def reads_def Let_def
    by (auto elim!: obind_RetE split: prod.splits if_splits simp: server_get_postdata_def Let_def)
  then show ?thesis
    using assms unfolding download_chunk_handler_def reads_def Let_def
    by (auto split: prod.splits if_splits option.splits simp: server_get_postdata_def Let_def b64.dec_enc b64.enc_c_str)
qed


text \<open>
  Pieces may arrive in any order: two acknowledged uploads to one file whose ranges do not
  overlap leave the same files whichever of them the server handles first.
\<close>

theorem chunk_order_irrelevant:
  assumes "file_laws F held"
    and "reads P req1 (Upload_chunk_file_request (Some account) (Some name) (Some (base64_encode d1)) (Some o1))"
    and "reads P req2 (Upload_chunk_file_request (Some account) (Some name) (Some (base64_encode d2)) (Some o2))"
    and "0 \<le> sint o1" and "sint o1 + int (length d1) \<le> sint o2"
    and "upload_chunk_handler P F req1 f = Ret (r1, f1)" and "upload_chunk_handler P F req2 f1 = Ret (r2, f12)"
    and "upload_chunk_handler P F req2 f = Ret (r3, f2)" and "upload_chunk_handler P F req1 f2 = Ret (r4, f21)"
    and "is_ok r1 \<and> is_ok r2 \<and> is_ok r3 \<and> is_ok r4"
  shows "held f12 = held f21"
proof -
  obtain path old where 1: "chunk_path account name = Ret path" "f_content F path f = Some old"
    "f1 = f_write F path (seek_pos o1) d1 f"
    using upload_chunk_ok [OF assms(6) _ assms(2)] assms(10) by blast
  have 2: "f12 = f_write F path (seek_pos o2) d2 f1" "f2 = f_write F path (seek_pos o2) d2 f"
    "f21 = f_write F path (seek_pos o1) d1 f2"
    using upload_chunk_ok [OF assms(7) _ assms(3)] upload_chunk_ok [OF assms(8) _ assms(3)]
      upload_chunk_ok [OF assms(9) _ assms(2)] assms(10) 1(1) by auto
  have h: "held f path = Some old" using file_laws.content_law [OF assms(1)] 1(2) by metis
  have c: "write_at (seek_pos o2) d2 (write_at (seek_pos o1) d1 old)
      = write_at (seek_pos o1) d1 (write_at (seek_pos o2) d2 old)"
    using assms(4,5) by (intro write_at_commute [symmetric]) (simp add: seek_pos_def)
  note w = file_laws.write_law [OF assms(1)]
  have "held f1 = (held f)(path \<mapsto> write_at (seek_pos o1) d1 old)" "held f2 = (held f)(path \<mapsto> write_at (seek_pos o2) d2 old)"
    unfolding 1(3) 2(2) by (rule w [OF h])+
  then have "held f12 = (held f1)(path \<mapsto> write_at (seek_pos o2) d2 (write_at (seek_pos o1) d1 old))"
    "held f21 = (held f2)(path \<mapsto> write_at (seek_pos o1) d1 (write_at (seek_pos o2) d2 old))"
    unfolding 2(1,3) by (simp_all add: w)
  then show ?thesis using c \<open>held f1 = _\<close> \<open>held f2 = _\<close> by simp
qed

text \<open>
  Key information is returned as it was sent. After an acknowledged \<open>SetFileKeyinfo\<close> the
  chunk file exists and is empty, no other file has changed, and \<open>GetFileKeyinfo\<close> answers 200
  with exactly the message that was posted; the lookup goes by account and name written
  together, so any pair with the same concatenation reads this record.
\<close>

theorem key_info_roundtrip:
  assumes "reliable_db L stored" and "file_laws F held" and "db_conn db"
    and "set_file_key_info_handler P L F req db f = Ret (r, db1, f1)" and "is_ok r"
    and "reads P req info" and "reads Q req2 (Get_file_key_info (Some account) (Some name))"
    and "account @ name = field [] (sk_account info) @ field [] (sk_file_name info)"
    and "fst (server_get_postdata req2 [])"
  shows "(\<exists>db2. get_file_key_info_handler Q L req2 db1
      = Ret (Reply_ok (base64_encode (base64_decode (input_buffer req))), db2))
    \<and> (\<exists>path. chunk_path (field [] (sk_account info)) (field [] (sk_file_name info)) = Ret path
        \<and> held f1 = (held f)(path \<mapsto> []))"
proof -
  let ?a = "field [] (sk_account info)" and ?n = "field [] (sk_file_name info)" and ?body = "base64_decode (input_buffer req)"
  have got: "server_get_postdata req [] = (True, input_buffer req)"
    using assms(4,5) by (auto simp: set_file_key_info_handler_def server_get_postdata_def Let_def split: if_splits)
  have info: "snd (parse P ?body) = info" using assms(6) by (simp add: reads_def)
  obtain s1 where put: "db_put L (?a @ ?n) ?body db = Ret (True, s1)" "db_conn s1"
    "stored (db_store s1) = om_set (?a @ ?n) ?body (stored (db_store db))"
    using reliable_db.put_Ret [OF assms(1,3)] by blast
  have run: "obind (user_dir ?a) (\<lambda>dir.
        let f1 = (if \<not> f_exists F dir f then f_mkdir F dir f else f) in
        obind (chunk_path ?a ?n) (\<lambda>path.
        let (opened, f2) = f_truncate F path f1 in
        if \<not> opened then Undef
        else Ret (server_send_reply_ok ''Set file key info success'', s1, f2))) = Ret (r, db1, f1)"
    using assms(4) unfolding set_file_key_info_handler_def Let_def got by (simp add: info put(1))
  obtain dir where dir: "user_dir ?a = Ret dir" using run by (elim obind_RetE)
  define f' where "f' = (if \<not> f_exists F dir f then f_mkdir F dir f else f)"
  have run2: "obind (chunk_path ?a ?n) (\<lambda>path.
        let (opened, f2) = f_truncate F path f' in
        if \<not> opened then Undef
        else Ret (server_send_reply_ok ''Set file key info success'', s1, f2)) = Ret (r, db1, f1)"
    using run unfolding dir f'_def by simp
  then obtain path where w: "chunk_path ?a ?n = Ret path" by (elim obind_RetE)
  have t: "f_truncate F path f' = (True, f1)" "db1 = s1" using run2 w by (auto split: prod.splits if_splits)
  have "held f' = held f" using file_laws.mkdir_law [OF assms(2)] by (simp add: f'_def)
  then have files: "held f1 = (held f)(path \<mapsto> [])" using file_laws.truncate_law [OF assms(2) t(1)] by simp
  have "om_find (stored (db_store s1)) (?a @ ?n) = Some ?body"
    unfolding put(3) using om.find_put [OF leveldb.stored_ok [OF reliable_db.axioms(1) [OF assms(1)]]] by simp
  then obtain s2 where "db_get L (account @ name) ''Service denied...'' s1 = Ret (True, ?body, s2)"
    using reliable_db.get_Ret [OF assms(1) put(2), of "account @ name"] assms(8) by auto
  moreover have "server_get_postdata req2 [] = (True, input_buffer req2)"
    using assms(9) by (auto simp: server_get_postdata_def Let_def split: if_splits)
  ultimately have "get_file_key_info_handler Q L req2 db1 = Ret (Reply_ok (base64_encode ?body), s2)"
    using assms(7) t(2)
    by (simp add: get_file_key_info_handler_def reads_def server_send_reply_ok_def b64.enc_c_str)
  then show ?thesis using files w by blast
qed

section \<open>Concrete runs\<close>

text \<open>One file of account \<open>u\<close>; pieces \<open>ab\<close> at 0 and \<open>cd\<close> at 2.\<close>

definition piece :: "string \<Rightarrow> s64 \<Rightarrow> upload_chunk_file_request" where
  "piece data offset = Upload_chunk_file_request (Some ''u'') (Some ''f'') (Some (base64_encode data)) (Some offset)"

lemma piece_simps [simp]:
  "uc_account (piece d pos) = Some ''u''" "uc_file_name (piece d pos) = Some ''f''"
  "uc_chunk (piece d pos) = Some (base64_encode d)" "uc_offset (piece d pos) = Some pos"
  by (simp_all add: piece_def)

definition one_post :: "string \<Rightarrow> request" where
  "one_post data = \<lparr>find_header = Map.empty, input_buffer = base64_encode data\<rparr>"

definition pieces :: "upload_chunk_file_request codec" where
  "pieces = table_codec [piece ''ab'' 0, piece ''cd'' 2]"

abbreviation wants :: "download_chunk_file_request codec" where
  "wants \<equiv> table_codec [Download_chunk_file_request (Some ''u'') (Some ''f'') (Some 0)]"

lemma one_post_body:
  "server_get_postdata (one_post ''0'') [] = (True, base64_encode ''0'')"
  "server_get_postdata (one_post ''1'') [] = (True, base64_encode ''1'')"
proof -
  have "base64_encode ''0'' = ''MA==''" "base64_encode ''1'' = ''MQ==''" by code_simp+
  then show "server_get_postdata (one_post ''0'') [] = (True, base64_encode ''0'')"
    "server_get_postdata (one_post ''1'') [] = (True, base64_encode ''1'')"
    by (simp_all add: one_post_def get_postdata_True k_server_max_post_data_size_def)
qed

lemma one_reads:
  "reads pieces (one_post ''0'') (Upload_chunk_file_request (Some ''u'') (Some ''f'') (Some (base64_encode ''ab'')) (Some 0))"
  "reads pieces (one_post ''1'') (Upload_chunk_file_request (Some ''u'') (Some ''f'') (Some (base64_encode ''cd'')) (Some 2))"
  "reads wants (one_post ''0'') (Download_chunk_file_request (Some ''u'') (Some ''f'') (Some 0))"
  by (simp_all add: reads_def one_post_def b64.dec_enc table_codec_def pieces_def piece_def)

lemma one_path: "chunk_path ''u'' ''f'' = Ret ''./u/f.chunkfile''"
  by (simp add: chunk_path_def c_str_def)

lemma piece_upload:
  assumes "f ''./u/f.chunkfile'' = Some old"
  shows "upload_chunk_handler pieces mem_files (one_post ''0'') f
      = Ret (Reply_ok ''OK'', f(''./u/f.chunkfile'' \<mapsto> write_at 0 ''ab'' old))"
    and "upload_chunk_handler pieces mem_files (one_post ''1'') f
      = Ret (Reply_ok ''OK'', f(''./u/f.chunkfile'' \<mapsto> write_at 2 ''cd'' old))"
proof -
  have p: "parse pieces ''0'' = (True, piece ''ab'' 0)" "parse pieces ''1'' = (True, piece ''cd'' 2)"
    by (simp_all add: table_codec_def pieces_def)
  show "upload_chunk_handler pieces mem_files (one_post ''0'') f
      = Ret (Reply_ok ''OK'', f(''./u/f.chunkfile'' \<mapsto> write_at 0 ''ab'' old))"
    "upload_chunk_handler pieces mem_files (one_post ''1'') f
      = Ret (Reply_ok ''OK'', f(''./u/f.chunkfile'' \<mapsto> write_at 2 ''cd'' old))"
    using assms
    by (simp_all add: upload_chunk_handler_def one_post_body b64.dec_enc p one_path seek_pos_def
        server_send_reply_ok_def c_str_def)
qed


lemma chunk_order_irrelevant_witness:
  "[''./u/f.chunkfile'' \<mapsto> write_at 2 ''cd'' (write_at 0 ''ab'' [])] = [''./u/f.chunkfile'' \<mapsto> write_at 0 ''ab'' (write_at 2 ''cd'' [])]"
proof -
  let ?f = "[''./u/f.chunkfile'' \<mapsto> []]"
  have "id (?f(''./u/f.chunkfile'' \<mapsto> write_at 0 ''ab'' [], ''./u/f.chunkfile'' \<mapsto> write_at 2 ''cd'' (write_at 0 ''ab'' [])))
    = id (?f(''./u/f.chunkfile'' \<mapsto> write_at 2 ''cd'' [], ''./u/f.chunkfile'' \<mapsto> write_at 0 ''ab'' (write_at 2 ''cd'' [])))"
    by (rule chunk_order_irrelevant [OF mem.file_laws_axioms one_reads(1,2) _ _
          piece_upload(1) piece_upload(2) piece_upload(2) piece_upload(1)]) simp_all
  then show ?thesis by simp
qed

definition key_info :: set_file_key_info where
  "key_info = Set_file_key_info (Some ''u'') (Some ''f'') [] (Some 5) (Some ''d'') (Some ''k'')"

lemma key_info_simps [simp]: "sk_account key_info = Some ''u''" "sk_file_name key_info = Some ''f''"
  by (simp_all add: key_info_def)

lemma key_info_roundtrip_witness:
  "\<exists>db1 f1 db2. set_file_key_info_handler (table_codec [key_info]) journal_ldb mem_files (one_post ''0'')
      \<lparr>db_conn = True, db_store = []\<rparr> Map.empty = Ret (Reply_ok ''Set file key info success'', db1, f1)
    \<and> get_file_key_info_handler (table_codec [Get_file_key_info (Some ''u'') (Some ''f'')]) journal_ldb (one_post ''0'') db1
      = Ret (Reply_ok (base64_encode ''0''), db2)"
proof -
  let ?db = "\<lparr>db_conn = True, db_store = []\<rparr>"
  let ?P = "table_codec [key_info]" and ?Q = "table_codec [Get_file_key_info (Some ''u'') (Some ''f'')]"
  have p: "parse ?P ''0'' = (True, key_info)" "parse ?Q ''0'' = (True, Get_file_key_info (Some ''u'') (Some ''f''))"
    by (simp_all add: table_codec_def)
  have r: "reads ?P (one_post ''0'') key_info" "reads ?Q (one_post ''0'') (Get_file_key_info (Some ''u'') (Some ''f''))"
    by (simp_all add: reads_def one_post_def b64.dec_enc p)
  have put: "db_put journal_ldb ''uf'' ''0'' ?db = Ret (True, \<lparr>db_conn = True, db_store = [(''uf'', Some ''0'')]\<rparr>)"
    by (simp add: db_put_def journal_ldb_def)
  have s: "set_file_key_info_handler ?P journal_ldb mem_files (one_post ''0'') ?db Map.empty
      = Ret (Reply_ok ''Set file key info success'', \<lparr>db_conn = True, db_store = [(''uf'', Some ''0'')]\<rparr>,
          [''./u/f.chunkfile'' \<mapsto> []])"
    by (simp add: set_file_key_info_handler_def one_post_body b64.dec_enc p put user_dir_def one_path
        server_send_reply_ok_def c_str_def)
  from key_info_roundtrip [OF journal.reliable_db_axioms mem.file_laws_axioms _ s _ r] show ?thesis
    using s by (auto simp: one_post_body) (simp add: one_post_def b64.dec_enc)
qed

end
