(* ===== verification/Sockets.thy ===== *)
theory Sockets
  imports Config_Files
begin

text \<open>
  \<open>server/base/kyrin_base_server.cc\<close>, the part every server starts with: the listening sockets,
  the callbacks registered on a worker's \<open>evhttp\<close> and \<open>server_run\<close>. The operating system is the
  parameter \<open>S\<close> with the laws of the manual pages (locale \<open>socket_laws\<close>); of libevent only the
  calls made on a worker are recorded. The event loops and threads themselves are not modelled.
\<close>

section \<open>The system calls\<close>

type_synonym u16 = "16 word"

record 's sock_ops =
  s_socket :: "'s \<Rightarrow> s32 \<times> 's"
  s_reuseaddr :: "s32 \<Rightarrow> 's \<Rightarrow> s32 \<times> 's"  \<comment> \<open>\<open>setsockopt\<close> with \<open>SO_REUSEADDR\<close>\<close>
  s_bind :: "s32 \<Rightarrow> u16 \<Rightarrow> 's \<Rightarrow> s32 \<times> 's"
  s_listen :: "s32 \<Rightarrow> s32 \<Rightarrow> 's \<Rightarrow> s32 \<times> 's"
  s_getfl :: "s32 \<Rightarrow> 's \<Rightarrow> s32 \<times> 's"
  s_setfl :: "s32 \<Rightarrow> s32 \<Rightarrow> 's \<Rightarrow> s32 \<times> 's"
  s_close :: "s32 \<Rightarrow> 's \<Rightarrow> 's"

definition o_nonblock :: s32 where
  "o_nonblock = 2048"

text \<open>The flag, the descriptor left in \<open>listen_fd\<close> and the state of the system.\<close>

definition server_initialize_kyrin_server_socket ::
  "'s sock_ops \<Rightarrow> u32 \<Rightarrow> u32 \<Rightarrow> 's \<Rightarrow> bool \<times> s32 \<times> 's" where
  "server_initialize_kyrin_server_socket S port backlog s =
     (let (listen_fd, s1) = s_socket S s;
          (r, s2) = s_reuseaddr S listen_fd s1 in
      if r <s 0 then (False, listen_fd, s2)
      else
        let (r, s3) = s_bind S listen_fd (ucast port) s2 in
        if r <s 0 then (False, listen_fd, s3)
        else
          let (r, s4) = s_listen S listen_fd backlog s3 in
          if r <s 0 then (False, listen_fd, s4)
          else
            let (flags, s5) = s_getfl S listen_fd s4 in
            if flags <s 0 then (False, listen_fd, s5)
            else
              let (r, s6) = s_setfl S listen_fd (flags OR o_nonblock) s5 in
              if r <s 0 then (False, listen_fd, s6)
              else (True, listen_fd, s6))"

section \<open>What the manual pages promise\<close>

record sock =
  bound :: "u16 option"
  listening :: bool
  flags :: s32

text \<open>A socket that accepts connections on a port; port 0 asks for any port.\<close>

definition accepts_on :: "u16 \<Rightarrow> sock \<Rightarrow> bool" where
  "accepts_on p k \<longleftrightarrow> listening k \<and> flags k AND o_nonblock = o_nonblock
     \<and> (\<exists>q. bound k = Some q \<and> (p \<noteq> 0 \<longrightarrow> q = p))"

locale socket_laws =
  fixes S :: "'s sock_ops" and socks :: "'s \<Rightarrow> s32 \<Rightarrow> sock option"
  assumes open_law: "socks s fd = Some k \<Longrightarrow> \<not> fd <s 0"
    and socket_law: "s_socket S s = (fd, s') \<Longrightarrow> if fd <s 0 then socks s' = socks s
      else socks s fd = None \<and> (\<exists>f. socks s' = (socks s)(fd \<mapsto> \<lparr>bound = None, listening = False, flags = f\<rparr>))"
    and reuse_law: "s_reuseaddr S fd s = (r, s') \<Longrightarrow> socks s' = socks s \<and> (\<not> r <s 0 \<longrightarrow> socks s fd \<noteq> None)"
    and bind_law: "s_bind S fd p s = (r, s') \<Longrightarrow> if r <s 0 then socks s' = socks s
      else \<exists>k q. socks s fd = Some k \<and> socks s' = (socks s)(fd \<mapsto> k\<lparr>bound := Some q\<rparr>) \<and> (p \<noteq> 0 \<longrightarrow> q = p)"
    and listen_law: "s_listen S fd n s = (r, s') \<Longrightarrow> if r <s 0 then socks s' = socks s
      else \<exists>k. socks s fd = Some k \<and> socks s' = (socks s)(fd \<mapsto> k\<lparr>listening := True\<rparr>)
        \<and> (\<forall>fd' k'. fd' \<noteq> fd \<and> socks s fd' = Some k' \<and> listening k' \<longrightarrow> bound k' \<noteq> bound k)"
    and getfl_law: "s_getfl S fd s = (r, s') \<Longrightarrow> socks s' = socks s
      \<and> (\<not> r <s 0 \<longrightarrow> (\<exists>k. socks s fd = Some k \<and> flags k = r))"
    and setfl_law: "s_setfl S fd fl s = (r, s') \<Longrightarrow> if r <s 0 then socks s' = socks s
      else \<exists>k. socks s fd = Some k \<and> socks s' = (socks s)(fd \<mapsto> k\<lparr>flags := fl\<rparr>)"
    and close_law: "socks (s_close S fd s) = (socks s)(fd := None)"
begin

text \<open>A successful call opens one socket that listens on the port, on which nobody listened.\<close>

lemma init_ok:
  assumes "server_initialize_kyrin_server_socket S port backlog s = (True, fd, s')"
  shows "socks s fd = None \<and> (\<exists>k. accepts_on (ucast port) k \<and> socks s' = (socks s)(fd \<mapsto> k)
    \<and> (\<forall>fd' k'. socks s fd' = Some k' \<and> listening k' \<longrightarrow> bound k' \<noteq> bound k))"
proof -
  obtain s1 where 1: "s_socket S s = (fd, s1)"
    using assms by (auto simp: server_initialize_kyrin_server_socket_def Let_def split: prod.splits if_splits)
  obtain r2 s2 where 2: "s_reuseaddr S fd s1 = (r2, s2)" by fastforce
  obtain r3 s3 where 3: "s_bind S fd (ucast port) s2 = (r3, s3)" by fastforce
  obtain r4 s4 where 4: "s_listen S fd backlog s3 = (r4, s4)" by fastforce
  obtain fl s5 where 5: "s_getfl S fd s4 = (fl, s5)" by fastforce
  obtain r6 s6 where 6: "s_setfl S fd (fl OR o_nonblock) s5 = (r6, s6)" by fastforce
  have ok: "\<not> r2 <s 0" "\<not> r3 <s 0" "\<not> r4 <s 0" "\<not> fl <s 0" "\<not> r6 <s 0" "s' = s6"
    using assms 1 2 3 4 5 6
    by (auto simp: server_initialize_kyrin_server_socket_def Let_def split: if_splits)
  have s2: "socks s2 = socks s1" "socks s1 fd \<noteq> None" using reuse_law [OF 2] ok(1) by auto
  then have fd: "\<not> fd <s 0" using open_law by blast
  then obtain f where s1: "socks s fd = None"
      "socks s1 = (socks s)(fd \<mapsto> \<lparr>bound = None, listening = False, flags = f\<rparr>)"
    using socket_law [OF 1] by auto
  obtain q where s3: "socks s3 = (socks s)(fd \<mapsto> \<lparr>bound = Some q, listening = False, flags = f\<rparr>)"
      "ucast port \<noteq> (0 :: u16) \<longrightarrow> q = ucast port"
    using bind_law [OF 3] ok(2) s1 s2 by auto
  have l: "\<exists>k. socks s3 fd = Some k \<and> socks s4 = (socks s3)(fd \<mapsto> k\<lparr>listening := True\<rparr>)
      \<and> (\<forall>fd' k'. fd' \<noteq> fd \<and> socks s3 fd' = Some k' \<and> listening k' \<longrightarrow> bound k' \<noteq> bound k)"
    using listen_law [OF 4] ok(3) by simp
  then have s4: "socks s4 = (socks s)(fd \<mapsto> \<lparr>bound = Some q, listening = True, flags = f\<rparr>)"
    using s3 by auto
  have others: "bound k' \<noteq> Some q" if "fd' \<noteq> fd" "socks s3 fd' = Some k'" "listening k'" for fd' k'
    using l that s3(1) by force
  have s5: "socks s5 = socks s4" "fl = f" using getfl_law [OF 5] ok(4) s4 by auto
  have s6: "socks s6 = (socks s)(fd \<mapsto> \<lparr>bound = Some q, listening = True, flags = f OR o_nonblock\<rparr>)"
    using setfl_law [OF 6] ok(5) s4 s5 by auto
  have free: "bound k' \<noteq> Some q" if "socks s fd' = Some k'" "listening k'" for fd' k'
    using others [of fd' k'] s3(1) that s1(1) by (cases "fd' = fd") auto
  have "(f OR o_nonblock) AND o_nonblock = o_nonblock" by (simp add: bit.conj_disj_distrib2)
  then have "accepts_on (ucast port) \<lparr>bound = Some q, listening = True, flags = f OR o_nonblock\<rparr>"
    using s3(2) by (simp add: accepts_on_def)
  then show ?thesis
    using s1(1) s6 free ok(6)
    by (intro conjI exI [of _ "\<lparr>bound = Some q, listening = True, flags = f OR o_nonblock\<rparr>"]) auto
qed

text \<open>Every call, also a failing one, leaves the open sockets alone.\<close>

lemma init_frame:
  assumes "server_initialize_kyrin_server_socket S port backlog s = (r, fd, s')" and "socks s x = Some k"
  shows "socks s' x = Some k"
proof -
  obtain fd' s1 where 1: "s_socket S s = (fd', s1)" by fastforce
  have s1: "socks s1 x = Some k \<and> (\<not> fd' <s 0 \<longrightarrow> fd' \<noteq> x)"
    using socket_law [OF 1] assms(2) by (auto split: if_splits)
  show ?thesis
  proof (cases "socks s1 fd'")
    case None
    obtain r2 s2 where 2: "s_reuseaddr S fd' s1 = (r2, s2)" by fastforce
    then show ?thesis using reuse_law [OF 2] None assms(1) 1 s1
      by (auto simp: server_initialize_kyrin_server_socket_def)
  next
    case (Some c)
    then have x: "fd' \<noteq> x" using open_law s1 by blast
    show ?thesis
      using assms(1) 1 s1 x unfolding server_initialize_kyrin_server_socket_def Let_def
      by (auto split: prod.splits if_splits dest!: reuse_law bind_law listen_law getfl_law setfl_law)
  qed
qed

text \<open>
  Sockets opened one after the other: each listens on its port and on no other's, and the rest
  of the table is as before.
\<close>

definition opened :: "'s \<Rightarrow> (s32 \<times> u32) list \<Rightarrow> 's \<Rightarrow> bool" where
  "opened s opens s' \<longleftrightarrow> distinct (map fst opens)
     \<and> (\<forall>(fd, port) \<in> set opens. socks s fd = None \<and> (\<exists>k. socks s' fd = Some k \<and> accepts_on (ucast port) k))
     \<and> (\<forall>fd. fd \<notin> fst ` set opens \<longrightarrow> socks s' fd = socks s fd)"

lemma opened_Nil [simp]: "opened s [] s"
  by (simp add: opened_def)

lemma opened_snoc:
  assumes "opened s opens s1" and "server_initialize_kyrin_server_socket S port backlog s1 = (True, fd, s2)"
  shows "opened s (opens @ [(fd, port)]) s2"
proof -
  obtain k where k: "socks s1 fd = None" "accepts_on (ucast port) k" "socks s2 = (socks s1)(fd \<mapsto> k)"
    using init_ok [OF assms(2)] by blast
  have "fd \<notin> fst ` set opens" using assms(1) k(1) by (auto simp: opened_def)
  then show ?thesis using assms(1) k by (force simp: opened_def)
qed

text \<open>Different descriptors listen on different ports.\<close>

definition separate :: "'s \<Rightarrow> bool" where
  "separate s \<longleftrightarrow> (\<forall>fd fd' k k'. socks s fd = Some k \<and> socks s fd' = Some k' \<and> fd \<noteq> fd' \<and> listening k \<and> listening k'
     \<longrightarrow> bound k \<noteq> bound k')"

lemma separate_init:
  assumes "separate s" and "server_initialize_kyrin_server_socket S port backlog s = (True, fd, s')"
  shows "separate s'"
  using init_ok [OF assms(2)] assms(1) unfolding separate_def by (auto split: if_splits) metis+

lemma opened_socket:
  assumes "opened s opens s'" and "(fd, port) \<in> set opens"
  shows "\<exists>k. socks s' fd = Some k \<and> accepts_on (ucast port) k"
  using assms by (auto simp: opened_def)

end

section \<open>A kernel\<close>

text \<open>
  Descriptors count up from 3, at most 1021 of them; a port can be listened on once; asking
  for port 0 gives the first ephemeral one, 32768, offset by the descriptor.
\<close>

definition kernel_socks :: "sock option list \<Rightarrow> s32 \<Rightarrow> sock option" where
  "kernel_socks s fd =
     (if 3 \<le> unat fd \<and> unat fd < 3 + length s \<and> length s \<le> 1021 then s ! (unat fd - 3) else None)"

definition set_socket :: "s32 \<Rightarrow> sock option \<Rightarrow> sock option list \<Rightarrow> sock option list" where
  "set_socket fd k s = s[unat fd - 3 := k]"

definition on_socket :: "(sock \<Rightarrow> sock) \<Rightarrow> s32 \<Rightarrow> sock option list \<Rightarrow> s32 \<times> sock option list" where
  "on_socket f fd s = (case kernel_socks s fd of None \<Rightarrow> (-1, s) | Some k \<Rightarrow> (0, set_socket fd (Some (f k)) s))"

definition taken :: "u16 option \<Rightarrow> sock option \<Rightarrow> bool" where
  "taken p slot = (case slot of None \<Rightarrow> False | Some k \<Rightarrow> listening k \<and> bound k = p)"

definition kernel :: "sock option list sock_ops" where
  "kernel =
     \<lparr>s_socket = (\<lambda>s. if 1021 \<le> length s then (-1, s)
        else (word_of_nat (length s + 3), s @ [Some \<lparr>bound = None, listening = False, flags = 2\<rparr>])),
      s_reuseaddr = on_socket id,
      s_bind = (\<lambda>fd p. on_socket (bound_update (\<lambda>_. Some (if p = 0 then 32768 else p))) fd),
      s_listen = (\<lambda>fd n s. case kernel_socks s fd of
          None \<Rightarrow> (-1, s)
        | Some k \<Rightarrow> if list_ex (taken (bound k)) (set_socket fd None s) then (-1, s)
                    else on_socket (listening_update (\<lambda>_. True)) fd s),
      s_getfl = (\<lambda>fd s. case kernel_socks s fd of None \<Rightarrow> (-1, s) | Some k \<Rightarrow> if flags k <s 0 then (-1, s) else (flags k, s)),
      s_setfl = (\<lambda>fd fl. on_socket (flags_update (\<lambda>_. fl)) fd),
      s_close = (\<lambda>fd s. if kernel_socks s fd = None then s else set_socket fd None s)\<rparr>"

lemma minus_one_negative [simp]: "(-1 :: s32) <s 0"
  by (simp add: word_sless_alt)

lemma unat_small: "n < 2 ^ 32 \<Longrightarrow> unat (word_of_nat n :: s32) = n"
  by (simp add: unat_of_nat)

lemma kernel_socks_set:
  assumes "kernel_socks s fd = Some k"
  shows "kernel_socks (set_socket fd v s) = (kernel_socks s)(fd := v)"
proof
  fix x
  show "kernel_socks (set_socket fd v s) x = ((kernel_socks s)(fd := v)) x"
    using assms by (auto simp: kernel_socks_def set_socket_def nth_list_update word_unat_eq_iff split: if_splits)
qed

lemma on_socket_law:
  assumes "on_socket f fd s = (r, s')"
  shows "if r <s 0 then kernel_socks s' = kernel_socks s
    else \<exists>k. kernel_socks s fd = Some k \<and> kernel_socks s' = (kernel_socks s)(fd \<mapsto> f k)"
  using assms kernel_socks_set by (fastforce simp: on_socket_def word_sless_alt split: option.splits)

lemma kernel_socks_nonneg: "kernel_socks s fd = Some k \<Longrightarrow> \<not> fd <s 0"
proof -
  assume "kernel_socks s fd = Some k"
  then have "unat fd < 1024" by (simp add: kernel_socks_def split: if_splits)
  then have "uint fd < 1024" by (metis of_nat_less_iff of_nat_numeral uint_nat)
  moreover have "- (2 ^ 31) \<le> uint fd" by (rule order_trans [of _ 0]) simp_all
  ultimately have "sint fd = uint fd"
    using signed_take_bit_int_eq_self [of 31 "uint fd"] by (simp add: sint_uint)
  then show ?thesis by (simp add: word_sless_alt)
qed

lemma kernel_socket_law:
  assumes "s_socket kernel s = (fd, s')"
  shows "if fd <s 0 then kernel_socks s' = kernel_socks s
    else kernel_socks s fd = None \<and> (\<exists>f. kernel_socks s' = (kernel_socks s)(fd \<mapsto> \<lparr>bound = None, listening = False, flags = f\<rparr>))"
proof (cases "1021 \<le> length s")
  case True
  then show ?thesis using assms by (auto simp: kernel_def word_sless_alt)
next
  case False
  then have fd: "unat fd = length s + 3" and s': "s' = s @ [Some \<lparr>bound = None, listening = False, flags = 2\<rparr>]"
    using assms unat_small [of "length s + 3"] by (auto simp: kernel_def simp del: of_nat_add)
  have "kernel_socks s' x = ((kernel_socks s)(fd \<mapsto> \<lparr>bound = None, listening = False, flags = 2\<rparr>)) x" for x
    using False fd s' by (auto simp: kernel_socks_def nth_append word_unat_eq_iff)
  then have "kernel_socks s' = (kernel_socks s)(fd \<mapsto> \<lparr>bound = None, listening = False, flags = 2\<rparr>)" by blast
  moreover have "kernel_socks s fd = None" using fd by (simp add: kernel_socks_def)
  moreover have "\<not> fd <s 0" using calculation kernel_socks_nonneg [of s' fd] by simp
  ultimately show ?thesis by auto
qed

lemma kernel_listen_law:
  assumes "s_listen kernel fd n s = (r, s')"
  shows "if r <s 0 then kernel_socks s' = kernel_socks s
    else \<exists>k. kernel_socks s fd = Some k \<and> kernel_socks s' = (kernel_socks s)(fd \<mapsto> k\<lparr>listening := True\<rparr>)
      \<and> (\<forall>fd' k'. fd' \<noteq> fd \<and> kernel_socks s fd' = Some k' \<and> listening k' \<longrightarrow> bound k' \<noteq> bound k)"
proof (cases "kernel_socks s fd")
  case None
  then show ?thesis using assms by (auto simp: kernel_def)
next
  case (Some k)
  have "\<not> taken (bound k) (Some k')"
    if free: "\<not> list_ex (taken (bound k)) (set_socket fd None s)" and o: "fd' \<noteq> fd" "kernel_socks s fd' = Some k'" for fd' k'
  proof -
    have "kernel_socks (set_socket fd None s) fd' = Some k'" using kernel_socks_set [OF Some] o by simp
    then have "Some k' \<in> set (set_socket fd None s)"
      by (auto simp: kernel_socks_def split: if_splits) (metis add_diff_inverse_nat nat_add_left_cancel_less not_le nth_mem)
    then show ?thesis using free by (metis list_ex_iff)
  qed
  then show ?thesis
    using assms Some on_socket_law [of "listening_update (\<lambda>_. True)" fd s r s']
    by (auto simp: kernel_def taken_def word_sless_alt split: if_splits)
qed

interpretation kernel: socket_laws kernel kernel_socks
proof unfold_locales
  fix s s' :: "sock option list" and fd r p n fl k
  show "kernel_socks s fd = Some k \<Longrightarrow> \<not> fd <s 0" by (rule kernel_socks_nonneg)
  show "s_socket kernel s = (fd, s') \<Longrightarrow> if fd <s 0 then kernel_socks s' = kernel_socks s
    else kernel_socks s fd = None \<and> (\<exists>f. kernel_socks s' = (kernel_socks s)(fd \<mapsto> \<lparr>bound = None, listening = False, flags = f\<rparr>))"
    by (rule kernel_socket_law)
  show "s_listen kernel fd n s = (r, s') \<Longrightarrow> if r <s 0 then kernel_socks s' = kernel_socks s
    else \<exists>k. kernel_socks s fd = Some k \<and> kernel_socks s' = (kernel_socks s)(fd \<mapsto> k\<lparr>listening := True\<rparr>)
      \<and> (\<forall>fd' k'. fd' \<noteq> fd \<and> kernel_socks s fd' = Some k' \<and> listening k' \<longrightarrow> bound k' \<noteq> bound k)"
    by (rule kernel_listen_law)
  show "s_reuseaddr kernel fd s = (r, s') \<Longrightarrow>
      kernel_socks s' = kernel_socks s \<and> (\<not> r <s 0 \<longrightarrow> kernel_socks s fd \<noteq> None)"
    using on_socket_law [of id fd s r s'] by (auto simp: kernel_def split: if_splits)
  show "s_bind kernel fd p s = (r, s') \<Longrightarrow> if r <s 0 then kernel_socks s' = kernel_socks s
      else \<exists>k q. kernel_socks s fd = Some k \<and> kernel_socks s' = (kernel_socks s)(fd \<mapsto> k\<lparr>bound := Some q\<rparr>) \<and> (p \<noteq> 0 \<longrightarrow> q = p)"
    using on_socket_law [of _ fd s r s'] by (fastforce simp: kernel_def)
  show "s_getfl kernel fd s = (r, s') \<Longrightarrow> kernel_socks s' = kernel_socks s
      \<and> (\<not> r <s 0 \<longrightarrow> (\<exists>k. kernel_socks s fd = Some k \<and> flags k = r))"
    by (auto simp: kernel_def word_sless_alt split: option.splits if_splits)
  show "s_setfl kernel fd fl s = (r, s') \<Longrightarrow> if r <s 0 then kernel_socks s' = kernel_socks s
      else \<exists>k. kernel_socks s fd = Some k \<and> kernel_socks s' = (kernel_socks s)(fd \<mapsto> k\<lparr>flags := fl\<rparr>)"
    using on_socket_law [of _ fd s r s'] by (fastforce simp: kernel_def)
  show "kernel_socks (s_close kernel fd s) = (kernel_socks s)(fd := None)"
    using kernel_socks_set by (fastforce simp: kernel_def)
qed

end
