(* ===== verification/Redis.thy ===== *)
theory Redis
  imports Prelude
begin

text \<open>
  The redis server the key center and the slave nodes keep their data in. hiredis and the
  server are the parameter \<open>R\<close>: a command is a value (its arguments as hiredis sends them:
  \<open>%s\<close> a C string, \<open>%b\<close> a counted one), a reply is a status, a string, an error, anything else,
  or the null pointer of a broken connection.
\<close>

datatype redis_command = R_get string | R_set string string

datatype redis_reply = R_null | R_string string | R_error | R_other

record 'r redis_ops =
  r_command :: "redis_command \<Rightarrow> 'r \<Rightarrow> redis_reply \<times> 'r"

text \<open>What the code relies on: the documented meaning of the two commands.\<close>

locale redis_laws =
  fixes R :: "'r redis_ops" and table :: "'r \<Rightarrow> string \<rightharpoonup> string"
  assumes get_found: "r_command R (R_get k) r = (R_string v, r') \<Longrightarrow> table r k = Some v"
    and get_frame: "r_command R (R_get k) r = (rep, r') \<Longrightarrow> table r' = table r"
    and set_other: "r_command R (R_set k v) r = (R_other, r') \<Longrightarrow> table r' = (table r)(k \<mapsto> v)"
    and set_frame: "r_command R (R_set k v) r = (R_error, r') \<Longrightarrow> table r' = table r"
    and set_null: "r_command R (R_set k v) r = (R_null, r') \<Longrightarrow> table r' = table r \<or> table r' = (table r)(k \<mapsto> v)"
    and set_no_string: "r_command R (R_set k v) r \<noteq> (R_string u, r')"

text \<open>While the server is up every command is carried out.\<close>

locale redis_up = redis_laws +
  assumes get_works: "table r k = Some v \<Longrightarrow> fst (r_command R (R_get k) r) = R_string v"
    and set_works: "fst (r_command R (R_set k v) r) = R_other"
begin

lemma set_Ret: "\<exists>r'. r_command R (R_set k v) r = (R_other, r') \<and> table r' = (table r)(k \<mapsto> v)"
  using set_works [of k v r] set_other [of k v r] by (metis prod.collapse)

lemma get_Ret: "table r k = Some v \<Longrightarrow> \<exists>r'. r_command R (R_get k) r = (R_string v, r') \<and> table r' = table r"
  using get_works [of r k v] get_frame [of k r] by (metis prod.collapse)

end

section \<open>A reference server\<close>

definition map_redis :: "(string \<rightharpoonup> string) redis_ops" where
  "map_redis = \<lparr>r_command = (\<lambda>c m. case c of
     R_get k \<Rightarrow> (case m k of Some v \<Rightarrow> R_string v | None \<Rightarrow> R_other, m)
   | R_set k v \<Rightarrow> (R_other, m(k \<mapsto> v)))\<rparr>"

lemma map_redis_simps [simp]:
  "r_command map_redis (R_get k) m = (case m k of Some v \<Rightarrow> R_string v | None \<Rightarrow> R_other, m)"
  "r_command map_redis (R_set k v) m = (R_other, m(k \<mapsto> v))"
  by (simp_all add: map_redis_def)

interpretation map_redis: redis_up map_redis id
  by unfold_locales (auto split: option.splits)

text \<open>A server that is gone.\<close>

definition dead_redis :: "(string \<rightharpoonup> string) redis_ops" where
  "dead_redis = \<lparr>r_command = (\<lambda>c m. (R_null, m))\<rparr>"

interpretation dead_redis: redis_laws dead_redis id
  by unfold_locales (auto simp: dead_redis_def)

end
