(* ===== verification/Key_Center.thy ===== *)
theory Key_Center
  imports Redis Auth
begin

text \<open>
  The key center's two handlers, \<open>set_kyrin_key_request_handler.cc\<close> and
  \<open>get_kyrin_key_request_handler.cc\<close>: an administrator, whose own public key is in redis,
  registers users' public keys; the other servers fetch them to check signatures.
\<close>

text \<open>The message of \<open>kyrin_key.proto\<close>; missing fields read as empty strings.\<close>

datatype set_kyrin_key_request = Set_kyrin_key_request (ss_key_id: string) (ss_key_public: string)

text \<open>
  The handler parses without looking at the result, fetches the administrator's key, takes
  the digest left behind by \<open>server_get_digest\<close> (empty when a header is missing) and checks the
  signature. A null reply to \<open>SET\<close> counts as success.
\<close>

definition set_kyrin_key_handler ::
  "set_kyrin_key_request codec \<Rightarrow> 'r redis_ops \<Rightarrow> 'rsa openssl \<Rightarrow> (string \<Rightarrow> string) \<Rightarrow> request \<Rightarrow> 'r
     \<Rightarrow> (reply \<times> 'r) outcome" where
  "set_kyrin_key_handler P R ssl sha req r =
     (let (got, body) = server_get_postdata req [] in
      if \<not> got then Ret (server_send_reply_bad ''Can't read post data ...'', r)
      else
        let request = snd (parse P (base64_decode body)) in
        case r_command R (R_get ''KeyCenterAdminPublicKey'') r of
          (R_string key, r1) \<Rightarrow>
            let public_key = c_str key;
                (signed, signature) = server_get_header req ''KYRIN-SIGNATURE'' [] in
            if \<not> signed then Ret (server_send_reply_bad ''No signature found'', r1)
            else
              let signature = base64_decode signature;
                  (_, _, digest) = server_get_digest sha req ''error'' [] in
              obind (examine_legality ssl public_key digest signature) (\<lambda>legal.
                if \<not> legal then Ret (server_send_reply_bad ''Unauthorized'', r1)
                else
                  let (rep, r2) = r_command R (R_set (c_str (ss_key_id request)) (c_str (ss_key_public request))) r1 in
                  if rep = R_error then Ret (server_send_reply_bad ''Failed to write key'', r2)
                  else Ret (server_send_reply_ok ''ok'', r2))
        | (_, r1) \<Rightarrow> Ret (server_send_reply_bad ''Failed to authenticate'', r1))"

definition get_kyrin_key_handler ::
  "get_kyrin_key_request codec \<Rightarrow> 'r redis_ops \<Rightarrow> request \<Rightarrow> 'r \<Rightarrow> reply \<times> 'r" where
  "get_kyrin_key_handler P R req r =
     (let (got, body) = server_get_postdata req [] in
      if \<not> got then (server_send_reply_bad ''Can't read post data ...'', r)
      else
        let (parsed, request) = parse P (base64_decode body) in
        if \<not> parsed then (server_send_reply_bad ''Bad request...'', r)
        else
          case r_command R (R_get (c_str (gk_key_id request))) r of
            (R_string key, r1) \<Rightarrow> (server_send_reply_ok (c_str key), r1)
          | (_, r1) \<Rightarrow> (server_send_reply_bad ''No such key'', r1))"

section \<open>Registering a key\<close>

text \<open>The digest an administrator's request is checked against.\<close>

definition admin_digest :: "(string \<Rightarrow> string) \<Rightarrow> request \<Rightarrow> string" where
  "admin_digest sha req =
     (case find_header req ''KYRIN-TIMESTAMP'' of
        None \<Rightarrow> [] | Some t \<Rightarrow> kyrin_sha1 sha (c_str t @ input_buffer req))"

definition authorised :: "'rsa openssl \<Rightarrow> (string \<Rightarrow> string) \<Rightarrow> string \<Rightarrow> request \<Rightarrow> bool" where
  "authorised ssl sha key req \<longleftrightarrow>
     (\<exists>s rsa. find_header req ''KYRIN-SIGNATURE'' = Some s \<and> pem_pubkey ssl (c_str key) = Some rsa
        \<and> rsa_public_decrypt ssl rsa (base64_decode (c_str s)) = Some (admin_digest sha req))"

text \<open>A request with a body and a signature, once the administrator's key is known.\<close>

lemma set_key_signed:
  assumes "server_get_postdata req [] = (True, input_buffer req)"
    and "r_command R (R_get ''KeyCenterAdminPublicKey'') r = (R_string key, r1)"
    and "find_header req ''KYRIN-SIGNATURE'' = Some s"
  shows "set_kyrin_key_handler P R ssl sha req r =
    obind (examine_legality ssl (c_str key) (admin_digest sha req) (base64_decode (c_str s))) (\<lambda>legal.
      if \<not> legal then Ret (server_send_reply_bad ''Unauthorized'', r1)
      else
        let request = snd (parse P (base64_decode (input_buffer req)));
            (rep, r2) = r_command R (R_set (c_str (ss_key_id request)) (c_str (ss_key_public request))) r1 in
        if rep = R_error then Ret (server_send_reply_bad ''Failed to write key'', r2)
        else Ret (server_send_reply_ok ''ok'', r2))"
proof -
  have "\<exists>a b. server_get_digest sha req ''error'' [] = (a, b, admin_digest sha req)"
    using assms(1) by (auto simp: server_get_digest_def admin_digest_def server_get_header_def split: option.splits)
  then show ?thesis
    using assms unfolding set_kyrin_key_handler_def Let_def server_get_header_def by auto
qed

lemma set_key_cases:
  assumes "set_kyrin_key_handler P R ssl sha req r = Ret (reply, r')"
  obtains (refused) "\<not> is_ok reply" "r' = r \<or> (\<exists>rep. r_command R (R_get ''KeyCenterAdminPublicKey'') r = (rep, r'))"
    | (sent) key r1 rep request where "r_command R (R_get ''KeyCenterAdminPublicKey'') r = (R_string key, r1)"
      "authorised ssl sha key req" "request = snd (parse P (base64_decode (input_buffer req)))"
      "r_command R (R_set (c_str (ss_key_id request)) (c_str (ss_key_public request))) r1 = (rep, r')"
      "is_ok reply \<longleftrightarrow> rep \<noteq> R_error"
proof (cases "server_get_postdata req [] = (True, input_buffer req)")
  case False
  then have "\<not> fst (server_get_postdata req [])" by (auto simp: server_get_postdata_def Let_def split: if_splits)
  then show ?thesis using assms refused by (auto simp: set_kyrin_key_handler_def Let_def split: prod.splits)
next
  case got: True
  obtain rep0 r1 where g: "r_command R (R_get ''KeyCenterAdminPublicKey'') r = (rep0, r1)" by fastforce
  show ?thesis
  proof (cases "\<exists>key. rep0 = R_string key")
    case False
    then show ?thesis using assms got g refused by (cases rep0) (auto simp: set_kyrin_key_handler_def Let_def)
  next
    case True
    then obtain key where key: "rep0 = R_string key" by blast
    show ?thesis
    proof (cases "find_header req ''KYRIN-SIGNATURE''")
      case None
      then show ?thesis using assms got g key refused
        by (auto simp: set_kyrin_key_handler_def Let_def server_get_header_def)
    next
      case (Some s)
      let ?request = "snd (parse P (base64_decode (input_buffer req)))"
      note run = assms [unfolded set_key_signed [OF got g [unfolded key] Some]]
      then obtain legal where legal: "examine_legality ssl (c_str key) (admin_digest sha req) (base64_decode (c_str s)) = Ret legal"
        by (elim obind_RetE)
      show ?thesis
      proof (cases legal)
        case False
        then show ?thesis using run legal g refused by auto
      next
        case True
        then have "authorised ssl sha key req"
          using legal Some by (auto simp: authorised_def examine_legality_True)
        moreover obtain rep r2 where set: "r_command R (R_set (c_str (ss_key_id ?request)) (c_str (ss_key_public ?request))) r1
            = (rep, r2)" by fastforce
        ultimately show ?thesis
          using run legal True g key sent [of key r1 ?request rep] by (cases "rep = R_error") (auto simp: Let_def)
      qed
    qed
  qed
qed

text \<open>
  C23: Only the administrator registers keys. When \<open>SetKyrinKey\<close> answers 200 the request carried
  a signature that the stored administrator key decrypts to the request's digest (the empty
  text when the timestamp is missing), and the table holds the new key or, when the server
  did not answer, possibly not; any other reply leaves every key as it was.
\<close>

theorem set_key_authorised:
  assumes "redis_laws R table" and "set_kyrin_key_handler P R ssl sha req r = Ret (reply, r')"
    and "request = snd (parse P (base64_decode (input_buffer req)))"
  shows "if is_ok reply
    then (\<exists>key. table r ''KeyCenterAdminPublicKey'' = Some key \<and> authorised ssl sha key req)
      \<and> (table r' = table r \<or> table r' = (table r)(c_str (ss_key_id request) \<mapsto> c_str (ss_key_public request)))
    else table r' = table r"
  using assms(2)
proof (cases rule: set_key_cases)
  case refused
  then show ?thesis using redis_laws.get_frame [OF assms(1)] by auto
next
  case (sent key r1 rep q)
  have t: "table r1 = table r" "table r ''KeyCenterAdminPublicKey'' = Some key"
    using redis_laws.get_frame [OF assms(1) sent(1)] redis_laws.get_found [OF assms(1) sent(1)] by auto
  have q: "q = request" using sent(3) assms(3) by simp
  show ?thesis
  proof (cases rep)
    case R_null
    then show ?thesis using sent t q redis_laws.set_null [OF assms(1)] by fastforce
  next
    case (R_string u)
    then show ?thesis using sent(4) redis_laws.set_no_string [OF assms(1)] by blast
  next
    case R_error
    then show ?thesis using sent t q redis_laws.set_frame [OF assms(1)] by fastforce
  next
    case R_other
    then show ?thesis using sent t q redis_laws.set_other [OF assms(1)] by fastforce
  qed
qed

section \<open>The key center as the filter sees it\<close>

definition keycenter_net :: "get_kyrin_key_request codec \<Rightarrow> 'r redis_ops \<Rightarrow> 'r curl_ops" where
  "keycenter_net P R = net_of (\<lambda>url posted r.
     case posted of
       None \<Rightarrow> (None, r)
     | Some body \<Rightarrow>
         let (reply, r') = get_kyrin_key_handler P R \<lparr>find_header = Map.empty, input_buffer = body\<rparr> r in
         (Some (body_of reply), r'))"

lemma fetch_registered:
  assumes "redis_up R table" and "message_codec P" and "table r u = Some pem"
    and "c_str u = u" and "c_str pem = pem" and "pem \<noteq> []"
    and "length (http_url (m_host h) (m_port h) ''/GetKyrinKey'') < 1024"
    and "ser P (Get_kyrin_key_request u) = (True, msg)" and "base64_encode msg \<noteq> []"
    and "length (base64_encode msg) < k_server_max_post_data_size"
  shows "\<exists>r'. fetch_public_key P (keycenter_net P R) h u [] r = Ret (True, pem, r')"
proof -
  let ?req = "\<lparr>find_header = Map.empty, input_buffer = base64_encode msg\<rparr>"
  obtain r' where "r_command R (R_get u) r = (R_string pem, r')" using redis_up.get_Ret [OF assms(1,3)] by blast
  moreover have "server_get_postdata ?req [] = (True, base64_encode msg)" using assms(9,10) by (simp add: get_postdata_True)
  ultimately have "get_kyrin_key_handler P R ?req r = (server_send_reply_ok pem, r')"
    using message_codec.parse_ser [OF assms(2,8)]
    by (simp add: get_kyrin_key_handler_def b64.dec_enc assms(4,5))
  then show ?thesis
    using assms(5,6,8)
    by (simp add: fetch_public_key_def keycenter_net_def net_of_post [OF assms(7)] b64.enc_c_str)
qed

text \<open>
  C19: A registered key is accepted everywhere. After the administrator's \<open>SetKyrinKey\<close> for a
  user was answered 200 by a working key center, a server that asks that key center lets a
  request of this user pass exactly when its signature decrypts under the registered key to
  the digest of what was signed.
\<close>

theorem registered_key_decides:
  assumes "redis_up R table" and "message_codec P"
    and "set_kyrin_key_handler Ps R ssl sha adm r = Ret (rep, r1)" and "is_ok rep"
    and "snd (parse Ps (base64_decode (input_buffer adm))) = Set_kyrin_key_request u pem"
    and "c_str u = u" and "c_str pem = pem" and "pem_pubkey ssl pem = Some rsa"
    and "cache_empty h" and "length (http_url (m_host h) (m_port h) ''/GetKyrinKey'') < 1024"
    and "ser P (Get_kyrin_key_request u) = (True, msg)" and "base64_encode msg \<noteq> []"
    and "length (base64_encode msg) < k_server_max_post_data_size"
    and "signed_parts req u sig payload" and "pem \<noteq> []"
    and "\<forall>out. rsa_public_decrypt ssl rsa sig = Some out \<longrightarrow> length out \<le> 4098"
  shows "\<exists>verdict r2. filter_request P (keycenter_net P R) ssl sha req h r1 = Ret (verdict, h, r2)
    \<and> (verdict = None \<longleftrightarrow> rsa_public_decrypt ssl rsa sig = Some (kyrin_sha1 sha payload))"
proof -
  note laws = redis_up.axioms(1) [OF assms(1)]
  have "table r1 u = Some pem"
    using assms(3)
  proof (cases rule: set_key_cases)
    case (sent key r' rep' request)
    then have "rep' = R_other" using redis_up.set_works [OF assms(1)] by (metis fst_conv)
    then show ?thesis using sent(3,4) assms(5-7) redis_laws.set_other [OF laws] by fastforce
  qed (use assms(4) in simp)
  then obtain r2 where f: "fetch_public_key P (keycenter_net P R) h u [] r1 = Ret (True, pem, r2)"
    using fetch_registered [OF assms(1,2) _ assms(6,7,15,10-13)] by blast
  have "examine_legality ssl pem d sig = Ret (rsa_public_decrypt ssl rsa sig = Some d)" for d
    using assms(7,8,16)
    by (auto simp: examine_legality_def public_decrypt_def create_rsa_def through_buffer_def split: option.splits)
  then show ?thesis
    using f by (auto simp: filter_request_parts [OF assms(14)] examine_empty [OF assms(9)])
qed

section \<open>Concrete runs\<close>

definition admin_request :: request where
  "admin_request =
     \<lparr>find_header = (\<lambda>k. if k = ''KYRIN-SIGNATURE'' then Some (base64_encode (''A'' @ kyrin_sha1 demo_sha ''7MA==''))
        else if k = ''KYRIN-TIMESTAMP'' then Some ''7'' else None),
      input_buffer = ''MA==''\<rparr>"

lemma admin_request_simps [simp]:
  "find_header admin_request ''KYRIN-SIGNATURE'' = Some (base64_encode (''A'' @ kyrin_sha1 demo_sha ''7MA==''))"
  "find_header admin_request ''KYRIN-TIMESTAMP'' = Some ''7''" "input_buffer admin_request = ''MA==''"
  by (simp_all add: admin_request_def)

definition admin_codec :: "set_kyrin_key_request codec" where
  "admin_codec = table_codec [Set_kyrin_key_request ''me'' ''K'']"

lemma admin_message: "snd (parse admin_codec (base64_decode ''MA=='')) = Set_kyrin_key_request ''me'' ''K''"
proof -
  have "base64_decode ''MA=='' = ''0''" by code_simp
  then show ?thesis by (simp add: admin_codec_def table_codec_def)
qed

lemma admin_sets:
  "set_kyrin_key_handler admin_codec map_redis demo_ssl demo_sha admin_request [''KeyCenterAdminPublicKey'' \<mapsto> ''A'']
     = Ret (Reply_ok ''ok'', [''KeyCenterAdminPublicKey'' \<mapsto> ''A'', ''me'' \<mapsto> ''K''])"
  by (simp add: set_kyrin_key_handler_def server_get_postdata_def k_server_max_post_data_size_def server_get_header_def
      server_get_digest_def admin_message b64.enc_c_str b64.dec_enc examine_legality_def public_decrypt_def create_rsa_def
      through_buffer_def demo_ssl_def length_demo_sha server_send_reply_ok_def)

lemma set_key_authorised_witness:
  "authorised demo_ssl demo_sha ''A'' admin_request"
  using set_key_authorised [OF map_redis.redis_laws_axioms admin_sets refl] by simp

lemma registered_key_decides_witness:
  "\<exists>r2. filter_request (table_codec [Get_kyrin_key_request ''me'']) (keycenter_net (table_codec [Get_kyrin_key_request ''me'']) map_redis)
      demo_ssl demo_sha demo_request demo_helper [''KeyCenterAdminPublicKey'' \<mapsto> ''A'', ''me'' \<mapsto> ''K''] = Ret (None, demo_helper, r2)"
proof -
  let ?P = "table_codec [Get_kyrin_key_request ''me'']"
  have codec: "message_codec ?P" by (rule table_codec_ok) simp
  have url: "length (http_url (m_host demo_helper) (m_port demo_helper) ''/GetKyrinKey'') < 1024"
    unfolding demo_helper_def rsa_helper_new_def rsa_helper.simps by code_simp
  have msg: "ser ?P (Get_kyrin_key_request ''me'') = (True, ''0'')" by code_simp
  have b: "base64_encode ''0'' = ''MA==''" by code_simp
  have parts: "signed_parts demo_request ''me'' (''K'' @ kyrin_sha1 demo_sha ''12body'') ''12body''"
    by (simp add: signed_parts_def b64.enc_c_str b64.dec_enc k_server_max_post_data_size_def)
  have pem: "pem_pubkey demo_ssl ''K'' = Some ''K''" by (simp add: demo_ssl_def)
  have dec: "rsa_public_decrypt demo_ssl ''K'' (''K'' @ kyrin_sha1 demo_sha ''12body'') = Some (kyrin_sha1 demo_sha ''12body'')"
    by (simp add: demo_ssl_def)
  have "\<exists>verdict r2. filter_request ?P (keycenter_net ?P map_redis) demo_ssl demo_sha demo_request demo_helper
      [''KeyCenterAdminPublicKey'' \<mapsto> ''A'', ''me'' \<mapsto> ''K''] = Ret (verdict, demo_helper, r2)
    \<and> (verdict = None \<longleftrightarrow> rsa_public_decrypt demo_ssl ''K'' (''K'' @ kyrin_sha1 demo_sha ''12body'')
        = Some (kyrin_sha1 demo_sha ''12body''))"
    by (rule registered_key_decides [OF map_redis.redis_up_axioms codec admin_sets _ _ _ _ pem _ url msg _ _ parts])
      (simp_all add: admin_message demo_helper_def b k_server_max_post_data_size_def demo_ssl_def length_demo_sha)
  then show ?thesis using dec by blast
qed

end
