(* ===== verification/Slavenode.thy ===== *)
theory Slavenode
  imports Redis Replication
begin

text \<open>
  The slave node: \<open>slavenode/kyrin_slavenode_sync.cc\<close> copies the uploads of the masters' log into
  a redis server, a page at a time, and \<open>download_file_request_handler.cc\<close> answers lookups from
  it. Sleeping, logging and the random choice of a master (the argument \<open>rnd\<close>) aside, a turn of
  the endless loop is a function of the running id and the two worlds.
\<close>

section \<open>Copying the log\<close>

text \<open>
  One entry: whether the loop over the page goes on, the running id, redis. A null reply
  counts as success.
\<close>

definition sync_entry ::
  "codecs \<Rightarrow> 'r redis_ops \<Rightarrow> string \<Rightarrow> string \<Rightarrow> 'r \<Rightarrow> (bool \<times> string \<times> 'r) outcome" where
  "sync_entry M R item current r =
     (let op_log = snd (parse (c_oplog M) item) in
      if field 0 (ol_op_type op_log) \<noteq> 1 then Ret (True, current, r)
      else
        let op = snd (parse (c_operation M) (field [] (ol_log_data op_log)));
            (ok, operation_data) = ser (c_response M) (op_data op) in
        if \<not> ok then Ret (False, current, r)
        else
          let (rep, r1) = r_command R (R_set (field [] (fo_key op)) operation_data) r in
          if rep = R_error then Ret (False, current, r1)
          else obind (add_one current) (\<lambda>(_, next). Ret (True, next, r1)))"

fun sync_page ::
  "codecs \<Rightarrow> 'r redis_ops \<Rightarrow> string list \<Rightarrow> string \<Rightarrow> 'r \<Rightarrow> (string \<times> 'r) outcome" where
  "sync_page M R [] current r = Ret (current, r)"
| "sync_page M R (item # items) current r =
     obind (sync_entry M R item current r) (\<lambda>(ok, current1, r1).
       if ok then sync_page M R items current1 r1 else Ret (current1, r1))"

definition sync_turn ::
  "codecs \<Rightarrow> 'w curl_ops \<Rightarrow> 'r redis_ops \<Rightarrow> cluster \<Rightarrow> u32 \<Rightarrow> string \<Rightarrow> 'r \<Rightarrow> 'w
     \<Rightarrow> (string \<times> 'r \<times> 'w) outcome" where
  "sync_turn M C R cl rnd current r w =
     (if get_master_count cl = 0 then Undef
      else
        let random_master = rnd mod get_master_count cl + 1 in
        obind (get_master_ip cl random_master) (\<lambda>ip.
        obind (get_master_get_oplog_port cl random_master) (\<lambda>port.
        obind (make_request_post C ip port ''/GetOplog'' [] (base64_encode current) w) (\<lambda>(sent, response, w1).
          if \<not> sent then Ret (current, r, w1)
          else
            let data = snd (parse (c_page M) (base64_decode response)) in
            obind (sync_page M R (go_log_data data) current r) (\<lambda>(current1, r1). Ret (current1, r1, w1))))))"

text \<open>Turns with the given random values, from the first id on.\<close>

fun sync_turns ::
  "codecs \<Rightarrow> 'w curl_ops \<Rightarrow> 'r redis_ops \<Rightarrow> cluster \<Rightarrow> u32 list \<Rightarrow> string \<Rightarrow> 'r \<Rightarrow> 'w
     \<Rightarrow> (string \<times> 'r \<times> 'w) outcome" where
  "sync_turns M C R cl [] current r w = Ret (current, r, w)"
| "sync_turns M C R cl (rnd # rnds) current r w =
     obind (sync_turn M C R cl rnd current r w) (\<lambda>(current1, r1, w1). sync_turns M C R cl rnds current1 r1 w1)"

definition slavenode_sync ::
  "codecs \<Rightarrow> 'w curl_ops \<Rightarrow> 'r redis_ops \<Rightarrow> cluster \<Rightarrow> u32 list \<Rightarrow> 'r \<Rightarrow> 'w \<Rightarrow> (string \<times> 'r \<times> 'w) outcome" where
  "slavenode_sync M C R cl rnds r w = sync_turns M C R cl rnds get_zero r w"

section \<open>Looking up a file\<close>

text \<open>The text of a record: \<open>ss << host << " | "\<close>, then size and hash.\<close>

definition print_s64 :: "s64 \<Rightarrow> string" where
  "print_s64 v = (if sint v < 0 then CHR ''-'' # print_nat (nat (- sint v)) else print_nat (nat (sint v)))"

definition record_text :: "upload_file_response \<Rightarrow> string" where
  "record_text response =
     concat (map (\<lambda>h. h @ '' | '') (fr_file_hosts response))
       @ print_s64 (field 0 (fr_file_size response)) @ '' | '' @ field [] (fr_merkle_sha1 response) @ [CHR 0x0A]"

text \<open>\<open>ParseFromString(redis_reply->str)\<close>: the record up to its first NUL.\<close>

definition download_file_handler ::
  "codecs \<Rightarrow> 'r redis_ops \<Rightarrow> request \<Rightarrow> 'r \<Rightarrow> reply \<times> 'r" where
  "download_file_handler M R req r =
     (let (got, request_body) = server_get_postdata req [] in
      if \<not> got then (server_send_reply_bad ''Can't read post'', r)
      else
        case r_command R (R_get request_body) r of
          (R_string str, r1) \<Rightarrow>
            (server_send_reply_ok (record_text (snd (parse (c_response M) (c_str str)))), r1)
        | (_, r1) \<Rightarrow> (server_send_reply_bad ''No such key'', r1))"

section \<open>A page copied\<close>

definition put_item :: "codecs \<Rightarrow> string \<Rightarrow> (string \<rightharpoonup> string) \<Rightarrow> (string \<rightharpoonup> string)" where
  "put_item M item t = (case upload_item M item of Some (key, data) \<Rightarrow> t(key \<mapsto> data) | None \<Rightarrow> t)"

lemma sync_entry_upload:
  assumes "redis_up R table" and "upload_item M item \<noteq> None"
  shows "\<exists>r'. sync_entry M R item (op_id n) r = Ret (True, op_id (Suc n), r') \<and> table r' = put_item M item (table r)"
proof -
  obtain key data where i: "upload_item M item = Some (key, data)" using assms(2) by auto
  obtain r' where "r_command R (R_set key data) r = (R_other, r')" "table r' = (table r)(key \<mapsto> data)"
    using redis_up.set_Ret [OF assms(1)] by blast
  moreover obtain b where "add_one (op_id n) = Ret (b, op_id (Suc n))" using add_one_op_id by blast
  ultimately show ?thesis
    using i by (auto simp: put_item_def sync_entry_def upload_item_def Let_def split: prod.splits if_splits)
qed

lemma sync_page_uploads:
  assumes "redis_up R table" and "\<forall>item \<in> set items. upload_item M item \<noteq> None"
  shows "\<exists>r'. sync_page M R items (op_id n) r = Ret (op_id (n + length items), r')
    \<and> table r' = fold (put_item M) items (table r)"
  using assms(2)
proof (induction items arbitrary: n r)
  case Nil
  then show ?case by simp
next
  case (Cons item items)
  obtain r1 where 1: "sync_entry M R item (op_id n) r = Ret (True, op_id (Suc n), r1)"
    "table r1 = put_item M item (table r)"
    using sync_entry_upload [OF assms(1), of M item n r] Cons.prems by auto
  obtain r2 where "sync_page M R items (op_id (Suc n)) r1 = Ret (op_id (Suc n + length items), r2)"
    "table r2 = fold (put_item M) items (table r1)"
    using Cons.IH [of "Suc n" r1] Cons.prems by auto
  then show ?case using 1 by simp
qed

section \<open>Masters that serve their logs\<close>

definition log_net :: "codecs \<Rightarrow> 'd leveldb_ops \<Rightarrow> (string \<Rightarrow> u32 option) \<Rightarrow> (u32 \<Rightarrow> 'd dbs) curl_ops" where
  "log_net M L node = net_of (\<lambda>url posted w.
     case (node url, posted) of
       (Some i, Some body) \<Rightarrow>
         (case get_oplog_handler M L \<lparr>find_header = Map.empty, input_buffer = body\<rparr> (w i) of
            Ret (reply, s) \<Rightarrow> (Some (body_of reply), w(i := s))
          | _ \<Rightarrow> (None, w))
     | _ \<Rightarrow> (None, w))"

definition serves_logs :: "cluster \<Rightarrow> (string \<Rightarrow> u32 option) \<Rightarrow> bool" where
  "serves_logs cl node \<longleftrightarrow>
     0 < unat (m_master_server_count cl) \<and>
     (\<forall>i \<in> set (masters cl). \<exists>ip port.
        get_master_ip cl (of_nat i) = Ret ip \<and> get_master_get_oplog_port cl (of_nat i) = Ret port \<and>
        length (http_url ip port ''/GetOplog'') < 1024 \<and> node (http_url ip port ''/GetOplog'') = Some (of_nat i))"

text \<open>A master whose log holds exactly these entries.\<close>

definition holds :: "('d \<Rightarrow> (string, string) omap) \<Rightarrow> string list \<Rightarrow> 'd dbs \<Rightarrow> bool" where
  "holds stored entries s \<longleftrightarrow>
     dbs_up s \<and> log_ok stored (length entries) s \<and> map snd (log_of stored s) = entries"

lemma random_master:
  assumes "0 < unat (m_master_server_count cl)"
  obtains i where "i \<in> set (masters cl)" "rnd mod get_master_count cl + 1 = of_nat i" "get_master_count cl \<noteq> 0"
proof -
  let ?c = "m_master_server_count cl"
  let ?i = "unat (rnd mod ?c) + 1"
  have "unat (rnd mod ?c) < unat ?c" using assms by (simp add: unat_mod_distrib)
  then have "?i \<in> set (masters cl)" by simp
  moreover have "rnd mod ?c + 1 = of_nat ?i" by simp
  moreover have "?c \<noteq> 0" using assms by auto
  ultimately show ?thesis using that [of ?i] unfolding get_master_count_def by blast
qed

lemma log_net_post:
  assumes "serves_logs cl node" and "i \<in> set (masters cl)" and "reliable_db L stored"
    and "holds stored entries (w (of_nat i))" and "n < 2 ^ 64"
  obtains ip port reply s' where "get_master_ip cl (of_nat i) = Ret ip" "get_master_get_oplog_port cl (of_nat i) = Ret port"
    "get_oplog_handler M L \<lparr>find_header = Map.empty, input_buffer = base64_encode (op_id n)\<rparr> (w (of_nat i)) = Ret (reply, s')"
    "make_request_post (log_net M L node) ip port ''/GetOplog'' [] (base64_encode (op_id n)) w
      = Ret (True, body_of reply, w(of_nat i := s'))"
    "holds stored entries s'" "if n < length entries then is_ok reply else reply = Reply_bad ''No such op id''"
proof -
  obtain ip port where 1: "get_master_ip cl (of_nat i) = Ret ip" "get_master_get_oplog_port cl (of_nat i) = Ret port"
    "length (http_url ip port ''/GetOplog'') < 1024" "node (http_url ip port ''/GetOplog'') = Some (of_nat i)"
    using assms(1,2) unfolding serves_logs_def by blast
  have h: "dbs_up (w (of_nat i))" "log_ok stored (length entries) (w (of_nat i))"
    "map snd (log_of stored (w (of_nat i))) = entries"
    using assms(4) by (simp_all add: holds_def)
  obtain reply s' where 2: "get_oplog_handler M L \<lparr>find_header = Map.empty, input_buffer = base64_encode (op_id n)\<rparr>
      (w (of_nat i)) = Ret (reply, s')" "dbs_up s'" "log_of stored s' = log_of stored (w (of_nat i))"
    "if n < length entries then is_ok reply else reply = Reply_bad ''No such op id''"
    using get_oplog_works [OF assms(3) h(1,2) assms(5) refl] by blast
  have "holds stored entries s'" using h 2(2,3) by (simp add: holds_def log_ok_def)
  moreover have "make_request_post (log_net M L node) ip port ''/GetOplog'' [] (base64_encode (op_id n)) w
      = Ret (True, body_of reply, w(of_nat i := s'))"
    by (simp add: log_net_def net_of_post [OF 1(3)] 1(4) b64.enc_c_str 2(1))
  ultimately show ?thesis using that 1(1,2) 2(1,4) by blast
qed

text \<open>A text that is no page leaves an empty one behind.\<close>

definition no_page :: "codecs \<Rightarrow> string \<Rightarrow> bool" where
  "no_page M message \<longleftrightarrow> go_log_data (snd (parse (c_page M) (base64_decode message))) = []"

lemma sync_turn_gains:
  assumes "reliable_db L stored" and "redis_up R table" and "faithful M" and "\<forall>m. fst (ser (c_page M) m)"
    and "no_page M ''No such op id''" and "serves_logs cl node"
    and "\<forall>item \<in> set entries. upload_item M item \<noteq> None"
    and "\<forall>i \<in> set (masters cl). holds stored entries (w (of_nat i))" and "n \<le> length entries" and "length entries < 2 ^ 64"
  shows "\<exists>r' w'. sync_turn M (log_net M L node) R cl rnd (op_id n) r w = Ret (op_id (min (length entries) (n + 100)), r', w')
    \<and> table r' = fold (put_item M) (take 100 (drop n entries)) (table r)
    \<and> (\<forall>i \<in> set (masters cl). holds stored entries (w' (of_nat i)))"
proof -
  have pos: "0 < unat (m_master_server_count cl)" using assms(6) by (simp add: serves_logs_def)
  obtain i where i: "i \<in> set (masters cl)" "rnd mod get_master_count cl + 1 = of_nat i" "get_master_count cl \<noteq> 0"
    using random_master [OF pos] by blast
  have n: "n < 2 ^ 64" using assms(9,10) by simp
  have h: "holds stored entries (w (of_nat i))" using assms(8) i(1) by blast
  obtain ip port reply s' where p: "get_master_ip cl (of_nat i) = Ret ip" "get_master_get_oplog_port cl (of_nat i) = Ret port"
    "get_oplog_handler M L \<lparr>find_header = Map.empty, input_buffer = base64_encode (op_id n)\<rparr> (w (of_nat i)) = Ret (reply, s')"
    "make_request_post (log_net M L node) ip port ''/GetOplog'' [] (base64_encode (op_id n)) w
      = Ret (True, body_of reply, w(of_nat i := s'))"
    "holds stored entries s'" "if n < length entries then is_ok reply else reply = Reply_bad ''No such op id''"
    using log_net_post [where w = w and i = i, OF assms(6) i(1) assms(1) h n] by metis
  have page: "go_log_data (snd (parse (c_page M) (base64_decode (body_of reply)))) = take 100 (drop n entries)"
  proof (cases "n < length entries")
    case True
    then have "go_log_data (snd (parse (c_page M) (base64_decode (body_of reply))))
        = take 100 (drop n (map snd (log_of stored (w (of_nat i)))))"
      using h p(3,6) by (intro leader_page [OF reliable_db.axioms(1) [OF assms(1)] assms(3,4) _ True])
        (simp_all add: holds_def b64.dec_enc)
    then show ?thesis using h by (simp add: holds_def)
  next
    case False
    then show ?thesis using p(6) assms(5,9) by (simp add: no_page_def)
  qed
  have "\<forall>item \<in> set (take 100 (drop n entries)). upload_item M item \<noteq> None"
    using assms(7) set_take_subset [of 100 "drop n entries"] set_drop_subset [of n entries] by blast
  from sync_page_uploads [OF assms(2) this, of n r] obtain r' where
    r': "sync_page M R (take 100 (drop n entries)) (op_id n) r = Ret (op_id (n + length (take 100 (drop n entries))), r')"
      "table r' = fold (put_item M) (take 100 (drop n entries)) (table r)" by blast
  have len: "n + length (take 100 (drop n entries)) = min (length entries) (n + 100)"
    using assms(9) by (simp add: min_def) arith
  have "sync_turn M (log_net M L node) R cl rnd (op_id n) r w
      = Ret (op_id (min (length entries) (n + 100)), r', w(of_nat i := s'))"
    using i(2,3) p(1,2,4) r'(1) page unfolding len by (simp add: sync_turn_def Let_def)
  moreover have "\<forall>k \<in> set (masters cl). holds stored entries ((w(of_nat i := s')) (of_nat k))"
    using assms(8) p(5) by (simp del: masters_simps(1))
  ultimately show ?thesis using r'(2) by blast
qed

lemma take_chunk: "take (a + 100) xs = take a xs @ take 100 (drop a xs)"
  by (simp add: take_add)

lemma sync_turns_gain:
  assumes "reliable_db L stored" and "redis_up R table" and "faithful M" and "\<forall>m. fst (ser (c_page M) m)"
    and "no_page M ''No such op id''" and "serves_logs cl node"
    and "\<forall>item \<in> set entries. upload_item M item \<noteq> None" and "length entries < 2 ^ 64"
    and "\<forall>i \<in> set (masters cl). holds stored entries (w (of_nat i))" and "n \<le> length entries"
  shows "\<exists>r' w'. sync_turns M (log_net M L node) R cl rnds (op_id n) r w
      = Ret (op_id (min (length entries) (n + 100 * length rnds)), r', w')
    \<and> table r' = fold (put_item M) (take (100 * length rnds) (drop n entries)) (table r)"
  using assms(9,10)
proof (induction rnds arbitrary: n r w)
  case Nil
  then show ?case by simp
next
  case (Cons rnd rnds)
  let ?n = "min (length entries) (n + 100)"
  obtain r1 w1 where 1: "sync_turn M (log_net M L node) R cl rnd (op_id n) r w = Ret (op_id ?n, r1, w1)"
    "table r1 = fold (put_item M) (take 100 (drop n entries)) (table r)"
    "\<forall>i \<in> set (masters cl). holds stored entries (w1 (of_nat i))"
    using sync_turn_gains [OF assms(1-7) Cons.prems assms(8)] by blast
  obtain r2 w2 where 2: "sync_turns M (log_net M L node) R cl rnds (op_id ?n) r1 w1
      = Ret (op_id (min (length entries) (?n + 100 * length rnds)), r2, w2)"
    "table r2 = fold (put_item M) (take (100 * length rnds) (drop ?n entries)) (table r1)"
    using Cons.IH [OF 1(3), of ?n r1] by auto
  have "min (length entries) (?n + 100 * length rnds) = min (length entries) (n + 100 * length (rnd # rnds))"
    by (simp add: min_def)
  moreover have "take (100 * length (rnd # rnds)) (drop n entries)
      = take 100 (drop n entries) @ take (100 * length rnds) (drop ?n entries)"
  proof -
    have "drop ?n entries = drop 100 (drop n entries)" by (simp add: min_def add.commute)
    then show ?thesis by (simp add: take_add)
  qed
  ultimately show ?case using 1(1,2) 2 by simp
qed

text \<open>The user data of a master, as redis holds it.\<close>

lemma fold_put_item:
  "om_ok m \<Longrightarrow> fold (put_item M) items (om_find m) = om_find (fold (record_item M) items m)"
proof (induction items arbitrary: m)
  case Nil
  then show ?case by simp
next
  case (Cons item items)
  have "put_item M item (om_find m) = om_find (record_item M item m)" "om_ok (record_item M item m)"
    using Cons.prems by (auto simp: put_item_def record_item_def om_find_om_set om_ok_om_set split: option.splits)
  then show ?case using Cons.IH by simp
qed


text \<open>
  What a client is told. A key that redis holds with a record without NUL bytes is answered
  200 with the record's hosts, size and hash as text; a key it does not hold is refused.
\<close>

theorem download_file_lookup:
  assumes "redis_up R table" and "faithful M" and "ser (c_response M) response = (True, data)" and "c_str data = data"
    and "server_get_postdata req [] = (True, key)"
  shows "(table r key = Some data \<longrightarrow> (\<exists>r'. download_file_handler M R req r
      = (server_send_reply_ok (record_text response), r') \<and> table r' = table r))
    \<and> (table r key = None \<longrightarrow> \<not> is_ok (fst (download_file_handler M R req r)))"
proof (intro conjI impI)
  assume "table r key = Some data"
  then obtain r' where g: "r_command R (R_get key) r = (R_string data, r')" "table r' = table r"
    using redis_up.get_Ret [OF assms(1)] by blast
  have "parse (c_response M) data = (True, response)"
    using assms(2,3) message_codec.parse_ser by (auto simp: faithful_def)
  then show "\<exists>r'. download_file_handler M R req r = (server_send_reply_ok (record_text response), r') \<and> table r' = table r"
    using g assms(4,5) by (simp add: download_file_handler_def)
next
  assume none: "table r key = None"
  obtain rep r' where g: "r_command R (R_get key) r = (rep, r')" by fastforce
  then have "\<nexists>v. rep = R_string v"
    using redis_laws.get_found [OF redis_up.axioms(1) [OF assms(1)]] none by auto
  then show "\<not> is_ok (fst (download_file_handler M R req r))"
    using g assms(5) by (cases rep) (simp_all add: download_file_handler_def)
qed

section \<open>Concrete runs\<close>

definition log_node :: "string \<Rightarrow> u32 option" where
  "log_node url = (if url ! 7 = CHR ''a'' then Some 1 else if url ! 7 = CHR ''b'' then Some 2
     else if url ! 7 = CHR ''c'' then Some 3 else None)"

lemma small_serves_logs: "serves_logs (small_cluster 1) log_node"
proof -
  have "get_master_get_oplog_port (small_cluster 1) 2 = Ret 81" "get_master_get_oplog_port (small_cluster 1) 3 = Ret 81"
    "http_url ''b'' 81 ''/GetOplog'' = ''http://b:81/GetOplog''" "http_url ''c'' 81 ''/GetOplog'' = ''http://c:81/GetOplog''"
    by code_simp+
  then show ?thesis
    by (auto simp: serves_logs_def small_addresses small_urls log_node_def)
qed

lemma one_holds: "holds replay [one_item] one_dbs"
  by (simp add: holds_def dbs_up_def log_ok_def one_contents op_ids_def) (simp add: one_dbs_def)

definition tagged_M :: codecs where
  "tagged_M = ref_codecs\<lparr>c_page := tagged_codec (Get_oplog_response None [])\<rparr>"

lemma tagged_M_ok:
  "faithful tagged_M" "fst (ser (c_page tagged_M) m)" "no_page tagged_M ''No such op id''"
  "upload_item tagged_M one_item = Some (''uf'', one_data)"
proof -
  show "faithful tagged_M" using faithful_ref by (simp add: faithful_def tagged_M_def tagged_codec_ok)
  show "fst (ser (c_page tagged_M) m)" by (simp add: tagged_M_def tagged_codec_def)
  have "base64_decode ''No such op id'' = ''6''" by code_simp
  then show "no_page tagged_M ''No such op id''" by (simp add: no_page_def tagged_M_def tagged_codec_def)
  show "upload_item tagged_M one_item = Some (''uf'', one_data)"
    using one_upload by (simp add: upload_item_def tagged_M_def)
qed


lemma download_file_lookup_witness:
  "\<exists>r'. download_file_handler (small_codecs [] []) map_redis (small_post ''0'') [base64_encode ''0'' \<mapsto> ''0'']
    = (server_send_reply_ok (record_text small_response), r')"
proof -
  have "ser (c_response (small_codecs [] [])) small_response = (True, ''0'')" by code_simp
  moreover have "base64_encode ''0'' = ''MA==''" by code_simp
  then have "server_get_postdata (small_post ''0'') [] = (True, base64_encode ''0'')"
    by (simp add: small_post_def get_postdata_True k_server_max_post_data_size_def)
  ultimately show ?thesis
    using download_file_lookup [OF map_redis.redis_up_axioms small_faithful, of "[]" "[]" small_response "''0''"
        "small_post ''0''" "base64_encode ''0''" "[base64_encode ''0'' \<mapsto> ''0'']"]
    by auto
qed

end
