(* ===== verification/Gossiper.thy ===== *)
theory Gossiper
  imports Gossip_Status Http_Client Base_Server
begin

text \<open>
  The gossip protocol of the chunk servers: \<open>server/chunk/kyrin_chunk_gossiper.cc\<close> (one turn of
  the loop of \<open>gossip_sync\<close>) and \<open>kyrin_chunk_gossiper_server.cc\<close> (the answer to
  \<open>/GetStatus\<close>). \<open>Pd\<close> and \<open>Ps\<close> are the serialisations of the two messages, \<open>C\<close> is libcurl.
\<close>

section \<open>The requesting side\<close>

definition start_gossip :: "cluster \<Rightarrow> u64 \<Rightarrow> status \<Rightarrow> status outcome" where
  "start_gossip cl now s =
     obind (get_chunk_status cl ([], [])) (\<lambda>(seeds, commons). initialize cl seeds commons 0 now s)"

text \<open>
  \<open>while (!make_request_post(...) && retry < 3) retry++\<close>: the condition sends a request
  before it looks at \<open>retry\<close>, so three failures are followed by a fourth request.
\<close>

function post_loop ::
  "'w curl_ops \<Rightarrow> string \<Rightarrow> u32 \<Rightarrow> string \<Rightarrow> nat \<Rightarrow> string \<Rightarrow> 'w \<Rightarrow> (nat \<times> string \<times> 'w) outcome" where
  "post_loop C host port data retry response w =
     obind (make_request_post C host port ''/GetStatus'' response data w) (\<lambda>(ok, response', w').
       if \<not> ok \<and> retry < 3 then post_loop C host port data (retry + 1) response' w'
       else Ret (retry, response', w'))"
  by auto
termination by (relation "measure (\<lambda>(_, _, _, _, retry, _, _). 3 - retry)") auto

declare post_loop.simps [simp del]

text \<open>The last part of a turn: take over the peer's view when it is newer.\<close>

definition adopt :: "cluster_status codec \<Rightarrow> string \<Rightarrow> status \<Rightarrow> status" where
  "adopt Ps response s =
     (let (ok, t_status) = from_string Ps response status_new in
      if \<not> ok then s
      else if m_timestamp s < m_timestamp t_status then snd (from_string Ps response s)
      else s)"

text \<open>One turn of the inner loop, for one entry of \<open>to_gossip\<close>.\<close>

definition gossip_one ::
  "gossip_data codec \<Rightarrow> cluster_status codec \<Rightarrow> 'w curl_ops \<Rightarrow> cluster \<Rightarrow> u64 \<Rightarrow> u32 \<times> int
     \<Rightarrow> status \<Rightarrow> 'w \<Rightarrow> (status \<times> 'w) outcome" where
  "gossip_one Pd Ps C cl now target s w =
     (let (random_chunk, flag) = target in
      if random_chunk = 0 then Ret (s, w)
      else
        obind (conf_of cl 0) (\<lambda>own_conf.
        let to_post = snd (ser Pd (Gossip_data (m_kbid cl) own_conf));
            (found, config) = get_chunk_conf random_chunk no_conf s in
        if \<not> found then Ret (s, w)
        else
          obind (post_loop C (cc_host config) (cc_gossip_port config) (base64_encode to_post) 0 [] w)
            (\<lambda>(retry, response, w').
              let s' = (if retry = 3 \<and> 0 < flag then set_dead random_chunk flag now s
                        else if retry < 3 \<and> flag < 0 then set_alive random_chunk flag now s
                        else s) in
              if retry = 3 then Ret (s', w')
              else Ret (adopt Ps (base64_decode response) s', w'))))"

fun gossip_targets ::
  "gossip_data codec \<Rightarrow> cluster_status codec \<Rightarrow> 'w curl_ops \<Rightarrow> cluster \<Rightarrow> u64 list
     \<Rightarrow> (u32 \<times> int) list \<Rightarrow> status \<Rightarrow> 'w \<Rightarrow> (status \<times> 'w) outcome" where
  "gossip_targets Pd Ps C cl (now # nows) (t # ts) s w =
     obind (gossip_one Pd Ps C cl now t s w) (\<lambda>(s', w'). gossip_targets Pd Ps C cl nows ts s' w')"
| "gossip_targets Pd Ps C cl nows ts s w = Ret (s, w)"

text \<open>
  One round: four targets, drawn before any of them is contacted. \<open>draws\<close> gives the four
  values of \<open>rand()\<close>, \<open>nows\<close> the clock at the four turns.
\<close>

definition gossip_round ::
  "gossip_data codec \<Rightarrow> cluster_status codec \<Rightarrow> 'w curl_ops \<Rightarrow> cluster \<Rightarrow> (nat \<times> nat \<times> nat \<times> nat)
     \<Rightarrow> (u64 \<times> u64 \<times> u64 \<times> u64) \<Rightarrow> status \<Rightarrow> 'w \<Rightarrow> (status \<times> 'w) outcome" where
  "gossip_round Pd Ps C cl draws nows s w =
     (let (r1, r2, r3, r4) = draws; (t1, t2, t3, t4) = nows in
      gossip_targets Pd Ps C cl [t1, t2, t3, t4]
        [(get_random_seed r1 s, 1), (get_random_common r2 s, 2),
         (get_random_dead_seed r3 s, -1), (get_random_dead_common r4 s, -2)] s w)"

section \<open>The answering side\<close>

definition get_status_handler ::
  "gossip_data codec \<Rightarrow> cluster_status codec \<Rightarrow> u64 \<Rightarrow> request \<Rightarrow> status \<Rightarrow> reply \<times> status" where
  "get_status_handler Pd Ps now req s =
     (let (ok, request_body) = server_get_postdata req [] in
      if \<not> ok then (server_send_reply_bad ''Can't read post'', s)
      else if request_body = ''Read'' then
        (server_send_reply_ok (base64_encode (snd (to_string Ps s))), s)
      else
        let (parsed, send) = parse Pd (base64_decode request_body) in
        if \<not> parsed then (server_send_reply_bad ''Can't parse protobuf'', s)
        else
          let s' = snd (check_commons send now s) in
          (server_send_reply_ok (base64_encode (snd (to_string Ps s'))), s'))"

section \<open>One turn\<close>

lemma post_loop_success:
  assumes "make_request_post C host port ''/GetStatus'' response data w = Ret (True, r', w')"
  shows "post_loop C host port data retry response w = Ret (retry, r', w')"
  using assms by (simp add: post_loop.simps [of _ _ _ _ retry])

lemma post_loop_failure:
  assumes "make_request_post C host port ''/GetStatus'' response data w = Ret (False, r', w')"
    and "retry < 3"
  shows "post_loop C host port data retry response w = post_loop C host port data (retry + 1) r' w'"
  using assms by (simp add: post_loop.simps [of _ _ _ _ retry])

lemma post_loop_exhausted:
  assumes "make_request_post C host port ''/GetStatus'' response data w = Ret (ok, r', w')"
  shows "post_loop C host port data 3 response w = Ret (3, r', w')"
  using assms by (simp add: post_loop.simps [of _ _ _ _ 3])


section \<open>Snapshots over HTTP\<close>

lemma get_status_cases:
  assumes "get_status_handler Pd Ps now req s = (reply, s')"
  obtains (bad) msg where "msg \<in> {''Can't read post'', ''Can't parse protobuf''}"
      "reply = server_send_reply_bad msg" "s' = s"
    | (read) "input_buffer req = ''Read''" "s' = s"
      "reply = server_send_reply_ok (base64_encode (snd (to_string Ps s)))"
    | (hello) d where "input_buffer req \<noteq> ''Read''"
      "parse Pd (base64_decode (input_buffer req)) = (True, d)" "s' = snd (check_commons d now s)"
      "reply = server_send_reply_ok (base64_encode (snd (to_string Ps s')))"
  using assms
  by (auto simp: get_status_handler_def server_get_postdata_def Let_def split: prod.splits if_splits)

lemma status_reply_decodes:
  assumes "message_codec Ps" and "om_ok (m_configs s)" and "fst (to_string Ps s)"
  shows "from_string Ps (base64_decode (body_of (server_send_reply_ok (base64_encode (snd (to_string Ps s)))))) t
    = (True, s)"
proof -
  have "to_string Ps s = (True, snd (to_string Ps s))"
    using assms(3) by (simp add: prod_eq_iff)
  then show ?thesis
    using message_codec.parse_ser [OF assms(1), of "to_protobuf s" "snd (to_string Ps s)"] assms(2)
    by (simp add: b64.enc_c_str b64.dec_enc from_string_def to_string_def of_message_to_protobuf)
qed

text \<open>
  \<open>/GetStatus\<close> publishes the view. Posting \<open>Read\<close> leaves it unchanged; posting a
  server's own data first adds the sender when it is unknown; either way the reply is 200
  and any server that decodes it holds the answering server's view, the sender included.
\<close>

theorem get_status_publishes:
  assumes "message_codec Ps" and "\<forall>v. fst (ser Ps v)" and "status_ok s"
    and "get_status_handler Pd Ps now req s = (reply, s')" and "is_ok reply"
  shows "status_ok s' \<and> from_string Ps (base64_decode (body_of reply)) t = (True, s')
    \<and> (if input_buffer req = ''Read'' then s' = s
       else \<exists>d. parse Pd (base64_decode (input_buffer req)) = (True, d)
         \<and> gd_kbid d \<in># members s' \<and> members s \<subseteq># members s')"
proof -
  have wf: "status_ok (snd (check_commons d now s)) \<and> gd_kbid d \<in># members (snd (check_commons d now s))
      \<and> members s \<subseteq># members (snd (check_commons d now s))" for d
    using check_commons_wf [OF assms(3), of d now] by auto
  have dec: "from_string Ps (base64_decode (body_of (server_send_reply_ok
      (base64_encode (snd (to_string Ps v)))))) t = (True, v)" if "status_ok v" for v
    using that assms(2) by (intro status_reply_decodes [OF assms(1)]) (auto simp: status_ok_def to_string_def)
  from assms(4) show ?thesis
  proof (cases rule: get_status_cases)
    case bad
    then show ?thesis using assms(5) by simp
  next
    case read
    then show ?thesis using assms(3) dec by simp
  next
    case (hello d)
    then show ?thesis using wf [of d] dec by simp
  qed
qed

section \<open>A network of chunk servers\<close>

text \<open>
  The other servers as the world: each answers \<open>/GetStatus\<close> with the handler above, \<open>node\<close>
  tells which server, if any, is reached at a URL.
\<close>

definition gossip_net ::
  "gossip_data codec \<Rightarrow> cluster_status codec \<Rightarrow> u64 \<Rightarrow> (string \<Rightarrow> u32 option) \<Rightarrow> (u32 \<Rightarrow> status) curl_ops" where
  "gossip_net Pd Ps now node = net_of (\<lambda>url data w.
     case (node url, data) of
       (Some j, Some d) \<Rightarrow>
         let (reply, s') = get_status_handler Pd Ps now \<lparr>find_header = (\<lambda>_. None), input_buffer = d\<rparr> (w j)
         in (Some (body_of reply), w(j := s'))
     | _ \<Rightarrow> (None, w))"

definition nodes_ok :: "u64 \<Rightarrow> (u32 \<Rightarrow> status) \<Rightarrow> bool" where
  "nodes_ok now w \<longleftrightarrow> (\<forall>j. status_ok (w j) \<and> m_timestamp (w j) \<le> now)"

definition grows :: "(u32 \<Rightarrow> status) \<Rightarrow> (u32 \<Rightarrow> status) \<Rightarrow> bool" where
  "grows w w' \<longleftrightarrow> (\<forall>j. m_timestamp (w j) \<le> m_timestamp (w' j) \<and> members (w j) \<subseteq># members (w' j))"

lemma grows_trans: "grows u v \<Longrightarrow> grows v w \<Longrightarrow> grows u w"
  unfolding grows_def by (meson order_trans subset_mset.order_trans)

text \<open>The texts of the two error replies do not parse as a view.\<close>

definition errors_unparsable :: "cluster_status codec \<Rightarrow> bool" where
  "errors_unparsable Ps \<longleftrightarrow>
     \<not> fst (parse Ps (base64_decode ''Can't read post'')) \<and> \<not> fst (parse Ps (base64_decode ''Can't parse protobuf''))"

lemma timestamp_check_commons:
  "m_timestamp s \<le> now \<Longrightarrow> m_timestamp s \<le> m_timestamp (snd (check_commons d now s))
    \<and> m_timestamp (snd (check_commons d now s)) \<le> now"
  by (simp add: check_commons_def)

lemma net_handler:
  assumes "message_codec Ps" and "\<forall>v. fst (ser Ps v)" and "errors_unparsable Ps"
    and "status_ok s" and "m_timestamp s \<le> now" and "get_status_handler Pd Ps now req s = (reply, s')"
  shows "status_ok s' \<and> m_timestamp s \<le> m_timestamp s' \<and> m_timestamp s' \<le> now \<and> members s \<subseteq># members s'
    \<and> (\<forall>t. from_string Ps (base64_decode (body_of reply)) t \<in> {(True, s'), (False, t)})"
  using assms(6)
proof (cases rule: get_status_cases)
  case (bad msg)
  then show ?thesis
    using assms(3-5) by (auto simp: errors_unparsable_def from_string_def split: prod.splits)
next
  case read
  then show ?thesis
    using assms status_reply_decodes [OF assms(1), of s] by (simp add: status_ok_def to_string_def)
next
  case (hello d)
  then show ?thesis
    using assms status_reply_decodes [OF assms(1), of s'] check_commons_wf [OF assms(4), of d now]
      timestamp_check_commons [OF assms(5), of d]
    by (simp add: status_ok_def to_string_def)
qed

lemma net_post:
  assumes "message_codec Ps" and "\<forall>v. fst (ser Ps v)" and "errors_unparsable Ps" and "nodes_ok now w"
    and "make_request_post (gossip_net Pd Ps now node) h p uri [] data w = Ret (ok, r, w')"
  shows "nodes_ok now w' \<and> grows w w' \<and> (\<not> ok \<longrightarrow> r = [])
    \<and> (ok \<longrightarrow> (\<exists>j. \<forall>t. from_string Ps (base64_decode r) t \<in> {(True, w' j), (False, t)}))"
proof -
  have len: "length (http_url h p uri) < 1024"
    using assms(5) by (auto simp: gossip_net_def make_request_post_def curl_request_def net_of_def
        Let_def split: if_splits)
  show ?thesis
  proof (cases "node (http_url h p uri)")
    case None
    then have "ok = False" "r = []" "w' = w"
      using assms(5) len by (auto simp: gossip_net_def net_of_post)
    then show ?thesis using assms(4) by (simp add: grows_def)
  next
    case (Some j)
    obtain reply s' where hnd: "get_status_handler Pd Ps now
        \<lparr>find_header = (\<lambda>_. None), input_buffer = c_str data\<rparr> (w j) = (reply, s')"
      by (cases "get_status_handler Pd Ps now
        \<lparr>find_header = (\<lambda>_. None), input_buffer = c_str data\<rparr> (w j)") auto
    then have eq: "ok = True" "r = body_of reply" "w' = w(j := s')"
      using assms(5) len Some by (auto simp: gossip_net_def net_of_post)
    have ok: "status_ok (w j)" "m_timestamp (w j) \<le> now"
      using assms(4) by (auto simp: nodes_ok_def)
    note h = net_handler [OF assms(1-3) ok hnd]
    have "\<forall>t. from_string Ps (base64_decode r) t \<in> {(True, w' j), (False, t)}"
      using h by (simp add: eq)
    moreover have "nodes_ok now w'" "grows w w'"
      using h assms(4) by (auto simp: eq nodes_ok_def grows_def)
    ultimately show ?thesis by (auto simp: eq(1))
  qed
qed

lemma net_post_loop:
  assumes "message_codec Ps" and "\<forall>v. fst (ser Ps v)" and "errors_unparsable Ps" and "nodes_ok now w"
    and "post_loop (gossip_net Pd Ps now node) h p data retry [] w = Ret (n, r, w')"
    and "retry \<le> 3"
  shows "nodes_ok now w' \<and> grows w w' \<and> n \<le> 3
    \<and> (n < 3 \<longrightarrow> (\<exists>j. \<forall>t. from_string Ps (base64_decode r) t \<in> {(True, w' j), (False, t)}))"
  using assms(4-6)
proof (induction "3 - retry" arbitrary: retry w rule: less_induct)
  case less
  obtain ok r1 w1 where post: "make_request_post (gossip_net Pd Ps now node) h p ''/GetStatus'' [] data w
      = Ret (ok, r1, w1)"
    using less.prems(2) by (subst (asm) post_loop.simps) (auto elim!: obind_RetE)
  note one = net_post [OF assms(1-3) less.prems(1) post]
  show ?case
  proof (cases "\<not> ok \<and> retry < 3")
    case True
    then have "post_loop (gossip_net Pd Ps now node) h p data (retry + 1) [] w1 = Ret (n, r, w')"
      using post less.prems(2) one by (subst (asm) post_loop.simps) simp
    then have "nodes_ok now w' \<and> grows w1 w' \<and> n \<le> 3
        \<and> (n < 3 \<longrightarrow> (\<exists>j. \<forall>t. from_string Ps (base64_decode r) t \<in> {(True, w' j), (False, t)}))"
      using True one by (intro less.hyps [of "retry + 1"]) auto
    then show ?thesis using one grows_trans by blast
  next
    case False
    then have "n = retry" "r = r1" "w' = w1"
      using post less.prems(2) by (subst (asm) post_loop.simps; auto)+
    then show ?thesis using one False less.prems(3) by auto
  qed
qed

lemma adopt_cases:
  assumes "\<forall>t. from_string Ps r t \<in> {(True, v), (False, t)}"
  shows "adopt Ps r s = s \<or> adopt Ps r s = v \<and> m_timestamp s < m_timestamp v"
proof (cases "fst (from_string Ps r status_new)")
  case True
  then have "from_string Ps r t = (True, v)" for t
    using assms by (auto simp: from_string_def split: prod.splits if_splits)
  then show ?thesis by (simp add: adopt_def)
next
  case False
  then show ?thesis by (auto simp: adopt_def split: prod.splits)
qed

lemma timestamp_moved:
  "m_timestamp s \<le> now \<Longrightarrow> m_timestamp s \<le> m_timestamp (set_dead k flag now s)
    \<and> m_timestamp (set_dead k flag now s) \<le> now \<and> m_timestamp s \<le> m_timestamp (set_alive k flag now s)
    \<and> m_timestamp (set_alive k flag now s) \<le> now"
  by (simp add: set_dead_def set_alive_def Let_def split: prod.splits)


section \<open>Instances\<close>

definition demo_view :: status where
  "demo_view = status_new\<lparr>m_seeds := [7], m_configs := [(7, no_conf)]\<rparr>"

lemma demo_view_ok: "status_ok demo_view" "m_timestamp demo_view = 0" "status_ok status_new"
  by (auto simp: status_ok_def demo_view_def status_new_def dom_def om_ok_def om_find_def)

lemma conf_of_full: "\<exists>c. conf_of full_cluster 0 = Ret c"
proof -
  have "returns (conf_of full_cluster 0)" by code_simp
  then show ?thesis by (auto simp: returns_iff)
qed

definition silent :: "'w curl_ops" where
  "silent = net_of (\<lambda>_ _ w. (None, w))"

lemma silent_post:
  "make_request_post silent (cc_host no_conf) (cc_gossip_port no_conf) ''/GetStatus'' r data w = Ret (False, [], w)"
proof -
  have "length (http_url (cc_host no_conf) (cc_gossip_port no_conf) ''/GetStatus'') < 1024" by code_simp
  then show ?thesis by (simp add: silent_def net_of_post)
qed


lemma get_status_publishes_witness:
  "\<exists>reply. get_status_handler ref_codec ref_codec 5 \<lparr>find_header = (\<lambda>_. None), input_buffer = ''Read''\<rparr> demo_view
      = (reply, demo_view)
    \<and> from_string ref_codec (base64_decode (body_of reply)) status_new = (True, demo_view)"
proof -
  let ?req = "\<lparr>find_header = (\<lambda>_. None), input_buffer = ''Read''\<rparr>"
  let ?reply = "server_send_reply_ok (base64_encode (snd (to_string ref_codec demo_view)))"
  have h: "get_status_handler ref_codec ref_codec 5 ?req demo_view = (?reply, demo_view)"
    by (simp add: get_status_handler_def server_get_postdata_def k_server_max_post_data_size_def)
  have "\<forall>v :: cluster_status. fst (ser ref_codec v)" by simp
  from get_status_publishes [OF ref_codec.message_codec_axioms this demo_view_ok(1) h] h
  show ?thesis by auto
qed

lemma ref_codec_errors: "errors_unparsable ref_codec"
proof -
  have "\<exists>c \<in> set (base64_decode ''Can't read post''). \<not> is_digit c" by code_simp
  moreover have "\<exists>c \<in> set (base64_decode ''Can't parse protobuf''). \<not> is_digit c" by code_simp
  ultimately show ?thesis by (simp add: errors_unparsable_def ref_codec_strict)
qed


end
