(* ===== verification/Servers.thy ===== *)
theory Servers
  imports Sockets Upload_File Confirm_Oplog Chunk_Files Key_Center Slavenode Gossiper
begin

text \<open>
  The servers: \<open>server/*/kyrin_*_server.cc\<close>. For each, the descriptors and members its class
  holds, \<open>server_initialize\<close>, \<open>server_set_processor\<close>, \<open>server_start\<close> and \<open>server_free\<close>, and the functions
  that put the identity filter in front of a handler. A database wrapper or handler is
  represented by what it was constructed with; a null pointer is None. Databases, redis
  connections and the sentinel's state are arguments of the handlers.
\<close>

section \<open>The workers\<close>

text \<open>
  The calls made on a worker's \<open>evhttp\<close>: the callbacks by path and the sockets it accepts on.
  Of two callbacks for one path libevent keeps the first.
\<close>

record 'h evhttp =
  callbacks :: "(string \<times> 'h) list"
  accept_fds :: "s32 list"

definition evhttp_new :: "'h evhttp" where
  "evhttp_new = \<lparr>callbacks = [], accept_fds = []\<rparr>"

definition server_put_callback :: "string \<Rightarrow> 'h \<Rightarrow> 'h evhttp \<Rightarrow> 'h evhttp" where
  "server_put_callback path cb e = e\<lparr>callbacks := callbacks e @ [(path, cb)]\<rparr>"

definition server_set_evhttp_accept_socket :: "s32 \<Rightarrow> 'h evhttp \<Rightarrow> 'h evhttp" where
  "server_set_evhttp_accept_socket listen_fd e = e\<lparr>accept_fds := accept_fds e @ [listen_fd]\<rparr>"

definition server_run :: "('h evhttp \<Rightarrow> nat \<Rightarrow> 'h evhttp) \<Rightarrow> u32 \<Rightarrow> 'h evhttp list" where
  "server_run server_set_processor threads = map (server_set_processor evhttp_new) [0..<unat threads]"

text \<open>A request that arrives on a descriptor under a path can reach a callback.\<close>

definition routed :: "'h evhttp list \<Rightarrow> s32 \<Rightarrow> string \<Rightarrow> 'h \<Rightarrow> bool" where
  "routed workers fd path cb \<longleftrightarrow>
     (\<exists>e \<in> set workers. fd \<in> set (accept_fds e) \<and> map_of (callbacks e) path = Some cb)"

lemma routed_run:
  "routed (server_run p n) fd path cb \<longleftrightarrow>
     (\<exists>i < unat n. fd \<in> set (accept_fds (p evhttp_new i)) \<and> map_of (callbacks (p evhttp_new i)) path = Some cb)"
  by (auto simp: routed_def server_run_def)

lemmas worker_defs = server_put_callback_def server_set_evhttp_accept_socket_def evhttp_new_def

section \<open>The filter in front of a handler\<close>

text \<open>
  The member is null until \<open>server_initialize\<close> is through; a call on it has no defined
  behaviour then.
\<close>

definition filtered ::
  "get_kyrin_key_request codec \<Rightarrow> 'w curl_ops \<Rightarrow> 'rsa openssl \<Rightarrow> (string \<Rightarrow> string) \<Rightarrow> request
     \<Rightarrow> ('s \<Rightarrow> 'w \<Rightarrow> (reply \<times> 's \<times> 'w) outcome) \<Rightarrow> rsa_helper option \<Rightarrow> 's \<Rightarrow> 'w
     \<Rightarrow> (reply \<times> rsa_helper option \<times> 's \<times> 'w) outcome" where
  "filtered P C ssl sha req handler m_filter s w =
     (case m_filter of
        None \<Rightarrow> Undef
      | Some h \<Rightarrow>
          obind (filter_request P C ssl sha req h w) (\<lambda>(verdict, h', w').
          case verdict of
            Some reply \<Rightarrow> Ret (reply, Some h', s, w')
          | None \<Rightarrow> obind (handler s w') (\<lambda>(reply, s', w''). Ret (reply, Some h', s', w''))))"

section \<open>The master server\<close>

datatype master_callback = Upload_file_callback | Get_oplog_callback | Confirm_oplog_callback

text \<open>\<open>new KyrinMasterServer()\<close> sets every member to zero.\<close>

record 'p master_server =
  upload_file_fd :: s32
  get_oplog_fd :: s32
  confirm_oplog_fd :: s32
  ms_sentinel :: "'p option"
  ms_userdata_db :: "string option"
  ms_oplog_db :: "string option"
  ms_filter :: "rsa_helper option"

definition master_new :: "'p master_server" where
  "master_new = \<lparr>upload_file_fd = 0, get_oplog_fd = 0, confirm_oplog_fd = 0, ms_sentinel = None,
     ms_userdata_db = None, ms_oplog_db = None, ms_filter = None\<rparr>"

definition master_initialize ::
  "'s sock_ops \<Rightarrow> cluster \<Rightarrow> 'p option \<Rightarrow> 'p master_server \<Rightarrow> 's \<Rightarrow> (bool \<times> 'p master_server \<times> 's) outcome" where
  "master_initialize S cl sentinel m s =
     (if sentinel = None then Ret (False, m, s)
      else
        obind (get_master_config cl 0) (\<lambda>config.
        obind (upload_file_port config) (\<lambda>port. obind (upload_file_backlog config) (\<lambda>backlog.
        let (ok, fd, s) = server_initialize_kyrin_server_socket S port backlog s;
            m = m\<lparr>ms_sentinel := sentinel, upload_file_fd := fd\<rparr> in
        if \<not> ok then Ret (False, m, s)
        else
          obind (get_oplog_port config) (\<lambda>port. obind (get_oplog_backlog config) (\<lambda>backlog.
          let (ok, fd, s) = server_initialize_kyrin_server_socket S port backlog s;
              m = m\<lparr>get_oplog_fd := fd\<rparr> in
          if \<not> ok then Ret (False, m, s)
          else
            obind (confirm_oplog_port config) (\<lambda>port. obind (confirm_oplog_backlog config) (\<lambda>backlog.
            let (ok, fd, s) = server_initialize_kyrin_server_socket S port backlog s;
                m = m\<lparr>confirm_oplog_fd := fd\<rparr> in
            if \<not> ok then Ret (False, m, s)
            else
              obind (userdata_database_path config) (\<lambda>userdata. obind (oplog_database_path config) (\<lambda>oplog.
              obind (get_keycenter_host cl) (\<lambda>kc_host. obind (get_keycenter_get_key_port cl) (\<lambda>kc_port.
              Ret (True, m\<lparr>ms_userdata_db := Some userdata, ms_oplog_db := Some oplog,
                            ms_filter := Some (rsa_helper_new (c_str kc_host) kc_port)\<rparr>, s)))))))))))))"

definition master_set_processor :: "'p master_server \<Rightarrow> master_callback evhttp \<Rightarrow> nat \<Rightarrow> master_callback evhttp" where
  "master_set_processor m server thread_code =
     (if thread_code = 0 then
        server_set_evhttp_accept_socket (upload_file_fd m) (server_put_callback ''/UploadFile'' Upload_file_callback server)
      else if thread_code = 1 then
        server_set_evhttp_accept_socket (confirm_oplog_fd m) (server_put_callback ''/ConfirmOplog'' Confirm_oplog_callback server)
      else
        server_set_evhttp_accept_socket (get_oplog_fd m) (server_put_callback ''/GetOplog'' Get_oplog_callback server))"

definition master_start :: "cluster \<Rightarrow> 'p master_server \<Rightarrow> master_callback evhttp list outcome" where
  "master_start cl m =
     obind (get_master_config cl 0) (\<lambda>config. obind (server_threads config) (\<lambda>threads.
     Ret (server_run (master_set_processor m) threads)))"

definition master_free :: "'s sock_ops \<Rightarrow> 'p master_server \<Rightarrow> 's \<Rightarrow> 's" where
  "master_free S m s = s_close S (confirm_oplog_fd m) (s_close S (get_oplog_fd m) (s_close S (upload_file_fd m) s))"

text \<open>\<open>main\<close> starts the server whether or not its initialisation succeeded.\<close>

definition master_main ::
  "'s sock_ops \<Rightarrow> cluster \<Rightarrow> 'p \<Rightarrow> 's \<Rightarrow> ('p master_server \<times> master_callback evhttp list \<times> 's) outcome" where
  "master_main S cl sentinel s =
     obind (master_initialize S cl (Some sentinel) master_new s) (\<lambda>(_, m, s').
     obind (master_start cl m) (\<lambda>workers. Ret (m, workers, s')))"

definition process_upload_file_request where
  "process_upload_file_request P ssl sha M Ps C L cl rnd draws sentinel req m s w =
     obind (filtered P C ssl sha req (\<lambda>s w. upload_file_handler M Ps C L cl rnd draws sentinel req s w) (ms_filter m) s w)
       (\<lambda>(reply, h, s', w'). Ret (reply, m\<lparr>ms_filter := h\<rparr>, s', w'))"

definition process_get_oplog_request where
  "process_get_oplog_request M L req m s =
     (if ms_oplog_db m = None then Undef else get_oplog_handler M L req s)"

definition process_confirm_oplog_request where
  "process_confirm_oplog_request M C L cl fuel sentinel req m st s w =
     (if ms_oplog_db m = None then Undef else confirm_oplog_handler M C L cl fuel sentinel req st s w)"

section \<open>The chunk server\<close>

datatype chunk_callback =
  Upload_chunk_callback | Download_chunk_callback | Set_key_info_callback | Get_key_info_callback

record chunk_server =
  upload_chunk_file_fd :: s32
  download_chunk_file_fd :: s32
  set_file_key_info_fd :: s32
  get_file_key_info_fd :: s32
  cs_keyinfo_db :: "string option"
  cs_filter :: "rsa_helper option"

definition chunk_new :: chunk_server where
  "chunk_new = \<lparr>upload_chunk_file_fd = 0, download_chunk_file_fd = 0, set_file_key_info_fd = 0,
     get_file_key_info_fd = 0, cs_keyinfo_db = None, cs_filter = None\<rparr>"

text \<open>
  \<open>file\<close> is what opening \<open>kyrinbox_config.json\<close> gives; the ports come from it, the path of the
  database from the cluster. The gossiper passed is only tested for null and stored.
\<close>

definition chunk_initialize ::
  "'s sock_ops \<Rightarrow> string option \<Rightarrow> cluster \<Rightarrow> 'p option \<Rightarrow> chunk_server \<Rightarrow> 's \<Rightarrow> (bool \<times> chunk_server \<times> 's) outcome" where
  "chunk_initialize S file cl gossiper m s =
     (if gossiper = None then Ret (False, m, s)
      else
        let config = read_config_file file in
        obind (upload_chunk_file_port config) (\<lambda>port. obind (upload_chunk_file_backlog config) (\<lambda>backlog.
        let (ok, fd, s) = server_initialize_kyrin_server_socket S port backlog s;
            m = m\<lparr>upload_chunk_file_fd := fd\<rparr> in
        if \<not> ok then Ret (False, m, s)
        else
          obind (download_chunk_file_port config) (\<lambda>port. obind (download_chunk_file_backlog config) (\<lambda>backlog.
          let (ok, fd, s) = server_initialize_kyrin_server_socket S port backlog s;
              m = m\<lparr>download_chunk_file_fd := fd\<rparr> in
          if \<not> ok then Ret (False, m, s)
          else
            obind (set_file_key_info_port config) (\<lambda>port. obind (set_file_key_info_backlog config) (\<lambda>backlog.
            let (ok, fd, s) = server_initialize_kyrin_server_socket S port backlog s;
                m = m\<lparr>set_file_key_info_fd := fd\<rparr> in
            if \<not> ok then Ret (False, m, s)
            else
              obind (get_file_key_info_port config) (\<lambda>port. obind (get_file_key_info_backlog config) (\<lambda>backlog.
              let (ok, fd, s) = server_initialize_kyrin_server_socket S port backlog s;
                  m = m\<lparr>get_file_key_info_fd := fd\<rparr> in
              if \<not> ok then Ret (False, m, s)
              else
                obind (get_chunk_config cl 0) (\<lambda>own_config. obind (keyinfo_database_path own_config) (\<lambda>path.
                obind (get_keycenter_host cl) (\<lambda>kc_host. obind (get_keycenter_get_key_port cl) (\<lambda>kc_port.
                Ret (True, m\<lparr>cs_keyinfo_db := Some (c_str path),
                              cs_filter := Some (rsa_helper_new (c_str kc_host) kc_port)\<rparr>, s))))))))))))))"

definition chunk_set_processor :: "chunk_server \<Rightarrow> chunk_callback evhttp \<Rightarrow> nat \<Rightarrow> chunk_callback evhttp" where
  "chunk_set_processor m server thread_code =
     (if thread_code = 0 then
        server_set_evhttp_accept_socket (upload_chunk_file_fd m) (server_put_callback ''/UploadChunkFile'' Upload_chunk_callback server)
      else if thread_code = 1 then
        server_set_evhttp_accept_socket (download_chunk_file_fd m) (server_put_callback ''/DownloadChunkFile'' Download_chunk_callback server)
      else if thread_code = 2 then
        server_set_evhttp_accept_socket (set_file_key_info_fd m) (server_put_callback ''/SetFileKeyinfo'' Set_key_info_callback server)
      else
        server_set_evhttp_accept_socket (get_file_key_info_fd m) (server_put_callback ''/GetFileKeyinfo'' Get_key_info_callback server))"

definition chunk_start :: "chunk_server \<Rightarrow> chunk_callback evhttp list" where
  "chunk_start m = server_run (chunk_set_processor m) 4"

text \<open>Only the upload socket is closed.\<close>

definition chunk_free :: "'s sock_ops \<Rightarrow> chunk_server \<Rightarrow> 's \<Rightarrow> 's" where
  "chunk_free S m s = s_close S (upload_chunk_file_fd m) s"

text \<open>What the handlers work on: the key-info database and the directory of pieces.\<close>

record ('d, 'f) chunk_store =
  key_infos :: "'d db"
  chunk_files :: 'f

definition process_upload_chunk_file_request where
  "process_upload_chunk_file_request P C ssl sha Pu F req =
     filtered P C ssl sha req (\<lambda>s w.
       obind (upload_chunk_handler Pu F req (chunk_files s)) (\<lambda>(reply, f). Ret (reply, s\<lparr>chunk_files := f\<rparr>, w)))"

definition process_download_chunk_file_request where
  "process_download_chunk_file_request P C ssl sha Pd F req =
     filtered P C ssl sha req (\<lambda>s w.
       obind (download_chunk_handler Pd F req (chunk_files s)) (\<lambda>reply. Ret (reply, s, w)))"

definition process_set_file_key_info_request where
  "process_set_file_key_info_request P C ssl sha Pk L F req =
     filtered P C ssl sha req (\<lambda>s w.
       obind (set_file_key_info_handler Pk L F req (key_infos s) (chunk_files s)) (\<lambda>(reply, db, f).
         Ret (reply, \<lparr>key_infos = db, chunk_files = f\<rparr>, w)))"

definition process_get_file_key_info_request where
  "process_get_file_key_info_request P C ssl sha Pg L req =
     filtered P C ssl sha req (\<lambda>s w.
       obind (get_file_key_info_handler Pg L req (key_infos s)) (\<lambda>(reply, db).
         Ret (reply, s\<lparr>key_infos := db\<rparr>, w)))"

section \<open>The key center\<close>

datatype keycenter_callback = Get_key_callback | Set_key_callback

text \<open>The handlers are created with the host and port of their redis server.\<close>

record keycenter_server =
  get_key_fd :: s32
  set_key_fd :: s32
  kc_redis :: "(string \<times> u32) option"

definition keycenter_new :: keycenter_server where
  "keycenter_new = \<lparr>get_key_fd = 0, set_key_fd = 0, kc_redis = None\<rparr>"

definition keycenter_initialize ::
  "'s sock_ops \<Rightarrow> cluster \<Rightarrow> keycenter_server \<Rightarrow> 's \<Rightarrow> (bool \<times> keycenter_server \<times> 's) outcome" where
  "keycenter_initialize S cl m s =
     obind (get_keycenter_get_key_port cl) (\<lambda>port. obind (get_keycenter_get_key_backlog cl) (\<lambda>backlog.
     let (ok, fd, s) = server_initialize_kyrin_server_socket S port backlog s;
         m = m\<lparr>get_key_fd := fd\<rparr> in
     if \<not> ok then Ret (False, m, s)
     else
       obind (get_keycenter_set_key_port cl) (\<lambda>port. obind (get_keycenter_set_key_backlog cl) (\<lambda>backlog.
       let (ok, fd, s) = server_initialize_kyrin_server_socket S port backlog s;
           m = m\<lparr>set_key_fd := fd\<rparr> in
       if \<not> ok then Ret (False, m, s)
       else
         obind (get_keycenter_redis_host cl) (\<lambda>redis_host. obind (get_keycenter_redis_port cl) (\<lambda>redis_port.
         Ret (True, m\<lparr>kc_redis := Some (c_str redis_host, redis_port)\<rparr>, s)))))))"

definition keycenter_set_processor :: "keycenter_server \<Rightarrow> keycenter_callback evhttp \<Rightarrow> nat \<Rightarrow> keycenter_callback evhttp" where
  "keycenter_set_processor m server thread_code =
     (if thread_code \<noteq> 0 then
        server_set_evhttp_accept_socket (set_key_fd m) (server_put_callback ''/SetKyrinKey'' Set_key_callback server)
      else
        server_set_evhttp_accept_socket (get_key_fd m) (server_put_callback ''/GetKyrinKey'' Get_key_callback server))"

definition keycenter_start :: "keycenter_server \<Rightarrow> keycenter_callback evhttp list" where
  "keycenter_start m = server_run (keycenter_set_processor m) 2"

definition keycenter_free :: "'s sock_ops \<Rightarrow> keycenter_server \<Rightarrow> 's \<Rightarrow> 's" where
  "keycenter_free S m s = s_close S (set_key_fd m) (s_close S (get_key_fd m) s)"

section \<open>The slave node\<close>

record slavenode_server =
  download_file_fd :: s32
  sn_redis :: "(string \<times> u32) option"

definition slavenode_new :: slavenode_server where
  "slavenode_new = \<lparr>download_file_fd = 0, sn_redis = None\<rparr>"

definition slavenode_initialize ::
  "'s sock_ops \<Rightarrow> string option \<Rightarrow> 'p option \<Rightarrow> slavenode_server \<Rightarrow> 's \<Rightarrow> (bool \<times> slavenode_server \<times> 's) outcome" where
  "slavenode_initialize S file sync m s =
     (if sync = None then Ret (False, m, s)
      else
        let config = read_config_file file in
        obind (download_file_port config) (\<lambda>port. obind (download_file_backlog config) (\<lambda>backlog.
        let (ok, fd, s) = server_initialize_kyrin_server_socket S port backlog s;
            m = m\<lparr>download_file_fd := fd\<rparr> in
        if \<not> ok then Ret (False, m, s)
        else
          obind (slavenode_redis_host config) (\<lambda>redis_host. obind (slavenode_redis_port config) (\<lambda>redis_port.
          Ret (True, m\<lparr>sn_redis := Some (c_str redis_host, redis_port)\<rparr>, s))))))"

definition slavenode_set_processor :: "slavenode_server \<Rightarrow> unit evhttp \<Rightarrow> nat \<Rightarrow> unit evhttp" where
  "slavenode_set_processor m server thread_code =
     server_set_evhttp_accept_socket (download_file_fd m) (server_put_callback ''/DownloadFile'' () server)"

definition slavenode_start :: "slavenode_server \<Rightarrow> unit evhttp list" where
  "slavenode_start m = server_run (slavenode_set_processor m) 4"

definition slavenode_free :: "'s sock_ops \<Rightarrow> slavenode_server \<Rightarrow> 's \<Rightarrow> 's" where
  "slavenode_free S m s = s_close S (download_file_fd m) s"

section \<open>The sentinel's and the gossiper's servers\<close>

datatype sentinel_callback = Get_sentinel_status_callback | Get_sentinel_vote_callback

text \<open>Both hold one descriptor; on failure the thread function gives up its server.\<close>

definition sentinel_set_processor :: "s32 \<Rightarrow> sentinel_callback evhttp \<Rightarrow> nat \<Rightarrow> sentinel_callback evhttp" where
  "sentinel_set_processor listen_fd server thread_code =
     server_set_evhttp_accept_socket listen_fd
       (server_put_callback ''/GetVote'' Get_sentinel_vote_callback
         (server_put_callback ''/GetStatus'' Get_sentinel_status_callback server))"

definition sentinel_thread_func ::
  "'s sock_ops \<Rightarrow> cluster \<Rightarrow> 's \<Rightarrow> ((s32 \<times> sentinel_callback evhttp list) option \<times> 's) outcome" where
  "sentinel_thread_func S cl s =
     obind (get_master_sentinel_port cl 0) (\<lambda>port.
     let (ok, listen_fd, s) = server_initialize_kyrin_server_socket S port (128 * 8) s in
     if \<not> ok then Ret (None, s)
     else Ret (Some (listen_fd, server_run (sentinel_set_processor listen_fd) 1), s))"

definition gossiper_set_processor :: "s32 \<Rightarrow> unit evhttp \<Rightarrow> nat \<Rightarrow> unit evhttp" where
  "gossiper_set_processor listen_fd server thread_code =
     server_set_evhttp_accept_socket listen_fd (server_put_callback ''/GetStatus'' () server)"

definition gossip_server_thread_func ::
  "'s sock_ops \<Rightarrow> cluster \<Rightarrow> 's \<Rightarrow> ((s32 \<times> unit evhttp list) option \<times> 's) outcome" where
  "gossip_server_thread_func S cl s =
     obind (get_chunk_config cl 0) (\<lambda>config.
     obind (gossip_server_port config) (\<lambda>port. obind (gossip_server_backlog config) (\<lambda>backlog.
     let (ok, listen_fd, s) = server_initialize_kyrin_server_socket S port backlog s in
     if \<not> ok then Ret (None, s)
     else Ret (Some (listen_fd, server_run (gossiper_set_processor listen_fd) 1), s))))"

section \<open>Starting a master\<close>

lemma routed_three:
  assumes "\<And>i. p evhttp_new i = \<lparr>callbacks = [(path i, cb i)], accept_fds = [fd i]\<rparr>"
    and "\<And>i. 2 \<le> i \<Longrightarrow> (path i, cb i, fd i) = (path 2, cb 2, fd 2)"
  shows "routed (server_run p n) x q c \<longleftrightarrow> (\<exists>i < min 3 (unat n). (x, q, c) = (fd i, path i, cb i))"
proof -
  have "(\<exists>i < unat n. (x, q, c) = (fd i, path i, cb i)) \<longleftrightarrow> (\<exists>i < min 3 (unat n). (x, q, c) = (fd i, path i, cb i))"
  proof
    assume "\<exists>i < unat n. (x, q, c) = (fd i, path i, cb i)"
    then obtain i where i: "i < unat n" "(x, q, c) = (fd i, path i, cb i)" by blast
    show "\<exists>i < min 3 (unat n). (x, q, c) = (fd i, path i, cb i)"
      using i assms(2) [of i] by (cases "i < 3") (auto intro: exI [of _ i] exI [of _ 2])
  qed auto
  then show ?thesis by (auto simp: routed_run assms(1) split: if_splits)
qed

lemma master_routes:
  "routed (server_run (master_set_processor m) n) fd path cb \<longleftrightarrow>
      1 \<le> n \<and> fd = upload_file_fd m \<and> path = ''/UploadFile'' \<and> cb = Upload_file_callback
    \<or> 2 \<le> n \<and> fd = confirm_oplog_fd m \<and> path = ''/ConfirmOplog'' \<and> cb = Confirm_oplog_callback
    \<or> 3 \<le> n \<and> fd = get_oplog_fd m \<and> path = ''/GetOplog'' \<and> cb = Get_oplog_callback"
proof -
  have three: "(\<exists>i < min 3 k. P i) \<longleftrightarrow> 1 \<le> k \<and> P 0 \<or> 2 \<le> k \<and> P 1 \<or> 3 \<le> k \<and> P 2" for k :: nat and P
    by (auto simp: less_Suc_eq numeral_eq_Suc)
  have n: "1 \<le> n \<longleftrightarrow> 1 \<le> unat n" "2 \<le> n \<longleftrightarrow> 2 \<le> unat n" "3 \<le> n \<longleftrightarrow> 3 \<le> unat n"
    by (simp_all add: word_le_nat_alt)
  let ?path = "\<lambda>i :: nat. if i = 0 then ''/UploadFile'' else if i = 1 then ''/ConfirmOplog'' else ''/GetOplog''"
  let ?cb = "\<lambda>i :: nat. if i = 0 then Upload_file_callback else if i = 1 then Confirm_oplog_callback else Get_oplog_callback"
  let ?fd = "\<lambda>i :: nat. if i = 0 then upload_file_fd m else if i = 1 then confirm_oplog_fd m else get_oplog_fd m"
  have "routed (server_run (master_set_processor m) n) fd path cb
    \<longleftrightarrow> (\<exists>i < min 3 (unat n). (fd, path, cb) = (?fd i, ?path i, ?cb i))"
    by (rule routed_three) (auto simp: master_set_processor_def worker_defs)
  then show ?thesis unfolding three n by simp
qed

text \<open>One socket of an initialisation: it is opened, or the initialisation ends here.\<close>

lemma init_step:
  assumes "obind po (\<lambda>port. obind bo (\<lambda>backlog.
      case server_initialize_kyrin_server_socket S port backlog s0 of
        (ok, fd, s) \<Rightarrow> if \<not> ok then Ret (False, F fd, s) else K fd s)) = Ret (res, m, s')"
  obtains (opened) port backlog fd s1 where "po = Ret port"
      "server_initialize_kyrin_server_socket S port backlog s0 = (True, fd, s1)" "K fd s1 = Ret (res, m, s')"
    | (failed) fd where "\<not> res" "m = F fd"
  using assms by (auto elim!: obind_RetE split: if_splits prod.splits)

text \<open>What a successful initialisation has done.\<close>

lemma master_initialized:
  assumes "socket_laws S socks" and "master_initialize S cl (Some p) m0 s = Ret (True, m, s')"
    and "get_master_config cl 0 = Ret config" and "upload_file_port config = Ret up"
    and "get_oplog_port config = Ret gp" and "confirm_oplog_port config = Ret cp"
  shows "socket_laws.opened socks s [(upload_file_fd m, up), (get_oplog_fd m, gp), (confirm_oplog_fd m, cp)] s'
      \<and> (\<exists>host port. get_keycenter_host cl = Ret host \<and> get_keycenter_get_key_port cl = Ret port
          \<and> ms_filter m = Some (rsa_helper_new (c_str host) port))
      \<and> ms_userdata_db m \<noteq> None \<and> ms_oplog_db m \<noteq> None"
  using assms(2) unfolding master_initialize_def Let_def assms(3) obind.simps
  apply simp
  apply (elim init_step)
  subgoal premises p for port1 b1 fd1 s1 port2 b2 fd2 s2 port3 b3 fd3 s3
    using p(7) assms(4-6) p(1,3,5)
      socket_laws.opened_snoc [OF assms(1) socket_laws.opened_snoc [OF assms(1) socket_laws.opened_snoc [OF assms(1)
      socket_laws.opened_Nil [OF assms(1)] p(2)] p(4)] p(6)]
    by (auto elim!: obind_RetE)
  by simp_all

lemma master_failed:
  assumes "master_initialize S cl (Some p) m0 s = Ret (False, m, s')"
  shows "ms_filter m = ms_filter m0 \<and> ms_oplog_db m = ms_oplog_db m0"
  using assms unfolding master_initialize_def Let_def
  by (simp, elim obind_RetE [of "get_master_config cl 0"] init_step) (auto elim!: obind_RetE)

section \<open>Starting the other servers\<close>

lemma chunk_initialized:
  assumes "socket_laws S socks" and "chunk_initialize S file cl p m0 s = Ret (True, m, s')"
    and "upload_chunk_file_port (read_config_file file) = Ret up" and "download_chunk_file_port (read_config_file file) = Ret dp"
    and "set_file_key_info_port (read_config_file file) = Ret sp" and "get_file_key_info_port (read_config_file file) = Ret gp"
  shows "socket_laws.opened socks s [(upload_chunk_file_fd m, up), (download_chunk_file_fd m, dp),
      (set_file_key_info_fd m, sp), (get_file_key_info_fd m, gp)] s'
    \<and> (\<exists>host port. get_keycenter_host cl = Ret host \<and> get_keycenter_get_key_port cl = Ret port
        \<and> cs_filter m = Some (rsa_helper_new (c_str host) port)) \<and> cs_keyinfo_db m \<noteq> None"
  using assms(2) unfolding chunk_initialize_def Let_def
  apply (simp split: if_splits)
  apply (elim init_step)
  subgoal premises p for port1 b1 fd1 s1 port2 b2 fd2 s2 port3 b3 fd3 s3 port4 b4 fd4 s4
    using p(10) assms(3-6) p(2,4,6,8)
      socket_laws.opened_snoc [OF assms(1) socket_laws.opened_snoc [OF assms(1) socket_laws.opened_snoc [OF assms(1)
      socket_laws.opened_snoc [OF assms(1) socket_laws.opened_Nil [OF assms(1)] p(3)] p(5)] p(7)] p(9)]
    by (auto elim!: obind_RetE)
  by simp_all

text \<open>All four services of a chunk server have a worker.\<close>

lemma chunk_routes:
  "routed (chunk_start m) fd path cb \<longleftrightarrow> (fd, path, cb) \<in>
     {(upload_chunk_file_fd m, ''/UploadChunkFile'', Upload_chunk_callback),
      (download_chunk_file_fd m, ''/DownloadChunkFile'', Download_chunk_callback),
      (set_file_key_info_fd m, ''/SetFileKeyinfo'', Set_key_info_callback),
      (get_file_key_info_fd m, ''/GetFileKeyinfo'', Get_key_info_callback)}"
proof -
  have four: "[0..<unat (4 :: u32)] = [0, 1, 2, 3]" by code_simp
  have "chunk_start m =
     [\<lparr>callbacks = [(''/UploadChunkFile'', Upload_chunk_callback)], accept_fds = [upload_chunk_file_fd m]\<rparr>,
      \<lparr>callbacks = [(''/DownloadChunkFile'', Download_chunk_callback)], accept_fds = [download_chunk_file_fd m]\<rparr>,
      \<lparr>callbacks = [(''/SetFileKeyinfo'', Set_key_info_callback)], accept_fds = [set_file_key_info_fd m]\<rparr>,
      \<lparr>callbacks = [(''/GetFileKeyinfo'', Get_key_info_callback)], accept_fds = [get_file_key_info_fd m]\<rparr>]"
    unfolding chunk_start_def server_run_def four by (simp add: chunk_set_processor_def worker_defs)
  then have "routed (chunk_start m) fd path cb \<longleftrightarrow>
      (fd = upload_chunk_file_fd m \<and> path = ''/UploadChunkFile'' \<and> Upload_chunk_callback = cb)
    \<or> (fd = download_chunk_file_fd m \<and> path = ''/DownloadChunkFile'' \<and> Download_chunk_callback = cb)
    \<or> (fd = set_file_key_info_fd m \<and> path = ''/SetFileKeyinfo'' \<and> Set_key_info_callback = cb)
    \<or> (fd = get_file_key_info_fd m \<and> path = ''/GetFileKeyinfo'' \<and> Get_key_info_callback = cb)"
    unfolding routed_def by (simp split: if_split)
  then show ?thesis by (simp only: insert_iff empty_iff prod.inject simp_thms eq_commute [of cb])
qed

lemma keycenter_initialized:
  assumes "socket_laws S socks" and "keycenter_initialize S cl m0 s = Ret (True, m, s')"
    and "get_keycenter_get_key_port cl = Ret gp" and "get_keycenter_set_key_port cl = Ret sp"
  shows "socket_laws.opened socks s [(get_key_fd m, gp), (set_key_fd m, sp)] s'"
  using assms(2) unfolding keycenter_initialize_def Let_def
  apply (elim init_step)
  subgoal premises p for port1 b1 fd1 s1 port2 b2 fd2 s2
    using p(5) assms(3,4) p(1,3)
      socket_laws.opened_snoc [OF assms(1) socket_laws.opened_snoc [OF assms(1) socket_laws.opened_Nil [OF assms(1)] p(2)] p(4)]
    by (auto elim!: obind_RetE)
  by simp_all

lemma keycenter_routes:
  "routed (keycenter_start m) fd path cb \<longleftrightarrow> (fd, path, cb) \<in>
     {(get_key_fd m, ''/GetKyrinKey'', Get_key_callback), (set_key_fd m, ''/SetKyrinKey'', Set_key_callback)}"
proof -
  have "keycenter_start m = map (keycenter_set_processor m evhttp_new) [0, 1]"
    by (simp add: keycenter_start_def server_run_def upt_rec)
  then show ?thesis by (auto simp: routed_def keycenter_set_processor_def worker_defs)
qed

lemma slavenode_initialized:
  assumes "socket_laws S socks" and "slavenode_initialize S file p m0 s = Ret (True, m, s')"
    and "download_file_port (read_config_file file) = Ret port"
  shows "socket_laws.opened socks s [(download_file_fd m, port)] s'
    \<and> (routed (slavenode_start m) fd path cb \<longleftrightarrow> fd = download_file_fd m \<and> path = ''/DownloadFile'')"
proof -
  have "socket_laws.opened socks s [(download_file_fd m, port)] s'"
    using assms(2) unfolding slavenode_initialize_def Let_def
    apply (simp split: if_splits)
    apply (elim init_step)
    subgoal premises p for port1 b1 fd1 s1
      using p(4) assms(3) p(2) socket_laws.opened_snoc [OF assms(1) socket_laws.opened_Nil [OF assms(1)] p(3)]
      by (auto elim!: obind_RetE)
    by simp
  then show ?thesis
    by (auto simp: slavenode_start_def routed_run slavenode_set_processor_def worker_defs intro: exI [of _ 0])
qed

lemma sentinel_thread_serves:
  assumes "socket_laws S socks" and "sentinel_thread_func S cl s = Ret (Some (fd, workers), s')"
    and "get_master_sentinel_port cl 0 = Ret port"
  shows "socket_laws.opened socks s [(fd, port)] s'
    \<and> (routed workers x path cb \<longleftrightarrow> x = fd \<and> (path, cb) \<in>
        {(''/GetStatus'', Get_sentinel_status_callback), (''/GetVote'', Get_sentinel_vote_callback)})"
proof -
  have "server_initialize_kyrin_server_socket S port (128 * 8) s = (True, fd, s')"
      "workers = server_run (sentinel_set_processor fd) 1"
    using assms(2,3) by (auto simp: sentinel_thread_func_def split: prod.splits if_splits)
  then show ?thesis
    using socket_laws.opened_snoc [OF assms(1) socket_laws.opened_Nil [OF assms(1)]]
    by (auto simp: routed_run sentinel_set_processor_def worker_defs split: if_splits)
qed

lemma gossip_thread_serves:
  assumes "socket_laws S socks" and "gossip_server_thread_func S cl s = Ret (Some (fd, workers), s')"
    and "get_chunk_gossip_port cl 0 = Ret port"
  shows "socket_laws.opened socks s [(fd, port)] s' \<and> (routed workers x path cb \<longleftrightarrow> x = fd \<and> path = ''/GetStatus'')"
proof -
  obtain backlog where "server_initialize_kyrin_server_socket S port backlog s = (True, fd, s')"
      "workers = server_run (gossiper_set_processor fd) 1"
    using assms(2,3)
    by (auto simp: gossip_server_thread_func_def get_chunk_gossip_port_def get_chunk_config_def
        elim!: obind_RetE split: prod.splits if_splits)
  then show ?thesis
    using socket_laws.opened_snoc [OF assms(1) socket_laws.opened_Nil [OF assms(1)]]
    by (auto simp: routed_run gossiper_set_processor_def worker_defs split: if_splits)
qed

text \<open>
  Stopping a master closes what it opened; stopping a chunk server leaves three of its four
  sockets open.
\<close>

lemma master_free_closes:
  assumes "socket_laws S socks"
    and "socket_laws.opened socks s [(upload_file_fd m, up), (get_oplog_fd m, gp), (confirm_oplog_fd m, cp)] s'"
  shows "socks (master_free S m s') = socks s"
  using assms(2) unfolding socket_laws.opened_def [OF assms(1)] master_free_def socket_laws.close_law [OF assms(1)]
  by (auto simp: fun_eq_iff)

lemma chunk_free_leaks:
  assumes "socket_laws S socks"
    and "socket_laws.opened socks s [(upload_chunk_file_fd m, up), (download_chunk_file_fd m, dp),
      (set_file_key_info_fd m, sp), (get_file_key_info_fd m, gp)] s'"
  shows "socks (chunk_free S m s') (download_chunk_file_fd m) \<noteq> None
    \<and> socks (chunk_free S m s') (set_file_key_info_fd m) \<noteq> None
    \<and> socks (chunk_free S m s') (get_file_key_info_fd m) \<noteq> None"
  using assms(2) unfolding socket_laws.opened_def [OF assms(1)] chunk_free_def socket_laws.close_law [OF assms(1)]
  by auto

section \<open>A started master\<close>

text \<open>
  C22: A started master serves what it can. When its initialisation succeeds, three different
  sockets listen on the configured ports for uploads, the log and the confirmations, and the
  filter asks the configured key center; when it fails, the master starts all the same and
  every request is a call on a null pointer. The workers serve each path only on the socket
  made for it: uploads need one worker, confirmations two, the log three.
\<close>

theorem master_main_serves:
  assumes "socket_laws S socks" and "master_main S cl p s = Ret (m, workers, s')"
    and "get_master_config cl 0 = Ret config" and "server_threads config = Ret n"
    and "upload_file_port config = Ret up" and "get_oplog_port config = Ret gp" and "confirm_oplog_port config = Ret cp"
  shows "(if ms_filter m = None
      then process_upload_file_request P ssl sha M Ps C L c rnd draws sentinel req m db w = Undef
        \<and> process_get_oplog_request M L req m db = Undef
        \<and> process_confirm_oplog_request M C L c fuel sentinel req m st db w = Undef
      else distinct [upload_file_fd m, get_oplog_fd m, confirm_oplog_fd m]
        \<and> (\<forall>(fd, port) \<in> {(upload_file_fd m, up), (get_oplog_fd m, gp), (confirm_oplog_fd m, cp)}.
            \<exists>k. socks s' fd = Some k \<and> accepts_on (ucast port) k)
        \<and> (\<exists>host port. get_keycenter_host cl = Ret host \<and> get_keycenter_get_key_port cl = Ret port
            \<and> ms_filter m = Some (rsa_helper_new (c_str host) port)))
    \<and> (routed workers fd path cb \<longleftrightarrow>
        1 \<le> n \<and> fd = upload_file_fd m \<and> path = ''/UploadFile'' \<and> cb = Upload_file_callback
      \<or> 2 \<le> n \<and> fd = confirm_oplog_fd m \<and> path = ''/ConfirmOplog'' \<and> cb = Confirm_oplog_callback
      \<or> 3 \<le> n \<and> fd = get_oplog_fd m \<and> path = ''/GetOplog'' \<and> cb = Get_oplog_callback)"
proof -
  obtain ok where init: "master_initialize S cl (Some p) master_new s = Ret (ok, m, s')"
    and workers: "workers = server_run (master_set_processor m) n"
    using assms(2-4) by (auto simp: master_main_def master_start_def elim!: obind_RetE)
  show ?thesis
  proof (cases ok)
    case True
    with init have "master_initialize S cl (Some p) master_new s = Ret (True, m, s')" by simp
    from master_initialized [OF assms(1) this assms(3,5,6,7)] show ?thesis
      unfolding workers master_routes socket_laws.opened_def [OF assms(1)] by auto
  next
    case False
    with init have "ms_filter m = None" "ms_oplog_db m = None"
      using master_failed by (fastforce simp: master_new_def)+
    then show ?thesis
      unfolding workers master_routes
      by (simp add: process_upload_file_request_def process_get_oplog_request_def process_confirm_oplog_request_def
          filtered_def)
  qed
qed

section \<open>Runs of a chunk server\<close>

text \<open>What a chunk server runs with: the codecs of its messages and the libraries.\<close>

record ('w, 'rsa, 'd, 'f) chunk_env =
  e_key :: "get_kyrin_key_request codec"
  e_net :: "'w curl_ops"
  e_ssl :: "'rsa openssl"
  e_sha :: "string \<Rightarrow> string"
  e_upload :: "upload_chunk_file_request codec"
  e_download :: "download_chunk_file_request codec"
  e_set :: "set_file_key_info codec"
  e_get :: "get_file_key_info codec"
  e_ldb :: "'d leveldb_ops"
  e_files :: "'f file_ops"

definition chunk_process ::
  "('w, 'rsa, 'd, 'f) chunk_env \<Rightarrow> chunk_callback \<Rightarrow> request \<Rightarrow> rsa_helper option \<Rightarrow> ('d, 'f) chunk_store \<Rightarrow> 'w
     \<Rightarrow> (reply \<times> rsa_helper option \<times> ('d, 'f) chunk_store \<times> 'w) outcome" where
  "chunk_process E cb req =
     (case cb of
        Upload_chunk_callback \<Rightarrow>
          process_upload_chunk_file_request (e_key E) (e_net E) (e_ssl E) (e_sha E) (e_upload E) (e_files E) req
      | Download_chunk_callback \<Rightarrow>
          process_download_chunk_file_request (e_key E) (e_net E) (e_ssl E) (e_sha E) (e_download E) (e_files E) req
      | Set_key_info_callback \<Rightarrow>
          process_set_file_key_info_request (e_key E) (e_net E) (e_ssl E) (e_sha E) (e_set E) (e_ldb E) (e_files E) req
      | Get_key_info_callback \<Rightarrow>
          process_get_file_key_info_request (e_key E) (e_net E) (e_ssl E) (e_sha E) (e_get E) (e_ldb E) req)"

text \<open>The handler a callback leads to, by itself.\<close>

definition chunk_handle ::
  "('w, 'rsa, 'd, 'f) chunk_env \<Rightarrow> chunk_callback \<Rightarrow> request \<Rightarrow> ('d, 'f) chunk_store \<Rightarrow> (reply \<times> ('d, 'f) chunk_store) outcome" where
  "chunk_handle E cb req s =
     (case cb of
        Upload_chunk_callback \<Rightarrow>
          obind (upload_chunk_handler (e_upload E) (e_files E) req (chunk_files s)) (\<lambda>(reply, f). Ret (reply, s\<lparr>chunk_files := f\<rparr>))
      | Download_chunk_callback \<Rightarrow>
          obind (download_chunk_handler (e_download E) (e_files E) req (chunk_files s)) (\<lambda>reply. Ret (reply, s))
      | Set_key_info_callback \<Rightarrow>
          obind (set_file_key_info_handler (e_set E) (e_ldb E) (e_files E) req (key_infos s) (chunk_files s))
            (\<lambda>(reply, db, f). Ret (reply, \<lparr>key_infos = db, chunk_files = f\<rparr>))
      | Get_key_info_callback \<Rightarrow>
          obind (get_file_key_info_handler (e_get E) (e_ldb E) req (key_infos s)) (\<lambda>(reply, db). Ret (reply, s\<lparr>key_infos := db\<rparr>)))"

lemma chunk_process_filtered:
  "chunk_process E cb req = filtered (e_key E) (e_net E) (e_ssl E) (e_sha E) req
     (\<lambda>s w. obind (chunk_handle E cb req s) (\<lambda>(reply, s'). Ret (reply, s', w)))"
  by (cases cb)
    (simp_all add: chunk_process_def chunk_handle_def obind_assoc split_def process_upload_chunk_file_request_def
      process_download_chunk_file_request_def process_set_file_key_info_request_def process_get_file_key_info_request_def)

text \<open>
  The server as it runs: one request after the other, from a state with the filter, the store
  and the network. A trace lists callback, request and reply.
\<close>

type_synonym chunk_event = "chunk_callback \<times> request \<times> reply"

inductive chunk_run ::
  "('w, 'rsa, 'd, 'f) chunk_env \<Rightarrow> rsa_helper option \<Rightarrow> ('d, 'f) chunk_store \<Rightarrow> 'w \<Rightarrow> chunk_event list
     \<Rightarrow> rsa_helper option \<Rightarrow> ('d, 'f) chunk_store \<Rightarrow> 'w \<Rightarrow> bool"
  for E h s w where
  start: "chunk_run E h s w [] h s w"
| request: "chunk_run E h s w tr h1 s1 w1 \<Longrightarrow> chunk_process E cb req h1 s1 w1 = Ret (reply, h2, s2, w2)
    \<Longrightarrow> chunk_run E h s w (tr @ [(cb, req, reply)]) h2 s2 w2"

text \<open>
  A request is signed when some answer of the key center holds a key of its issuer that
  decrypts its signature to the digest of what it says.
\<close>

definition signed_request :: "('w, 'rsa, 'd, 'f) chunk_env \<Rightarrow> rsa_helper \<Rightarrow> request \<Rightarrow> bool" where
  "signed_request E h req \<longleftrightarrow> (\<exists>issuer sig payload key rsa w w'. signed_parts req issuer sig payload
     \<and> fetch_public_key (e_key E) (e_net E) h issuer [] w = Ret (True, key, w')
     \<and> pem_pubkey (e_ssl E) (c_str key) = Some rsa
     \<and> rsa_public_decrypt (e_ssl E) rsa sig = Some (kyrin_sha1 (e_sha E) payload))"

text \<open>The specification: a store behind a guard, without any filter state or network.\<close>

inductive guarded_run ::
  "('w, 'rsa, 'd, 'f) chunk_env \<Rightarrow> rsa_helper \<Rightarrow> ('d, 'f) chunk_store \<Rightarrow> chunk_event list \<Rightarrow> ('d, 'f) chunk_store \<Rightarrow> bool"
  for E h s where
  start: "guarded_run E h s [] s"
| refused: "guarded_run E h s tr s1 \<Longrightarrow> \<not> is_ok reply \<Longrightarrow> guarded_run E h s (tr @ [(cb, req, reply)]) s1"
| served: "guarded_run E h s tr s1 \<Longrightarrow> signed_request E h req \<Longrightarrow> chunk_handle E cb req s1 = Ret (reply, s2)
    \<Longrightarrow> guarded_run E h s (tr @ [(cb, req, reply)]) s2"

inductive_cases guarded_runE: "guarded_run E h s tr s'"
inductive_simps guarded_run_Nil: "guarded_run E h s [] s'"

lemma filter_passes:
  assumes "cache_empty h" and "filter_request P C ssl sha req h w = Ret (v, h', w')"
  shows "h' = h \<and> (case v of
      Some reply \<Rightarrow> \<not> is_ok reply
    | None \<Rightarrow> \<exists>issuer sig payload key rsa. signed_parts req issuer sig payload
      \<and> fetch_public_key P C h issuer [] w = Ret (True, key, w')
      \<and> pem_pubkey ssl (c_str key) = Some rsa
      \<and> rsa_public_decrypt ssl rsa sig = Some (kyrin_sha1 sha payload))"
proof (cases "\<exists>issuer sig payload. signed_parts req issuer sig payload")
  case True
  then obtain issuer sig payload where p: "signed_parts req issuer sig payload" by blast
  then obtain legal where e: "examine_legality_from_user P C ssl issuer (kyrin_sha1 sha payload) sig h w = Ret (legal, h', w')"
    and v: "v = (if legal then None else Some (server_send_reply_bad ''Bad signature''))"
    using assms(2) by (auto simp: filter_request_parts elim!: obind_RetE split: if_splits)
  show ?thesis
    using examine_from_user_Ret [OF assms(1) e] p unfolding v by (cases legal) (simp, blast, simp)
next
  case False
  then show ?thesis using filter_request_no_parts [of req P C ssl sha h w] assms(2) by auto
qed

lemma chunk_step_guarded:
  assumes "cache_empty h" and "chunk_process E cb req (Some h) s w = Ret (reply, h', s', w')"
  shows "h' = Some h \<and> ((\<not> is_ok reply \<and> s' = s) \<or> (signed_request E h req \<and> chunk_handle E cb req s = Ret (reply, s')))"
proof -
  obtain v h1 w1 where f: "filter_request (e_key E) (e_net E) (e_ssl E) (e_sha E) req h w = Ret (v, h1, w1)"
    using assms(2) by (auto simp: chunk_process_filtered filtered_def elim!: obind_RetE)
  show ?thesis
    using filter_passes [OF assms(1) f] assms(2) unfolding chunk_process_filtered filtered_def signed_request_def
    by (cases v) (auto simp: f elim!: obind_RetE, blast+)
qed

text \<open>
  C21: A chunk server behind its filter refines a guarded store. In any sequence of requests
  each is either answered with status 400 and changes neither key infos nor pieces, or carries
  a valid signature and is handled as if there were no filter; so a run without a signed
  request leaves the store as it was. The filter itself never changes.
\<close>

theorem chunk_run_guarded:
  assumes "chunk_run E (Some h) s w tr h' s' w'" and "cache_empty h"
  shows "h' = Some h \<and> guarded_run E h s tr s'
    \<and> ((\<forall>(cb, req, reply) \<in> set tr. \<not> signed_request E h req) \<longrightarrow> s' = s \<and> (\<forall>(cb, req, reply) \<in> set tr. \<not> is_ok reply))"
  using assms
proof (induction rule: chunk_run.induct)
  case start
  then show ?case by (simp add: guarded_run.start)
next
  case (request tr h1 s1 w1 cb req reply h2 s2 w2)
  then have "h1 = Some h" by simp
  from chunk_step_guarded [OF request.prems request.hyps(2) [unfolded this]] show ?case
    using request.IH [OF request.prems] by (auto intro: guarded_run.refused guarded_run.served)
qed


section \<open>Concrete runs\<close>

text \<open>A master with ports 80, 81 and 82 and three workers, and its key center.\<close>

definition started_cluster :: cluster where
  "started_cluster = cluster_zero\<lparr>m_kbid := 1, m_master_server_count := 1,
     m_master_configs := [[(''MasterConfirmOplogBacklog'', ''9''), (''MasterConfirmOplogPort'', ''82''),
       (''MasterGetOplogBacklog'', ''9''), (''MasterGetOplogPort'', ''81''), (''MasterOplogDatabasePath'', ''o''),
       (''MasterServerThreads'', ''3''), (''MasterUploadFileBacklog'', ''9''), (''MasterUploadFilePort'', ''80''),
       (''MasterUserdataDatabasePath'', ''u'')]],
     m_keycenter_config := [(''KeyCenterGetKyrinKeyPort'', ''90''), (''MachineAddress'', ''k'')]\<rparr>"

lemma started_runs:
  "master_main kernel started_cluster (1 :: nat) [] = Ret
     (\<lparr>upload_file_fd = 3, get_oplog_fd = 4, confirm_oplog_fd = 5, ms_sentinel = Some 1, ms_userdata_db = Some ''u'',
       ms_oplog_db = Some ''o'', ms_filter = Some (rsa_helper_new ''k'' 90)\<rparr>,
      [\<lparr>callbacks = [(''/UploadFile'', Upload_file_callback)], accept_fds = [3]\<rparr>,
       \<lparr>callbacks = [(''/ConfirmOplog'', Confirm_oplog_callback)], accept_fds = [5]\<rparr>,
       \<lparr>callbacks = [(''/GetOplog'', Get_oplog_callback)], accept_fds = [4]\<rparr>],
      map (\<lambda>p. Some \<lparr>bound = Some p, listening = True, flags = 2050\<rparr>) [80, 81, 82])"
  by code_simp

lemma started_config:
  "get_master_config started_cluster 0 = Ret (hd (m_master_configs started_cluster))"
  "server_threads (hd (m_master_configs started_cluster)) = Ret 3"
  "upload_file_port (hd (m_master_configs started_cluster)) = Ret 80"
  "get_oplog_port (hd (m_master_configs started_cluster)) = Ret 81"
  "confirm_oplog_port (hd (m_master_configs started_cluster)) = Ret 82"
  by code_simp+

text \<open>The log is served on descriptor 4, which listens on port 81.\<close>

lemma master_main_serves_witness:
  "\<exists>m workers s'. master_main kernel started_cluster (1 :: nat) [] = Ret (m, workers, s')
    \<and> routed workers 4 ''/GetOplog'' Get_oplog_callback
    \<and> (\<exists>k. kernel_socks s' 4 = Some k \<and> accepts_on 81 k)"
proof -
  note run = master_main_serves [OF kernel.socket_laws_axioms started_runs started_config,
      where fd = 4 and path = "''/GetOplog''" and cb = Get_oplog_callback]
  from run have "\<exists>k. kernel_socks (map (\<lambda>p. Some \<lparr>bound = Some p, listening = True, flags = 2050\<rparr>) [80, 81, 82]) 4 = Some k
    \<and> accepts_on 81 k" by simp
  moreover from run have "routed [\<lparr>callbacks = [(''/UploadFile'', Upload_file_callback)], accept_fds = [3]\<rparr>,
      \<lparr>callbacks = [(''/ConfirmOplog'', Confirm_oplog_callback)], accept_fds = [5]\<rparr>,
      \<lparr>callbacks = [(''/GetOplog'', Get_oplog_callback)], accept_fds = [4]\<rparr>] 4 ''/GetOplog'' Get_oplog_callback" by simp
  ultimately show ?thesis using started_runs by blast
qed


text \<open>A chunk server that is sent a piece first without and then with a signature.\<close>

definition one_env :: "(unit, string, journal, string \<rightharpoonup> string) chunk_env" where
  "one_env = \<lparr>e_key = ref_codec, e_net = demo_center, e_ssl = demo_ssl, e_sha = demo_sha,
     e_upload = \<lparr>ser = (\<lambda>_. (False, [])), parse = (\<lambda>_. (True, piece ''ab'' 0))\<rparr>,
     e_download = table_codec [Download_chunk_file_request None None None], e_set = table_codec [key_info],
     e_get = table_codec [Get_file_key_info None None], e_ldb = journal_ldb, e_files = mem_files\<rparr>"

definition one_store :: "(string \<rightharpoonup> string) \<Rightarrow> (journal, string \<rightharpoonup> string) chunk_store" where
  "one_store f = \<lparr>key_infos = \<lparr>db_conn = True, db_store = []\<rparr>, chunk_files = f\<rparr>"

abbreviation one_trace :: "chunk_event list" where
  "one_trace \<equiv> [(Upload_chunk_callback, one_post ''0'', Reply_bad ''Can't read KYRIN-SIGNATURE..''),
     (Upload_chunk_callback, demo_request, Reply_ok ''OK'')]"

lemma one_steps:
  "chunk_process one_env Upload_chunk_callback (one_post ''0'') (Some demo_helper) (one_store f) ()
     = Ret (Reply_bad ''Can't read KYRIN-SIGNATURE..'', Some demo_helper, one_store f, ())"
  "f ''./u/f.chunkfile'' = Some old \<Longrightarrow>
    chunk_process one_env Upload_chunk_callback demo_request (Some demo_helper) (one_store f) ()
     = Ret (Reply_ok ''OK'', Some demo_helper, one_store (f(''./u/f.chunkfile'' \<mapsto> write_at 0 ''ab'' old)), ())"
proof -
  show "chunk_process one_env Upload_chunk_callback (one_post ''0'') (Some demo_helper) (one_store f) ()
     = Ret (Reply_bad ''Can't read KYRIN-SIGNATURE..'', Some demo_helper, one_store f, ())"
    by (simp add: chunk_process_filtered filtered_def filter_request_def server_get_header_def one_post_def
        server_send_reply_bad_def c_str_def)
  assume f: "f ''./u/f.chunkfile'' = Some old"
  have "upload_chunk_handler (e_upload one_env) mem_files demo_request f
      = Ret (Reply_ok ''OK'', f(''./u/f.chunkfile'' \<mapsto> write_at 0 ''ab'' old))"
    using f by (simp add: upload_chunk_handler_def server_get_postdata_def k_server_max_post_data_size_def one_env_def
        one_path b64.dec_enc seek_pos_def server_send_reply_ok_def c_str_def)
  then show "chunk_process one_env Upload_chunk_callback demo_request (Some demo_helper) (one_store f) ()
     = Ret (Reply_ok ''OK'', Some demo_helper, one_store (f(''./u/f.chunkfile'' \<mapsto> write_at 0 ''ab'' old)), ())"
    by (simp add: chunk_process_filtered filtered_def chunk_handle_def demo_accepted one_store_def) (simp add: one_env_def demo_accepted)
qed

lemma chunk_run_guarded_witness:
  "guarded_run one_env demo_helper (one_store [''./u/f.chunkfile'' \<mapsto> []]) one_trace
     (one_store [''./u/f.chunkfile'' \<mapsto> ''ab''])"
proof -
  let ?f = "[''./u/f.chunkfile'' \<mapsto> []]"
  have "chunk_run one_env (Some demo_helper) (one_store ?f) () ([] @ [one_trace ! 0]) (Some demo_helper) (one_store ?f) ()"
    using chunk_run.request [OF chunk_run.start one_steps(1)] by simp
  from chunk_run.request [OF this one_steps(2)]
  have "chunk_run one_env (Some demo_helper) (one_store ?f) () one_trace (Some demo_helper) (one_store [''./u/f.chunkfile'' \<mapsto> ''ab'']) ()"
    by (simp add: write_at_def)
  from chunk_run_guarded [OF this] show ?thesis by (simp add: demo_helper_def)
qed

end
