(* ===== verification/Leadership.thy ===== *)
theory Leadership
  imports Sentinel
begin

text \<open>
  What becomes of an elected cluster: leaders and followers whose leader answers never move
  again, and a run of three masters in which a broken and repaired link leaves two leaders.
\<close>

section \<open>Nothing moves\<close>

text \<open>A master that leads, or follows a master of the cluster, whatever that one believes.\<close>

definition at_rest :: "cluster \<Rightarrow> sync_pc \<Rightarrow> sentinel \<Rightarrow> bool" where
  "at_rest cl pc s \<longleftrightarrow> (case pc of
     Inner _ _ \<Rightarrow> False
   | Outer leader \<Rightarrow> m_status s = K_status_leader
       \<or> m_status s = K_status_follower \<and> (\<exists>l \<in> set (masters cl). leader = Some l))"

lemma poll_answered:
  assumes "connected cl node" and "l \<in> set (masters cl)"
  obtains ip port where "get_master_ip cl (of_nat l) = Ret ip" "get_master_sentinel_port cl (of_nat l) = Ret port"
    "follow_loop (sentinel_net node) ip port 0 [] w = Ret (0, w)"
proof -
  obtain ip port where cfg: "get_master_ip cl (of_nat l) = Ret ip" "get_master_sentinel_port cl (of_nat l) = Ret port"
    "length (http_url ip port ''/GetStatus'') < 1024" "node (http_url ip port ''/GetStatus'') = Some (of_nat l)"
    by (rule connected_lookup [OF assms])
  have "make_request_get (sentinel_net node) ip port ''/GetStatus'' [] w
      = Ret (True, body_of (get_sentinel_status_handler (w (of_nat l))), w)"
    by (simp add: sentinel_net_def net_of_get cfg)
  then show ?thesis using that cfg(1,2) by (simp add: follow_loop.simps)
qed

lemma rest_turn:
  assumes "connected cl node" and "at_rest cl pc (w i)"
  shows "sync_step (sentinel_net node) (cl\<lparr>m_kbid := i\<rparr>) (self_of i) pc w = Ret (pc, w)"
proof (cases "m_status (w i) = K_status_leader")
  case True
  then show ?thesis using assms(2) by (cases pc) (simp_all add: at_rest_def sync_step_def get_status_def)
next
  case False
  then obtain l where l: "pc = Outer (Some l)" "l \<in> set (masters cl)" "m_status (w i) = K_status_follower"
    using assms(2) by (auto simp: at_rest_def split: sync_pc.splits)
  obtain ip port where p: "get_master_ip cl (of_nat l) = Ret ip" "get_master_sentinel_port cl (of_nat l) = Ret port"
    "follow_loop (sentinel_net node) ip port 0 [] w = Ret (0, w)"
    by (rule poll_answered [OF assms(1) l(2)])
  then show ?thesis
    using l master_id(2) [OF assms(1) l(2)]
    by (simp add: sync_step_def get_status_def get_master_ip_def own_def get_master_sentinel_port_def)
qed

text \<open>
  C11: Leadership is never given up. In a connected cluster where every master is a leader or
  follows some master, no sequence of turns changes anything: no epoch, vote, status or
  leader. So one elected leader stays, and so do several: a follower only looks whether
  its leader answers, and a leader does not look at all.
\<close>

theorem leadership_is_stable:
  assumes "connected cl node" and "\<forall>i \<in> set (masters cl). at_rest cl (pcs i) (w (of_nat i))"
    and "set is \<subseteq> set (masters cl)"
  shows "run_turns (sentinel_net node) cl is pcs w = Ret (pcs, w)"
  using assms(3)
proof (induction "is")
  case Nil
  then show ?case by simp
next
  case (Cons i js)
  then have "at_rest cl (pcs i) (w (of_nat i))" using assms(2) by simp
  then have "sync_step (sentinel_net node) (cl\<lparr>m_kbid := of_nat i\<rparr>) (self_of (of_nat i)) (pcs i) w = Ret (pcs i, w)"
    by (rule rest_turn [OF assms(1)])
  then show ?case using Cons by simp
qed

section \<open>Two leaders\<close>

text \<open>The network of the three masters while nobody reaches the third.\<close>

definition cut_node :: "string \<Rightarrow> u32 option" where
  "cut_node url = (if url ! 7 = CHR ''c'' then None else trio_node url)"

definition trio_world :: "sentinel \<Rightarrow> sentinel \<Rightarrow> sentinel \<Rightarrow> u32 \<Rightarrow> sentinel" where
  "trio_world a b c = (\<lambda>i. if i = 1 then a else if i = 2 then b else if i = 3 then c else start_sentinel i 0)"

abbreviation sent :: "master_status \<Rightarrow> u32 \<Rightarrow> u64 \<Rightarrow> u64 \<Rightarrow> sentinel" where
  "sent status leader vote epoch \<equiv> \<lparr>m_status = status, m_leader = leader, m_vote = vote, m_epoch = epoch\<rparr>"

lemma trio_world_simps [simp]:
  "trio_world a b c 1 = a" "trio_world a b c 2 = b" "trio_world a b c 3 = c"
  "(trio_world a b c)(1 := x) = trio_world x b c" "(trio_world a b c)(2 := x) = trio_world a x c"
  "(trio_world a b c)(3 := x) = trio_world a b x"
  by (auto simp: trio_world_def)

lemma trio_lookups:
  "get_master_ip (trio\<lparr>m_kbid := k\<rparr>) 1 = Ret ''a''" "get_master_ip (trio\<lparr>m_kbid := k\<rparr>) 2 = Ret ''b''"
  "get_master_ip (trio\<lparr>m_kbid := k\<rparr>) 3 = Ret ''c''"
  "get_master_sentinel_port (trio\<lparr>m_kbid := k\<rparr>) 1 = Ret 80" "get_master_sentinel_port (trio\<lparr>m_kbid := k\<rparr>) 2 = Ret 80"
  "get_master_sentinel_port (trio\<lparr>m_kbid := k\<rparr>) 3 = Ret 80"
  "masters (trio\<lparr>m_kbid := k\<rparr>) = [1, 2, 3]" "unat (m_master_server_count (trio\<lparr>m_kbid := k\<rparr>)) = 3"
  by (simp_all add: trio_masters) code_simp+

lemma trio_urls:
  "http_url ''a'' 80 ''/GetVote'' = ''http://a:80/GetVote''" "http_url ''b'' 80 ''/GetVote'' = ''http://b:80/GetVote''"
  "http_url ''c'' 80 ''/GetVote'' = ''http://c:80/GetVote''" "http_url ''c'' 80 ''/GetStatus'' = ''http://c:80/GetStatus''"
  by code_simp+

lemma ticket_post:
  assumes "node (http_url ip port uri) = Some j" and "length (http_url ip port uri) < 1024" and "e \<le> m_epoch (w j)"
  shows "make_request_post (sentinel_net node) ip port uri [] (ticket e v) w
    = Ret (True, ticket (m_epoch (w j)) (m_vote (w j)), w)"
  using post_vote [of node ip port uri j "sent K_status_leader 0 v e" w] assms by (simp add: vote_ticket)

lemma trio_posts:
  "e \<le> m_epoch (w 1) \<Longrightarrow> make_request_post (sentinel_net trio_node) ''a'' 80 ''/GetVote'' [] (ticket e v) w
    = Ret (True, ticket (m_epoch (w 1)) (m_vote (w 1)), w)"
  "e \<le> m_epoch (w 2) \<Longrightarrow> make_request_post (sentinel_net trio_node) ''b'' 80 ''/GetVote'' [] (ticket e v) w
    = Ret (True, ticket (m_epoch (w 2)) (m_vote (w 2)), w)"
  "e \<le> m_epoch (w 3) \<Longrightarrow> make_request_post (sentinel_net trio_node) ''c'' 80 ''/GetVote'' [] (ticket e v) w
    = Ret (True, ticket (m_epoch (w 3)) (m_vote (w 3)), w)"
  by (rule ticket_post; simp add: trio_urls trio_node_def)+

lemma cut_posts:
  "e \<le> m_epoch (w 1) \<Longrightarrow> make_request_post (sentinel_net cut_node) ''a'' 80 ''/GetVote'' [] (ticket e v) w
    = Ret (True, ticket (m_epoch (w 1)) (m_vote (w 1)), w)"
  "e \<le> m_epoch (w 2) \<Longrightarrow> make_request_post (sentinel_net cut_node) ''b'' 80 ''/GetVote'' [] (ticket e v) w
    = Ret (True, ticket (m_epoch (w 2)) (m_vote (w 2)), w)"
  "make_request_post (sentinel_net cut_node) ''c'' 80 ''/GetVote'' [] data w = Ret (False, [], w)"
  "make_request_get (sentinel_net cut_node) ''c'' 80 ''/GetStatus'' [] w = Ret (False, [], w)"
  by (rule ticket_post; simp add: trio_urls cut_node_def trio_node_def)+
    (simp_all add: sentinel_net_def net_of_post net_of_get trio_urls cut_node_def)

lemma cut_poll: "follow_loop (sentinel_net cut_node) ''c'' 80 0 [] w = Ret (3, w)"
  by (simp add: follow_loop.simps cut_posts)

lemma quad:
  "replicate 3 x = [x, x, x]" "replicate 4 x = [x, x, x, x]" "[a, b, c, d][1 := x] = [a, x, c, d]" "[a, b, c, d][Suc 0 := x] = [a, x, c, d]"
  "[a, b, c, d][2 := x] = [a, b, x, d]" "[a, b, c, d][3 := x] = [a, b, c, x]"
  "[a, b, c, d] ! 1 = b" "[a, b, c, d] ! Suc 0 = b" "[a, b, c, d] ! 2 = c" "[a, b, c, d] ! 3 = d"
  by (simp_all add: eval_nat_numeral)

lemmas turn_simps = sync_step_def inner_turn_def sentinel_ops trio_lookups trio_masters(1,3) trio_posts cut_posts cut_poll
  check_response_def vote_ticket scan_ticket ticket_text Let_def quad

text \<open>
  Three new masters that reach each other elect the third, in seven turns. The votes of those
  that had no turn yet are the uninitialised member, 0 here.
\<close>

definition trio_pcs :: "sync_pc \<Rightarrow> sync_pc \<Rightarrow> sync_pc \<Rightarrow> nat \<Rightarrow> sync_pc" where
  "trio_pcs a b c = (\<lambda>i. if i = 1 then a else if i = 2 then b else if i = 3 then c else Outer None)"

lemma trio_pcs_simps [simp]:
  "trio_pcs a b c 1 = a" "trio_pcs a b c (Suc 0) = a" "trio_pcs a b c 2 = b" "trio_pcs a b c 3 = c"
  "(trio_pcs a b c)(1 := x) = trio_pcs x b c" "(trio_pcs a b c)(Suc 0 := x) = trio_pcs x b c"
  "(trio_pcs a b c)(2 := x) = trio_pcs a x c" "(trio_pcs a b c)(3 := x) = trio_pcs a b x"
  by (auto simp: trio_pcs_def)

abbreviation new_masters :: "u32 \<Rightarrow> sentinel" where
  "new_masters \<equiv> trio_world (start_sentinel 1 0) (start_sentinel 2 0) (start_sentinel 3 0)"

abbreviation third_leads :: "u32 \<Rightarrow> sentinel" where
  "third_leads \<equiv> trio_world (sent K_status_follower 3 3 0) (sent K_status_follower 3 2 0) (sent K_status_leader 3 3 0)"

abbreviation two_lead :: "u32 \<Rightarrow> sentinel" where
  "two_lead \<equiv> trio_world (sent K_status_follower 2 2 1) (sent K_status_leader 2 2 1) (sent K_status_leader 3 3 0)"

lemma cut_run:
  "run_turns (sentinel_net cut_node) trio [1, 2, 1, 2, 1] (trio_pcs (Outer (Some 3)) (Outer (Some 3)) (Outer (Some 3))) third_leads
    = Ret (trio_pcs (Outer (Some 2)) (Outer (Some 2)) (Outer (Some 3)), two_lead)"
  by (simp add: turn_simps)

lemma first_run:
  "run_turns (sentinel_net trio_node) trio [1, 2, 3, 1, 2, 3, 1] (\<lambda>_. Outer None) new_masters
    = Ret (trio_pcs (Outer (Some 3)) (Outer (Some 3)) (Outer (Some 3)), third_leads)"
proof -
  have pcs: "(\<lambda>_. Outer None) = trio_pcs (Outer None) (Outer None) (Outer None)" by (auto simp: trio_pcs_def)
  show ?thesis unfolding pcs by (simp add: turn_simps start_sentinel_def)
qed

text \<open>
  Three new masters elect the third; while nobody reaches it the other two elect the second;
  and when all are connected again both of them lead for good.
\<close>

lemma leadership_is_stable_witness:
  "run_turns (sentinel_net trio_node) trio [1, 2, 3, 1, 2, 3, 1] (\<lambda>_. Outer None) new_masters
      = Ret (trio_pcs (Outer (Some 3)) (Outer (Some 3)) (Outer (Some 3)), third_leads)
    \<and> run_turns (sentinel_net cut_node) trio [1, 2, 1, 2, 1] (trio_pcs (Outer (Some 3)) (Outer (Some 3)) (Outer (Some 3))) third_leads
      = Ret (trio_pcs (Outer (Some 2)) (Outer (Some 2)) (Outer (Some 3)), two_lead)
    \<and> m_status (two_lead 2) = K_status_leader \<and> m_status (two_lead 3) = K_status_leader
    \<and> run_turns (sentinel_net trio_node) trio [1, 2, 3, 3, 2, 1] (trio_pcs (Outer (Some 2)) (Outer (Some 2)) (Outer (Some 3))) two_lead
      = Ret (trio_pcs (Outer (Some 2)) (Outer (Some 2)) (Outer (Some 3)), two_lead)"
proof -
  have "\<forall>i \<in> set (masters trio). at_rest trio (trio_pcs (Outer (Some 2)) (Outer (Some 2)) (Outer (Some 3)) i) (two_lead (of_nat i))"
    unfolding trio_masters by (simp add: at_rest_def trio_masters)
  from leadership_is_stable [OF trio_connected this, of "[1, 2, 3, 3, 2, 1]"] show ?thesis
    using first_run cut_run by (simp add: trio_masters del: run_turns.simps)
qed

end
