(* ===== verification/Locks.thy ===== *)
theory Locks
  imports Prelude "HOL-Library.Multiset"
begin

text \<open>
  The mutex of \<open>common/kyrin_lock.h\<close> and threads that use several of them. \<open>pthread\<close> mutexes are
  modelled by their documented meaning: \<open>lock\<close> waits for the holder, \<open>trylock\<close> does not, \<open>unlock\<close> is
  for the holder only. A thread is a sequence of actions, one of which is taken at a time,
  interleaved with those of the others in any order; what a critical section does to the
  shared members is broken into the statements of the code. The last sections state the
  discipline the code follows, that an operation takes all its locks first, touches only
  members whose lock it holds and releases the locks at the end, and show that the threads
  keep it and never race. \<open>Interleavings\<close> draws the conclusions.
\<close>

section \<open>The mutex\<close>

text \<open>Threads are numbered. The member \<open>m_mutex\<close> is who holds it.\<close>

type_synonym tid = nat

record kyrin_mutex =
  m_mutex :: "tid option"

definition mutex_new :: kyrin_mutex where
  "mutex_new = \<lparr>m_mutex = None\<rparr>"

text \<open>None: the caller waits. A mutex initialised with null attributes makes its own holder wait too.\<close>

definition mutex_lock :: "tid \<Rightarrow> kyrin_mutex \<Rightarrow> (s32 \<times> kyrin_mutex) option" where
  "mutex_lock t m = (if m_mutex m = None then Some (0, m\<lparr>m_mutex := Some t\<rparr>) else None)"

text \<open>Releasing a mutex somebody else holds, or nobody, has no defined behaviour.\<close>

definition mutex_unlock :: "tid \<Rightarrow> kyrin_mutex \<Rightarrow> (s32 \<times> kyrin_mutex) outcome" where
  "mutex_unlock t m = (if m_mutex m = Some t then Ret (0, m\<lparr>m_mutex := None\<rparr>) else Undef)"

text \<open>\<open>EBUSY\<close> is 16.\<close>

definition mutex_trylock :: "tid \<Rightarrow> kyrin_mutex \<Rightarrow> s32 \<times> kyrin_mutex" where
  "mutex_trylock t m = (case mutex_lock t m of Some (r, m') \<Rightarrow> (r, m') | None \<Rightarrow> (16, m))"

lemma mutex_lock_Some: "mutex_lock t m = Some (r, m') \<longleftrightarrow> m_mutex m = None \<and> r = 0 \<and> m' = \<lparr>m_mutex = Some t\<rparr>"
  by (cases m) (auto simp: mutex_lock_def)

lemma mutex_unlock_Ret: "mutex_unlock t m = Ret (r, m') \<longleftrightarrow> m_mutex m = Some t \<and> r = 0 \<and> m' = \<lparr>m_mutex = None\<rparr>"
  by (cases m) (auto simp: mutex_unlock_def)

section \<open>Threads\<close>

text \<open>
  An action locks or unlocks the mutex \<open>k\<close>, or runs a statement that accesses the members guarded by
  the mutexes in \<open>F\<close>; the local variables of the thread go along.
\<close>

datatype ('k, 's, 'l) action = Lock 'k | Unlock 'k | Do "'k set" "'s \<Rightarrow> 'l \<Rightarrow> 's \<times> 'l"

type_synonym ('k, 's, 'l) program = "('k, 's, 'l) action list"

record ('k, 's, 'l) pool =
  shared :: 's
  mutexes :: "'k \<Rightarrow> kyrin_mutex"
  code :: "tid \<Rightarrow> ('k, 's, 'l) program"
  locals :: "tid \<Rightarrow> 'l"

definition pool_new :: "'s \<Rightarrow> (tid \<Rightarrow> 'l) \<Rightarrow> ('k, 's, 'l) pool" where
  "pool_new s l = \<lparr>shared = s, mutexes = (\<lambda>_. mutex_new), code = (\<lambda>_. []), locals = l\<rparr>"

text \<open>
  One action of thread \<open>t\<close>. When its operation is done, its control (\<open>start\<close>) says which
  operation follows; steps without any access to the members, such as receiving a request or
  a reply, are given by \<open>react\<close>.
\<close>

inductive work :: "tid \<Rightarrow> ('k, 's, 'l) pool \<Rightarrow> ('k, 's, 'l) pool \<Rightarrow> bool" for t p where
  lock: "work t p (p\<lparr>mutexes := (mutexes p)(k := m), code := (code p)(t := as)\<rparr>)"
    if "code p t = Lock k # as" and "mutex_lock t (mutexes p k) = Some (r, m)"
| unlock: "work t p (p\<lparr>mutexes := (mutexes p)(k := m), code := (code p)(t := as)\<rparr>)"
    if "code p t = Unlock k # as" and "mutex_unlock t (mutexes p k) = Ret (r, m)"
| act: "work t p (p\<lparr>shared := s, code := (code p)(t := as), locals := (locals p)(t := l)\<rparr>)"
    if "code p t = Do F f # as" and "f (shared p) (locals p t) = (s, l)"

inductive step ::
  "(tid \<Rightarrow> 'l \<Rightarrow> ('k, 's, 'l) program option) \<Rightarrow> (tid \<Rightarrow> 'l \<Rightarrow> 'l \<Rightarrow> bool)
     \<Rightarrow> ('k, 's, 'l) pool \<Rightarrow> ('k, 's, 'l) pool \<Rightarrow> bool" for start react p where
  work: "step start react p p'" if "work t p p'"
| start: "step start react p (p\<lparr>code := (code p)(t := as)\<rparr>)"
    if "code p t = []" and "start t (locals p t) = Some as"
| react: "step start react p (p\<lparr>locals := (locals p)(t := l)\<rparr>)"
    if "code p t = []" and "react t (locals p t) l"

text \<open>The same threads when every operation is a single step.\<close>

fun exec :: "('k, 's, 'l) program \<Rightarrow> 's \<Rightarrow> 'l \<Rightarrow> 's \<times> 'l" where
  "exec [] s l = (s, l)"
| "exec (Do F f # as) s l = (case f s l of (s', l') \<Rightarrow> exec as s' l')"
| "exec (Lock k # as) s l = exec as s l"
| "exec (Unlock k # as) s l = exec as s l"

inductive atomic ::
  "(tid \<Rightarrow> 'l \<Rightarrow> ('k, 's, 'l) program option) \<Rightarrow> (tid \<Rightarrow> 'l \<Rightarrow> 'l \<Rightarrow> bool)
     \<Rightarrow> 's \<times> (tid \<Rightarrow> 'l) \<Rightarrow> 's \<times> (tid \<Rightarrow> 'l) \<Rightarrow> bool" for start react where
  run: "atomic start react (s, l) (s', l(t := x))" if "start t (l t) = Some as" and "exec as s (l t) = (s', x)"
| react: "atomic start react (s, l) (s, l(t := x))" if "react t (l t) x"

inductive_cases workE: "work t p p'"
inductive_cases stepE: "step start react p p'"

text \<open>Two threads are about to access one member.\<close>

definition racing :: "('k, 's, 'l) pool \<Rightarrow> tid \<Rightarrow> tid \<Rightarrow> bool" where
  "racing p t u \<longleftrightarrow> t \<noteq> u \<and> (\<exists>F f as G g bs. code p t = Do F f # as \<and> code p u = Do G g # bs \<and> F \<inter> G \<noteq> {})"

section \<open>Well-guarded operations\<close>

text \<open>
  \<open>agree k s s'\<close>: the members guarded by \<open>k\<close> are equal. A statement confined to \<open>F\<close> neither changes
  members outside nor depends on them.
\<close>

definition confined :: "('k \<Rightarrow> 's \<Rightarrow> 's \<Rightarrow> bool) \<Rightarrow> 'k set \<Rightarrow> ('s \<Rightarrow> 'l \<Rightarrow> 's \<times> 'l) \<Rightarrow> bool" where
  "confined agree F f \<longleftrightarrow>
     (\<forall>s l k. k \<notin> F \<longrightarrow> agree k (fst (f s l)) s)
     \<and> (\<forall>s s' l. (\<forall>k \<in> F. agree k s s') \<longrightarrow>
          snd (f s l) = snd (f s' l) \<and> (\<forall>k \<in> F. agree k (fst (f s l)) (fst (f s' l))))"

definition guarded_by :: "('k \<Rightarrow> 's \<Rightarrow> 's \<Rightarrow> bool) \<Rightarrow> 'k set \<Rightarrow> ('k, 's, 'l) program \<Rightarrow> bool" where
  "guarded_by agree H body \<longleftrightarrow> (\<forall>a \<in> set body. \<exists>F f. a = Do F f \<and> F \<subseteq> H \<and> confined agree F f)"

lemma guarded_by_simps [simp]:
  "guarded_by agree H []"
  "guarded_by agree H (Do F f # as) \<longleftrightarrow> F \<subseteq> H \<and> confined agree F f \<and> guarded_by agree H as"
  "\<not> guarded_by agree H (Lock k # as)" "\<not> guarded_by agree H (Unlock k # as)"
  by (auto simp: guarded_by_def)

text \<open>
  What is left of an operation of a thread that holds the mutexes in \<open>H\<close>: locks still to be taken,
  then statements, then the release of everything.
\<close>

definition phase :: "('k \<Rightarrow> 's \<Rightarrow> 's \<Rightarrow> bool) \<Rightarrow> 'k set \<Rightarrow> ('k, 's, 'l) program \<Rightarrow> bool" where
  "phase agree H as \<longleftrightarrow> (\<exists>ks body js. as = map Lock ks @ body @ map Unlock js \<and> distinct ks \<and> distinct js
     \<and> H \<inter> set ks = {} \<and> H \<union> set ks = set js \<and> guarded_by agree (set js) body)"

abbreviation two_phase :: "('k \<Rightarrow> 's \<Rightarrow> 's \<Rightarrow> bool) \<Rightarrow> ('k, 's, 'l) program \<Rightarrow> bool" where
  "two_phase agree \<equiv> phase agree {}"

definition holds_locks :: "('k, 's, 'l) pool \<Rightarrow> tid \<Rightarrow> 'k set" where
  "holds_locks p t = {k. m_mutex (mutexes p k) = Some t}"

definition pool_ok :: "('k \<Rightarrow> 's \<Rightarrow> 's \<Rightarrow> bool) \<Rightarrow> ('k, 's, 'l) pool \<Rightarrow> bool" where
  "pool_ok agree p \<longleftrightarrow> (\<forall>t. phase agree (holds_locks p t) (code p t))"

lemma guarded_by_head: "guarded_by agree H (a # as) \<Longrightarrow> \<exists>F f. a = Do F f"
  by (auto simp: guarded_by_def)

lemma phase_Nil [simp]: "phase agree H [] \<longleftrightarrow> H = {}"
  by (auto simp: phase_def)

lemma phase_Lock:
  assumes "phase agree H (Lock k # as)"
  shows "k \<notin> H" and "phase agree (insert k H) as"
proof -
  obtain ks body js where p: "Lock k # as = map Lock ks @ body @ map Unlock js" "distinct ks" "distinct js"
    "H \<inter> set ks = {}" "H \<union> set ks = set js" "guarded_by agree (set js) body"
    using assms unfolding phase_def by blast
  then obtain ks' where ks: "ks = k # ks'" "as = map Lock ks' @ body @ map Unlock js"
    using guarded_by_head [of agree "set js"] by (cases ks; cases body; cases js) auto
  show "k \<notin> H" using p(4) ks by auto
  show "phase agree (insert k H) as"
    unfolding phase_def using p ks by (intro exI [of _ ks'] exI [of _ body] exI [of _ js]) auto
qed

lemma phase_Unlock:
  assumes "phase agree H (Unlock k # as)"
  obtains js where "as = map Unlock js" "distinct (k # js)" "H = set (k # js)" "phase agree (H - {k}) as"
proof -
  obtain ks body js where p: "Unlock k # as = map Lock ks @ body @ map Unlock js" "distinct ks" "distinct js"
    "H \<inter> set ks = {}" "H \<union> set ks = set js" "guarded_by agree (set js) body"
    using assms unfolding phase_def by blast
  then obtain js' where js: "js = k # js'" "as = map Unlock js'" "ks = []"
    using guarded_by_head [of agree "set js"] by (cases ks; cases body; cases js) auto
  have "phase agree (H - {k}) as"
    unfolding phase_def using p js by (intro exI [of _ "[]"] exI [of _ js']) auto
  then show ?thesis using that [of js'] p js by auto
qed

lemma phase_release: "phase agree H (Unlock k # as) \<Longrightarrow> phase agree (H - {k}) as"
  by (rule phase_Unlock)

lemma phase_Do:
  assumes "phase agree H (Do F f # as)"
  shows "F \<subseteq> H" and "confined agree F f" and "phase agree H as"
proof -
  obtain ks body js where p: "Do F f # as = map Lock ks @ body @ map Unlock js" "distinct ks" "distinct js"
    "H \<inter> set ks = {}" "H \<union> set ks = set js" "guarded_by agree (set js) body"
    using assms unfolding phase_def by blast
  then obtain body' where b: "ks = []" "body = Do F f # body'" "as = body' @ map Unlock js"
    by (cases ks; cases body; cases js) auto
  then show "F \<subseteq> H" "confined agree F f" using p by auto
  show "phase agree H as"
    unfolding phase_def using p b by (intro exI [of _ "[]"] exI [of _ body'] exI [of _ js]) auto
qed

lemma holds_locks_lock:
  assumes "mutex_lock t (mutexes p k) = Some (r, m)"
  shows "holds_locks (p\<lparr>mutexes := (mutexes p)(k := m)\<rparr>) u
    = (if u = t then insert k (holds_locks p t) else holds_locks p u)"
  using assms by (auto simp: holds_locks_def mutex_lock_Some)

lemma holds_locks_unlock:
  assumes "mutex_unlock t (mutexes p k) = Ret (r, m)"
  shows "holds_locks (p\<lparr>mutexes := (mutexes p)(k := m)\<rparr>) u
    = (if u = t then holds_locks p t - {k} else holds_locks p u)"
  using assms by (auto simp: holds_locks_def mutex_unlock_Ret)

lemma holds_locks_other [simp]:
  "holds_locks (p\<lparr>code := c\<rparr>) u = holds_locks p u" "holds_locks (p\<lparr>locals := l\<rparr>) u = holds_locks p u"
  "holds_locks (p\<lparr>shared := s\<rparr>) u = holds_locks p u"
  by (simp_all add: holds_locks_def)

lemma holds_locks_disjoint: "t \<noteq> u \<Longrightarrow> holds_locks p t \<inter> holds_locks p u = {}"
  by (auto simp: holds_locks_def)

lemma pool_ok_new: "pool_ok agree (pool_new s l)"
  by (simp add: pool_ok_def pool_new_def holds_locks_def mutex_new_def)

lemma pool_ok_work:
  assumes "work t p p'" and "pool_ok agree p"
  shows "pool_ok agree p'"
proof -
  have ph: "phase agree (holds_locks p u) (code p u)" for u using assms(2) by (simp add: pool_ok_def)
  show ?thesis
    using assms(1)
  proof cases
    case (lock k as r m)
    then show ?thesis
      using ph ph [of t] phase_Lock(2) [of agree "holds_locks p t" k as] by (simp add: pool_ok_def holds_locks_lock)
  next
    case (unlock k as r m)
    then show ?thesis
      using ph ph [of t] phase_release [of agree "holds_locks p t" k as] by (simp add: pool_ok_def holds_locks_unlock)
  next
    case (act F f as s l)
    then show ?thesis
      using ph ph [of t] phase_Do(3) [of agree "holds_locks p t" F f as] by (simp add: pool_ok_def)
  qed
qed

lemma pool_ok_step:
  assumes "step start react p p'" and "pool_ok agree p"
    and "\<And>t l as. start t l = Some as \<Longrightarrow> two_phase agree as"
  shows "pool_ok agree p'"
  using assms(1)
proof cases
  case (work t)
  then show ?thesis by (rule pool_ok_work [OF _ assms(2)])
next
  case (start t as)
  have "holds_locks p t = {}" using assms(2) start(2) unfolding pool_ok_def by (metis phase_Nil)
  then show ?thesis using assms(2,3) start by (simp add: pool_ok_def)
next
  case (react t l)
  then show ?thesis using assms(2) by (simp add: pool_ok_def)
qed

text \<open>Statements run under the locks of the members they access, so no two threads race.\<close>

lemma pool_ok_no_race:
  assumes "pool_ok agree p"
  shows "\<not> racing p t u"
proof
  assume "racing p t u"
  then obtain F f as G g bs where r: "t \<noteq> u" "code p t = Do F f # as" "code p u = Do G g # bs" "F \<inter> G \<noteq> {}"
    unfolding racing_def by blast
  have "F \<subseteq> holds_locks p t" "G \<subseteq> holds_locks p u"
    using assms r(2,3) phase_Do(1) unfolding pool_ok_def by metis+
  then show False using holds_locks_disjoint [OF r(1), of p] r(4) by blast
qed

section \<open>Checking a program\<close>

fun is_do :: "('k, 's, 'l) action \<Rightarrow> bool" where
  "is_do (Do F f) = True"
| "is_do _ = False"

definition unlocks_of :: "('k, 's, 'l) program \<Rightarrow> 'k list" where
  "unlocks_of as = concat (map (\<lambda>a. case a of Unlock k \<Rightarrow> [k] | _ \<Rightarrow> []) as)"

definition locks_of :: "('k, 's, 'l) program \<Rightarrow> 'k list" where
  "locks_of as = concat (map (\<lambda>a. case a of Lock k \<Rightarrow> [k] | _ \<Rightarrow> []) as)"

lemma locks_of_simps [simp]:
  "locks_of [] = []" "locks_of (Lock k # as) = k # locks_of as"
  "locks_of (Unlock k # as) = locks_of as" "locks_of (Do F f # as) = locks_of as"
  by (simp_all add: locks_of_def)

lemma unlocks_of_simps [simp]:
  "unlocks_of [] = []" "unlocks_of (Lock k # as) = unlocks_of as"
  "unlocks_of (Unlock k # as) = k # unlocks_of as" "unlocks_of (Do F f # as) = unlocks_of as"
  by (simp_all add: unlocks_of_def)

lemma two_phase_by_parts:
  assumes "as = map Lock (locks_of as) @ filter is_do as @ map Unlock (unlocks_of as)"
    and "distinct (locks_of as)" and "distinct (unlocks_of as)" and "set (locks_of as) = set (unlocks_of as)"
    and "guarded_by agree (set (unlocks_of as)) (filter is_do as)"
  shows "two_phase agree as"
  unfolding phase_def
  using assms by (intro exI [of _ "locks_of as"] exI [of _ "filter is_do as"] exI [of _ "unlocks_of as"]) simp

end
