(* ===== verification/Interleavings.thy ===== *)
theory Interleavings
  imports Locks
begin

text \<open>
  What the discipline of \<open>Locks\<close> gives, as locales over the control of the threads: an interleaving
  has the same effect as running each operation in one step (\<open>guarded_threads\<close>); when the
  locks are taken in a fixed order nobody waits for ever (\<open>ordered_threads\<close>); and an object
  with one mutex has both without further conditions (\<open>monitor\<close>).
\<close>

section \<open>Interleavings\<close>

definition growing :: "('k, 's, 'l) program \<Rightarrow> bool" where
  "growing as \<longleftrightarrow> (\<exists>k bs. as = Lock k # bs)"

text \<open>
  The effect of an operation counts from the moment its last lock is taken; a thread past that moment
  owes the rest of its statements.
\<close>

definition settle :: "('k, 's, 'l) program \<Rightarrow> 's \<Rightarrow> 'l \<Rightarrow> 's \<times> 'l" where
  "settle as s l = (if growing as then (s, l) else exec as s l)"

definition due :: "('k, 's, 'l) pool \<Rightarrow> 'k \<Rightarrow> 's" where
  "due p k = (case m_mutex (mutexes p k) of
     None \<Rightarrow> shared p
   | Some t \<Rightarrow> fst (settle (code p t) (shared p) (locals p t)))"

definition simulates ::
  "(tid \<Rightarrow> 'l \<Rightarrow> ('k, 's, 'l) program option) \<Rightarrow> ('k \<Rightarrow> 's \<Rightarrow> 's \<Rightarrow> bool)
     \<Rightarrow> 's \<times> (tid \<Rightarrow> 'l) \<Rightarrow> ('k, 's, 'l) pool \<Rightarrow> bool" where
  "simulates start agree a p \<longleftrightarrow>
     (\<forall>k. agree k (fst a) (due p k))
     \<and> (\<forall>t. snd a t = snd (settle (code p t) (shared p) (locals p t)))
     \<and> (\<forall>t. growing (code p t) \<longrightarrow> (\<exists>as. start t (locals p t) = Some as \<and> exec as = exec (code p t)))"

lemma growing_simps [simp]:
  "\<not> growing []" "growing (Lock k # as)" "\<not> growing (Unlock k # as)" "\<not> growing (Do F f # as)"
  by (auto simp: growing_def)

lemma settle_simps [simp]:
  "settle [] s l = (s, l)" "settle (Lock k # as) s l = (s, l)"
  "settle (Do F f # as) s l = exec (Do F f # as) s l" "\<not> growing as \<Longrightarrow> settle as s l = exec as s l"
  by (simp_all add: settle_def)

lemma exec_unlocks [simp]: "exec (map Unlock js) s l = (s, l)"
  by (induction js) simp_all

lemma growing_unlocks [simp]: "\<not> growing (map Unlock js)"
  by (cases js) simp_all

lemma phase_settled:
  assumes "phase agree H as" and "\<not> growing as"
  obtains body js where "as = body @ map Unlock js" "guarded_by agree H body"
proof -
  obtain ks body js where p: "as = map Lock ks @ body @ map Unlock js" "H \<union> set ks = set js" "guarded_by agree (set js) body"
    using assms(1) unfolding phase_def by blast
  then show ?thesis using assms(2) that by (cases ks) auto
qed

locale guarded_threads =
  fixes start :: "tid \<Rightarrow> 'l \<Rightarrow> ('k, 's, 'l) program option"
    and react :: "tid \<Rightarrow> 'l \<Rightarrow> 'l \<Rightarrow> bool"
    and agree :: "'k \<Rightarrow> 's \<Rightarrow> 's \<Rightarrow> bool"
  assumes agree_refl: "agree k s s"
    and agree_sym: "agree k s s' \<Longrightarrow> agree k s' s"
    and agree_trans: "agree k s s' \<Longrightarrow> agree k s' s'' \<Longrightarrow> agree k s s''"
    and agree_all: "(\<And>k. agree k s s') \<Longrightarrow> s = s'"
    and start_two_phase: "start t l = Some as \<Longrightarrow> two_phase agree as"
begin

lemma exec_frame: "guarded_by agree H body \<Longrightarrow> k \<notin> H \<Longrightarrow> agree k (fst (exec (body @ map Unlock js) s l)) s"
proof (induction body arbitrary: s l)
  case (Cons a body)
  then obtain F f where a: "a = Do F f" "F \<subseteq> H" "confined agree F f" "guarded_by agree H body"
    using guarded_by_head [of agree H a body] by auto
  obtain s' l' where f: "f s l = (s', l')" by fastforce
  then have "agree k s' s" using a(2,3) Cons.prems(2) unfolding confined_def by (metis fst_conv in_mono)
  then show ?case using agree_trans [OF Cons.IH [OF a(4) Cons.prems(2)]] a(1) f by simp
qed (simp add: agree_refl)

lemma exec_cong:
  "guarded_by agree H body \<Longrightarrow> \<forall>k \<in> H. agree k s s' \<Longrightarrow>
    snd (exec (body @ map Unlock js) s l) = snd (exec (body @ map Unlock js) s' l)
    \<and> (\<forall>k \<in> H. agree k (fst (exec (body @ map Unlock js) s l)) (fst (exec (body @ map Unlock js) s' l)))"
proof (induction body arbitrary: s s' l)
  case (Cons a body)
  then obtain F f where a: "a = Do F f" "F \<subseteq> H" "confined agree F f" "guarded_by agree H body"
    using guarded_by_head [of agree H a body] by auto
  obtain t m where f: "f s l = (t, m)" by fastforce
  obtain t' m' where f': "f s' l = (t', m')" by fastforce
  have "\<forall>k \<in> F. agree k s s'" using a(2) Cons.prems(2) by blast
  then have in_F: "m = m'" "\<forall>k \<in> F. agree k t t'" using a(3) f f' unfolding confined_def by (metis fst_conv snd_conv)+
  have "agree k t t'" if "k \<in> H" "k \<notin> F" for k
  proof -
    have "agree k t s" "agree k t' s'" using a(3) that(2) f f' unfolding confined_def by (metis fst_conv)+
    then show ?thesis using Cons.prems(2) that(1) agree_trans agree_sym by metis
  qed
  then have "\<forall>k \<in> H. agree k t t'" using in_F(2) by blast
  from Cons.IH [OF a(4) this, of m] show ?case using a(1) f f' in_F(1) by simp
qed simp

lemma settle_frame: "phase agree H as \<Longrightarrow> k \<notin> H \<Longrightarrow> agree k (fst (settle as s l)) s"
  by (cases "growing as") (auto simp: settle_def agree_refl elim!: phase_settled intro: exec_frame)

lemma settle_cong:
  assumes "phase agree H as" and "\<forall>k \<in> H. agree k s s'"
  shows "snd (settle as s l) = snd (settle as s' l)" and "\<forall>k \<in> H. agree k (fst (settle as s l)) (fst (settle as s' l))"
proof -
  have "snd (settle as s l) = snd (settle as s' l) \<and> (\<forall>k \<in> H. agree k (fst (settle as s l)) (fst (settle as s' l)))"
  proof (cases "growing as")
    case False
    then obtain body js where "as = body @ map Unlock js" "guarded_by agree H body" by (rule phase_settled [OF assms(1)])
    then show ?thesis using exec_cong [OF _ assms(2)] False by (simp add: settle_def)
  qed (use assms(2) in \<open>simp add: settle_def\<close>)
  then show "snd (settle as s l) = snd (settle as s' l)" "\<forall>k \<in> H. agree k (fst (settle as s l)) (fst (settle as s' l))"
    by blast+
qed

text \<open>A thread that has just taken its last lock, or started an operation without any.\<close>

lemma linearise:
  assumes "simulates start agree a p" and "code p t = [] \<or> growing (code p t)"
    and "start t (locals p t) = Some full" and "exec full = exec as" and "\<not> growing as"
    and "phase agree (holds_locks p' t) as"
    and "code p' = (code p)(t := as)" and "shared p' = shared p" and "locals p' = locals p"
    and "\<And>k. m_mutex (mutexes p' k) = m_mutex (mutexes p k) \<or> m_mutex (mutexes p k) = None \<and> m_mutex (mutexes p' k) = Some t"
  shows "\<exists>a'. atomic start react a a' \<and> simulates start agree a' p'"
proof -
  let ?run = "exec as (fst a) (locals p t)" and ?H = "holds_locks p' t"
  have idle: "settle (code p t) (shared p) (locals p t) = (shared p, locals p t)"
    using assms(2) by (auto simp: settle_def)
  then have la: "snd a t = locals p t" using assms(1) by (simp add: simulates_def)
  have agr: "agree k (fst a) (due p k)" for k
    using assms(1) by (simp add: simulates_def)
  have "agree k (fst a) (shared p)" if "k \<in> ?H" for k
    using that assms(10) [of k] agr [of k] idle by (auto simp: due_def holds_locks_def split: option.splits)
  then have H: "\<forall>k \<in> ?H. agree k (fst a) (shared p)" by blast
  have cong: "snd ?run = snd (exec as (shared p) (locals p t))"
    "\<forall>k \<in> ?H. agree k (fst ?run) (fst (exec as (shared p) (locals p t)))"
    using settle_cong [OF assms(6) H] assms(5) by simp_all
  have frame: "agree k (fst ?run) (fst a)" if "k \<notin> ?H" for k
    using settle_frame [OF assms(6) that] assms(5) by simp
  have "atomic start react (fst a, snd a) (fst ?run, (snd a)(t := snd ?run))"
    by (rule atomic.run [where as = full]) (simp_all add: la assms(3,4))
  moreover have "agree k (fst ?run) (due p' k)" for k
  proof (cases "k \<in> ?H")
    case True
    then show ?thesis using cong(2) assms(5,7-9) by (simp add: due_def holds_locks_def)
  next
    case False
    then have "m_mutex (mutexes p' k) = m_mutex (mutexes p k)" "m_mutex (mutexes p k) \<noteq> Some t"
      using assms(10) [of k] by (auto simp: holds_locks_def)
    then show ?thesis
      using agree_trans [OF frame [OF False] agr [of k]] assms(7-9) by (auto simp: due_def split: option.splits)
  qed
  ultimately show ?thesis
    using assms(1,5,7-9) cong(1)
    by (intro exI [of _ "(fst ?run, (snd a)(t := snd ?run))"]) (auto simp: simulates_def settle_def)
qed

lemma simulate_lock:
  assumes "simulates start agree a p" and "pool_ok agree p"
    and "code p t = Lock k # as" and "mutex_lock t (mutexes p k) = Some (r, m)"
    and "p' = p\<lparr>mutexes := (mutexes p)(k := m), code := (code p)(t := as)\<rparr>"
  shows "\<exists>a'. (a' = a \<or> atomic start react a a') \<and> simulates start agree a' p'"
proof -
  have H: "phase agree (holds_locks p' t) as"
    using assms(2,3,4) phase_Lock(2) [of agree "holds_locks p t" k as] unfolding assms(5) pool_ok_def
    by (metis holds_locks_lock holds_locks_other(1))
  have m: "m_mutex (mutexes p k) = None" "m_mutex m = Some t" using assms(4) by (simp_all add: mutex_lock_Some)
  obtain full where full: "start t (locals p t) = Some full" "exec full = exec (Lock k # as)"
    using assms(1,3) unfolding simulates_def by (metis growing_simps(2))
  have same: "exec full = exec as" using full(2) by (simp add: fun_eq_iff)
  show ?thesis
  proof (cases "growing as")
    case False
    have "\<exists>a'. atomic start react a a' \<and> simulates start agree a' p'"
      by (rule linearise [OF assms(1) _ full(1) same False H]) (use m assms(3) in \<open>auto simp: assms(5)\<close>)
    then show ?thesis by blast
  next
    case True
    have "due p' = due p" using m True by (auto simp: fun_eq_iff due_def assms(3,5) settle_def split: option.splits)
    then have "simulates start agree a p'"
      using assms(1) True full(1) same unfolding simulates_def by (auto simp: assms(3,5) settle_def)
    then show ?thesis by blast
  qed
qed

lemma simulate_unlock:
  assumes "simulates start agree a p" and "pool_ok agree p"
    and "code p t = Unlock k # as" and "mutex_unlock t (mutexes p k) = Ret (r, m)"
    and "p' = p\<lparr>mutexes := (mutexes p)(k := m), code := (code p)(t := as)\<rparr>"
  shows "simulates start agree a p'"
proof -
  have "phase agree (holds_locks p t) (Unlock k # as)" using assms(2,3) unfolding pool_ok_def by metis
  then obtain js where js: "as = map Unlock js" by (rule phase_Unlock)
  have m: "m_mutex (mutexes p k) = Some t" "m_mutex m = None" using assms(4) by (simp_all add: mutex_unlock_Ret)
  have old: "settle (code p t) (shared p) (locals p t) = (shared p, locals p t)"
    using assms(3) js by (simp add: settle_def)
  have new: "settle as (shared p) (locals p t) = (shared p, locals p t)" "\<not> growing as"
    using js by (simp_all add: settle_def)
  have "due p' = due p" using m old new by (auto simp: fun_eq_iff due_def assms(5) split: option.splits)
  then show ?thesis
    using assms(1,3) old new unfolding simulates_def by (auto simp: assms(5))
qed

lemma simulate_act:
  assumes "simulates start agree a p" and "pool_ok agree p"
    and "code p t = Do F f # as" and "f (shared p) (locals p t) = (s, l)"
    and "p' = p\<lparr>shared := s, code := (code p)(t := as), locals := (locals p)(t := l)\<rparr>"
  shows "simulates start agree a p'"
proof -
  have ph: "phase agree (holds_locks p u) (code p u)" for u using assms(2) by (simp add: pool_ok_def)
  note D = phase_Do [OF ph [of t, unfolded assms(3)]]
  have ng: "\<not> growing as" using ph [of t] assms(3) by (cases as) (auto simp: phase_def growing_def append_eq_Cons_conv Cons_eq_append_conv Cons_eq_map_conv map_eq_Cons_conv dest: guarded_by_head)
  have own: "settle (code p t) (shared p) (locals p t) = settle as s l"
    using assms(3,4) ng by (simp add: settle_def)
  have frame: "agree k s (shared p)" if "k \<notin> holds_locks p t" for k
    using D(1,2) that assms(4) unfolding confined_def by (metis fst_conv in_mono)
  have other: "snd (settle (code p u) s (locals p u)) = snd (settle (code p u) (shared p) (locals p u))"
    "\<forall>k \<in> holds_locks p u. agree k (fst (settle (code p u) (shared p) (locals p u))) (fst (settle (code p u) s (locals p u)))"
    if "u \<noteq> t" for u
  proof -
    have "\<forall>k \<in> holds_locks p u. agree k (shared p) s"
      using frame holds_locks_disjoint [OF that, of p] agree_sym by blast
    from settle_cong [OF ph [of u] this] show
      "snd (settle (code p u) s (locals p u)) = snd (settle (code p u) (shared p) (locals p u))"
      "\<forall>k \<in> holds_locks p u. agree k (fst (settle (code p u) (shared p) (locals p u))) (fst (settle (code p u) s (locals p u)))"
      by simp_all
  qed
  have agr: "agree k (fst a) (due p k)" for k
    using assms(1) by (simp add: simulates_def)
  have "agree k (fst a) (due p' k)" for k
  proof (cases "m_mutex (mutexes p k)")
    case None
    then show ?thesis
      using agree_trans [OF agr [of k]] frame [of k] agree_sym by (simp add: due_def assms(5) holds_locks_def)
  next
    case (Some u)
    then show ?thesis
      using agr [of k] own agree_trans [OF agr [of k]] other(2) [of u] by (cases "u = t") (auto simp: due_def assms(5) holds_locks_def)
  qed
  then show ?thesis
    using assms(1) own other(1) ng unfolding simulates_def assms(5) by auto
qed

lemma simulate_step:
  assumes "simulates start agree a p" and "pool_ok agree p" and "step start react p p'"
  shows "\<exists>a'. (a' = a \<or> atomic start react a a') \<and> simulates start agree a' p'"
  using assms(3)
proof cases
  case (work t)
  then show ?thesis
  proof cases
    case (lock k as r m)
    then show ?thesis using simulate_lock [OF assms(1,2)] by blast
  next
    case (unlock k as r m)
    then show ?thesis using simulate_unlock [OF assms(1,2) unlock(2,3,1)] by blast
  next
    case (act F f as s l)
    then show ?thesis using simulate_act [OF assms(1,2) act(2,3,1)] by blast
  qed
next
  case (start t as)
  show ?thesis
  proof (cases "growing as")
    case True
    then have "due p' = due p" using start by (auto simp: fun_eq_iff due_def settle_def split: option.splits)
    then have "simulates start agree a p'"
      using assms(1) start True unfolding simulates_def by (auto simp: settle_def)
    then show ?thesis by blast
  next
    case False
    have "holds_locks p t = {}" using assms(2) start(2) unfolding pool_ok_def by (metis phase_Nil)
    then show ?thesis
      using linearise [OF assms(1) _ start(3) refl False, of p'] start start_two_phase by auto
  qed
next
  case (react t l)
  have "snd a t = locals p t" using assms(1) react(2) by (simp add: simulates_def)
  then have "atomic start react a (fst a, (snd a)(t := l))"
    using atomic.react [of react t "snd a" l start "fst a"] react(3) by simp
  moreover have "due p' = due p" using react by (auto simp: fun_eq_iff due_def split: option.splits)
  then have "simulates start agree (fst a, (snd a)(t := l)) p'"
    using assms(1) react(1,2) unfolding simulates_def by auto
  ultimately show ?thesis by blast
qed

text \<open>
  Whatever the interleaving does, atomic operations do too; and between operations the members
  and the local variables are just those of the atomic run.
\<close>

lemma interleaving_simulated:
  assumes "(step start react)\<^sup>*\<^sup>* (pool_new s l) p"
  shows "pool_ok agree p \<and> (\<exists>a. (atomic start react)\<^sup>*\<^sup>* (s, l) a \<and> simulates start agree a p)"
  using assms
proof (induction rule: rtranclp_induct)
  case base
  have "simulates start agree (s, l) (pool_new s l)"
    by (simp add: simulates_def due_def pool_new_def mutex_new_def agree_refl)
  then show ?case using pool_ok_new [of agree s l] by (intro conjI exI [of _ "(s, l)"]) simp_all
next
  case (step p p')
  then obtain a where a: "(atomic start react)\<^sup>*\<^sup>* (s, l) a" "simulates start agree a p" and ok: "pool_ok agree p" by blast
  from simulate_step [OF a(2) ok step.hyps(2)] obtain a' where "a' = a \<or> atomic start react a a'" "simulates start agree a' p'"
    by blast
  then show ?case
    using a(1) pool_ok_step [OF step.hyps(2) ok start_two_phase] by (meson rtranclp.rtrancl_into_rtrancl)
qed

lemma serialised:
  assumes "(step start react)\<^sup>*\<^sup>* (pool_new s l) p" and "\<And>t. code p t = []"
  shows "(atomic start react)\<^sup>*\<^sup>* (s, l) (shared p, locals p)"
proof -
  obtain a where a: "(atomic start react)\<^sup>*\<^sup>* (s, l) a" "simulates start agree a p" and ok: "pool_ok agree p"
    using interleaving_simulated [OF assms(1)] by blast
  have "m_mutex (mutexes p k) = None" for k
  proof (rule ccontr)
    assume "m_mutex (mutexes p k) \<noteq> None"
    then obtain t where "k \<in> holds_locks p t" by (auto simp: holds_locks_def)
    moreover have "holds_locks p t = {}" using ok assms(2) [of t] unfolding pool_ok_def by (metis phase_Nil)
    ultimately show False by blast
  qed
  then have "agree k (fst a) (shared p)" for k
    using a(2) unfolding simulates_def due_def by (metis option.simps(4))
  then have "fst a = shared p" by (rule agree_all)
  moreover have "snd a = locals p" using a(2) assms(2) by (auto simp: simulates_def fun_eq_iff)
  ultimately show ?thesis using a(1) by (metis prod.collapse)
qed

text \<open>Conversely, a thread that runs while no other does completes its operation.\<close>

lemma runs_alone:
  assumes "phase agree H as" and "\<forall>k. m_mutex (mutexes p k) = (if k \<in> H then Some t else None)" and "code p t = as"
  shows "(step start react)\<^sup>*\<^sup>* p (p\<lparr>shared := fst (exec as (shared p) (locals p t)), mutexes := (\<lambda>_. mutex_new),
    code := (code p)(t := []), locals := (locals p)(t := snd (exec as (shared p) (locals p t)))\<rparr>)"
  using assms
proof (induction "as" arbitrary: H p)
  case Nil
  then have "mutexes p = (\<lambda>_. mutex_new)" by (auto simp: mutex_new_def fun_eq_iff intro: kyrin_mutex.equality)
  then show ?case using Nil.prems(3) by (cases p) (simp add: fun_upd_idem)
next
  case (Cons b bs)
  show ?case
  proof (cases b)
    case (Lock k)
    let ?p = "p\<lparr>mutexes := (mutexes p)(k := \<lparr>m_mutex = Some t\<rparr>), code := (code p)(t := bs)\<rparr>"
    note ph = phase_Lock [OF Cons.prems(1) [unfolded Lock]]
    have "work t p ?p"
      by (rule work.lock [where r = 0]) (use Cons.prems(2,3) Lock ph(1) in \<open>auto simp: mutex_lock_Some\<close>)
    then have "step start react p ?p" by (rule step.work)
    moreover have "\<forall>j. m_mutex (mutexes ?p j) = (if j \<in> insert k H then Some t else None)" using Cons.prems(2) by simp
    ultimately show ?thesis
      using Cons.IH [OF ph(2), of ?p] Lock by (simp add: converse_rtranclp_into_rtranclp cong: if_cong)
  next
    case (Unlock k)
    let ?p = "p\<lparr>mutexes := (mutexes p)(k := \<lparr>m_mutex = None\<rparr>), code := (code p)(t := bs)\<rparr>"
    have k: "k \<in> H" using phase_Unlock [OF Cons.prems(1) [unfolded Unlock]] by auto
    then have "work t p ?p"
      by (intro work.unlock [where r = 0]) (use Cons.prems(2,3) Unlock in \<open>auto simp: mutex_unlock_Ret\<close>)
    then have "step start react p ?p" by (rule step.work)
    moreover have "\<forall>j. m_mutex (mutexes ?p j) = (if j \<in> H - {k} then Some t else None)" using Cons.prems(2) by simp
    ultimately show ?thesis
      using Cons.IH [OF phase_release [OF Cons.prems(1) [unfolded Unlock]], of ?p] Unlock
      by (simp add: converse_rtranclp_into_rtranclp cong: if_cong)
  next
    case (Do F f)
    obtain s l where f: "f (shared p) (locals p t) = (s, l)" by fastforce
    let ?p = "p\<lparr>shared := s, code := (code p)(t := bs), locals := (locals p)(t := l)\<rparr>"
    have "work t p ?p" by (rule work.act [where F = F and f = f]) (use Cons.prems(3) Do f in auto)
    then have "step start react p ?p" by (rule step.work)
    then show ?thesis
      using Cons.IH [OF phase_Do(3) [OF Cons.prems(1) [unfolded Do]], of ?p] Cons.prems(2) Do f
      by (simp add: converse_rtranclp_into_rtranclp cong: if_cong)
  qed
qed

lemma atomic_realised:
  assumes "(atomic start react)\<^sup>*\<^sup>* (s, l) (s', l')"
  shows "(step start react)\<^sup>*\<^sup>* (pool_new s l) (pool_new s' l')"
  using assms
proof (induction rule: rtranclp_induct2)
  case refl
  show ?case by simp
next
  case (step s l s' l')
  from step.hyps(2) have "(step start react)\<^sup>*\<^sup>* (pool_new s l) (pool_new s' l')"
  proof cases
    case (run t as x)
    let ?p = "(pool_new s l)\<lparr>code := (code (pool_new s l))(t := as)\<rparr>"
    have "step start react (pool_new s l) ?p" using run(2) by (intro step.start) (simp_all add: pool_new_def)
    moreover have "(step start react)\<^sup>*\<^sup>* ?p (pool_new s' l')"
      using runs_alone [OF start_two_phase [OF run(2)], of ?p t] run by (simp add: pool_new_def mutex_new_def fun_upd_idem)
    ultimately show ?thesis by (rule converse_rtranclp_into_rtranclp)
  next
    case (react t x)
    then have "step start react (pool_new s l) (pool_new s' l')"
      using step.react [of "pool_new s l" t react x start] by (simp add: pool_new_def)
    then show ?thesis by blast
  qed
  then show ?case using step.IH by (rule rtranclp_trans [rotated])
qed

lemma interleavings_iff:
  "(step start react)\<^sup>*\<^sup>* (pool_new s l) p \<and> (\<forall>t. code p t = [])
    \<longleftrightarrow> (\<exists>s' l'. p = pool_new s' l' \<and> (atomic start react)\<^sup>*\<^sup>* (s, l) (s', l'))"
proof safe
  assume run: "(step start react)\<^sup>*\<^sup>* (pool_new s l) p" and idle: "\<forall>t. code p t = []"
  have "\<forall>t. holds_locks p t = {}"
    using interleaving_simulated [OF run] idle unfolding pool_ok_def by (metis phase_Nil)
  then have "m_mutex (mutexes p k) = None" for k unfolding holds_locks_def by (cases "m_mutex (mutexes p k)") auto
  then have "mutexes p = (\<lambda>_. mutex_new)" by (auto simp: mutex_new_def fun_eq_iff intro: kyrin_mutex.equality)
  then have "p = pool_new (shared p) (locals p)" using idle by (auto simp: pool_new_def intro!: pool.equality)
  then show "\<exists>s' l'. p = pool_new s' l' \<and> (atomic start react)\<^sup>*\<^sup>* (s, l) (s', l')"
    using serialised [OF run] idle by blast
qed (simp_all add: atomic_realised, simp add: pool_new_def)

lemma race_free: "(step start react)\<^sup>*\<^sup>* (pool_new s l) p \<Longrightarrow> \<not> racing p t u"
  using interleaving_simulated pool_ok_no_race by blast

end

section \<open>Taking locks in a fixed order\<close>

definition in_order :: "('k \<Rightarrow> nat) \<Rightarrow> 'k set \<Rightarrow> ('k, 's, 'l) program \<Rightarrow> bool" where
  "in_order rank H as \<longleftrightarrow> sorted_wrt (<) (map rank (locks_of as)) \<and> (\<forall>h \<in> H. \<forall>k \<in> set (locks_of as). rank h < rank k)"

definition pool_ordered :: "('k \<Rightarrow> nat) \<Rightarrow> ('k, 's, 'l) pool \<Rightarrow> bool" where
  "pool_ordered rank p \<longleftrightarrow> (\<forall>t. in_order rank (holds_locks p t) (code p t))"

lemma in_order_simps [simp]:
  "in_order rank H []" "in_order rank H (Do F f # as) = in_order rank H as"
  "in_order rank H (Unlock k # as) = in_order rank H as"
  "in_order rank H (Lock k # as) \<longleftrightarrow> (\<forall>h \<in> H. rank h < rank k) \<and> in_order rank (insert k H) as"
  by (auto simp: in_order_def)

lemma in_order_mono: "in_order rank H as \<Longrightarrow> H' \<subseteq> H \<Longrightarrow> in_order rank H' as"
  by (auto simp: in_order_def)

lemma pool_ordered_work:
  assumes "work t p p'" and "pool_ordered rank p"
  shows "pool_ordered rank p'"
  using assms(1)
proof cases
  case (lock k as r m)
  have "in_order rank (holds_locks p t) (Lock k # as)" using assms(2) lock(2) unfolding pool_ordered_def by metis
  then show ?thesis using assms(2) lock by (simp add: pool_ordered_def holds_locks_lock)
next
  case (unlock k as r m)
  have "in_order rank (holds_locks p t) (Unlock k # as)" using assms(2) unlock(2) unfolding pool_ordered_def by metis
  then have "in_order rank (holds_locks p t - {k}) as" by (auto elim: in_order_mono)
  then show ?thesis using assms(2) unlock by (simp add: pool_ordered_def holds_locks_unlock)
next
  case (act F f as s l)
  have "in_order rank (holds_locks p t) (Do F f # as)" using assms(2) act(2) unfolding pool_ordered_def by metis
  then show ?thesis using assms(2) act by (simp add: pool_ordered_def)
qed

text \<open>The actions the threads in \<open>T\<close> still have to take.\<close>

definition pending :: "tid set \<Rightarrow> ('k, 's, 'l) pool \<Rightarrow> nat" where
  "pending T p = (\<Sum>t \<in> T. length (code p t))"

lemma work_pending:
  assumes "work t p p'" and "finite T" and "t \<in> T"
  shows "pending T p = Suc (pending T p')" and "\<And>u. u \<noteq> t \<Longrightarrow> code p' u = code p u"
proof -
  obtain a where a: "code p t = a # code p' t" "\<forall>u. u \<noteq> t \<longrightarrow> code p' u = code p u"
    using assms(1) by (auto elim!: workE)
  then show "\<And>u. u \<noteq> t \<Longrightarrow> code p' u = code p u" by blast
  have "(\<Sum>u \<in> T - {t}. length (code p u)) = (\<Sum>u \<in> T - {t}. length (code p' u))"
    using a(2) by (intro sum.cong) auto
  then show "pending T p = Suc (pending T p')"
    using a(1) unfolding pending_def sum.remove [OF assms(2,3)] by simp
qed

locale ordered_threads = guarded_threads start react agree
  for start :: "tid \<Rightarrow> 'l \<Rightarrow> ('k, 's, 'l) program option"
    and react :: "tid \<Rightarrow> 'l \<Rightarrow> 'l \<Rightarrow> bool"
    and agree :: "'k \<Rightarrow> 's \<Rightarrow> 's \<Rightarrow> bool" +
  fixes rank :: "'k \<Rightarrow> nat" and bound :: nat
  assumes rank_bound: "rank k < bound"
    and start_in_order: "start t l = Some as \<Longrightarrow> in_order rank {} as"
begin

lemma reachable_ordered:
  assumes "(step start react)\<^sup>*\<^sup>* (pool_new s l) p"
  shows "pool_ordered rank p"
  using assms
proof (induction rule: rtranclp_induct)
  case base
  show ?case by (simp add: pool_ordered_def pool_new_def)
next
  case (step p p')
  have ok: "pool_ok agree p" using interleaving_simulated [OF step.hyps(1)] by blast
  from step.hyps(2) show ?case
  proof cases
    case (work t)
    then show ?thesis using pool_ordered_work step.IH by blast
  next
    case (start t as)
    have "holds_locks p t = {}" using ok start(2) unfolding pool_ok_def by (metis phase_Nil)
    then show ?thesis using step.IH start start_in_order by (simp add: pool_ordered_def)
  next
    case (react t l)
    then show ?thesis using step.IH by (simp add: pool_ordered_def)
  qed
qed

text \<open>A thread that cannot move waits for a mutex another thread holds.\<close>

lemma moves_or_waits:
  assumes "pool_ok agree p" and "code p t \<noteq> []"
  obtains p' where "work t p p'" | k as u where "code p t = Lock k # as" "k \<in> holds_locks p u" "u \<noteq> t"
proof -
  obtain a as where c: "code p t = a # as" using assms(2) by (cases "code p t") auto
  have ph: "phase agree (holds_locks p t) (a # as)" using assms(1) c unfolding pool_ok_def by metis
  show ?thesis
  proof (cases a)
    case (Lock k)
    then have "k \<notin> holds_locks p t" using ph phase_Lock(1) by metis
    then show ?thesis
      using that work.lock [of p t k as] c Lock by (cases "m_mutex (mutexes p k)") (auto simp: mutex_lock_Some holds_locks_def)
  next
    case (Unlock k)
    then have "k \<in> holds_locks p t" using ph by (auto elim: phase_Unlock)
    then show ?thesis using that(1) work.unlock [of p t k as] c Unlock by (auto simp: mutex_unlock_Ret holds_locks_def)
  next
    case (Do F f)
    then show ?thesis using that(1) work.act [of p t F f as] c by (metis prod.exhaust)
  qed
qed

lemma waiting_chain_ends:
  assumes "pool_ok agree p" and "pool_ordered rank p" and "code p t = Lock k # as"
  shows "\<exists>u p'. code p u \<noteq> [] \<and> work u p p'"
  using assms(3)
proof (induction "bound - rank k" arbitrary: t k as rule: less_induct)
  case less
  have "code p t \<noteq> []" using less.prems by simp
  with assms(1) show ?case
  proof (cases rule: moves_or_waits)
    case (2 k' as' u)
    note held = 2
    then have k: "k' = k" using less.prems by simp
    have "code p u \<noteq> []" using assms(1) held(2) unfolding pool_ok_def by (metis empty_iff phase_Nil)
    with assms(1) show ?thesis
    proof (cases rule: moves_or_waits)
      case (2 k2 as2 v)
      have "in_order rank (holds_locks p u) (Lock k2 # as2)" using assms(2) 2(1) unfolding pool_ordered_def by metis
      then have "rank k < rank k2" using held(2) k by simp
      then have "bound - rank k2 < bound - rank k" using rank_bound [of k] by simp
      then show ?thesis using less.hyps 2(1) by blast
    qed (use \<open>code p u \<noteq> []\<close> in blast)
  qed (use less.prems in force)
qed

lemma somebody_works:
  assumes "pool_ok agree p" and "pool_ordered rank p" and "code p t \<noteq> []"
  shows "\<exists>u p'. code p u \<noteq> [] \<and> work u p p'"
  using assms(1,3)
proof (cases rule: moves_or_waits)
  case (2 k as u)
  then show ?thesis using waiting_chain_ends [OF assms(1,2)] by blast
qed (use assms(3) in blast)

text \<open>
  Every operation under way can be finished: without starting another one, as many actions as
  are pending, in whatever order the mutexes allow, leave all threads between operations.
\<close>

lemma drains:
  assumes "pool_ok agree p" and "pool_ordered rank p" and "finite T" and "\<forall>t. t \<notin> T \<longrightarrow> code p t = []"
  shows "\<exists>p'. ((\<lambda>p p'. \<exists>t. work t p p') ^^ pending T p) p p' \<and> (\<forall>t. code p' t = [])"
  using assms(1,2,4)
proof (induction "pending T p" arbitrary: p)
  case 0
  then have "\<forall>t \<in> T. code p t = []" using assms(3) by (simp add: pending_def)
  then have "\<forall>t. code p t = []" using 0(4) by blast
  then show ?case using 0(1) by (intro exI [of _ p]) simp
next
  case (Suc n)
  have "\<exists>t. code p t \<noteq> []"
  proof (rule ccontr)
    assume "\<nexists>t. code p t \<noteq> []"
    then have "pending T p = 0" by (simp add: pending_def)
    then show False using Suc.hyps(2) by simp
  qed
  then obtain u p1 where u: "code p u \<noteq> []" "work u p p1" using somebody_works [OF Suc.prems(1,2)] by blast
  then have T: "u \<in> T" using Suc.prems(3) by blast
  note w = work_pending [OF u(2) assms(3) T]
  have "n = pending T p1" using Suc.hyps(2) w(1) by simp
  moreover have "\<forall>t. t \<notin> T \<longrightarrow> code p1 t = []" using Suc.prems(3) w(2) T by metis
  ultimately obtain p' where "((\<lambda>p p'. \<exists>t. work t p p') ^^ n) p1 p'" "\<forall>t. code p' t = []"
    using Suc.hyps(1) pool_ok_work [OF u(2) Suc.prems(1)] pool_ordered_work [OF u(2) Suc.prems(2)] by blast
  then have "((\<lambda>p p'. \<exists>t. work t p p') ^^ Suc n) p p'" using u(2) by (intro relpowp_Suc_I2) blast
  then show ?case using Suc.hyps(2) \<open>\<forall>t. code p' t = []\<close> by (intro exI [of _ p']) metis
qed

lemma no_deadlock:
  assumes "(step start react)\<^sup>*\<^sup>* (pool_new s l) p" and "finite T" and "\<forall>t. t \<notin> T \<longrightarrow> code p t = []"
  shows "\<exists>p'. ((\<lambda>p p'. \<exists>t. work t p p') ^^ pending T p) p p' \<and> (\<forall>t. code p' t = [])"
  by (rule drains [OF _ reachable_ordered [OF assms(1)] assms(2,3)]) (use interleaving_simulated [OF assms(1)] in blast)

end

section \<open>One mutex\<close>

text \<open>The statements between \<open>lock\<close> and \<open>unlock\<close> of an object with a single mutex.\<close>

definition critical :: "('s \<Rightarrow> 'l \<Rightarrow> 's \<times> 'l) list \<Rightarrow> (unit, 's, 'l) program" where
  "critical fs = Lock () # map (Do {()}) fs @ [Unlock ()]"

fun run_all :: "('s \<Rightarrow> 'l \<Rightarrow> 's \<times> 'l) list \<Rightarrow> 's \<Rightarrow> 'l \<Rightarrow> 's \<times> 'l" where
  "run_all [] s l = (s, l)"
| "run_all (f # fs) s l = (case f s l of (s', l') \<Rightarrow> run_all fs s' l')"

lemma exec_critical [simp]: "exec (critical fs) s l = run_all fs s l"
proof -
  have "exec (map (Do {()}) fs @ [Unlock ()]) s l = run_all fs s l"
    by (induction fs arbitrary: s l) (auto split: prod.splits)
  then show ?thesis by (simp add: critical_def)
qed

locale monitor =
  fixes start :: "tid \<Rightarrow> 'l \<Rightarrow> (unit, 's, 'l) program option"
    and react :: "tid \<Rightarrow> 'l \<Rightarrow> 'l \<Rightarrow> bool"
  assumes start_critical: "start t l = Some as \<Longrightarrow> \<exists>fs. as = critical fs"

sublocale monitor \<subseteq> ordered_threads start react "\<lambda>_ s s'. s = s'" "\<lambda>_. 0" 1
proof
  fix t l as
  assume "start t l = Some as"
  then obtain fs where as: "as = critical fs" using start_critical by blast
  have "guarded_by (\<lambda>_ s s'. s = s') {()} (map (Do {()}) fs)" by (auto simp: guarded_by_def confined_def)
  then show "two_phase (\<lambda>_ s s'. s = s') as"
    unfolding as phase_def critical_def
    by (intro exI [of _ "[()]"] exI [of _ "map (Do {()}) fs"]) simp
  have "locks_of (map (Do {()}) fs @ [Unlock ()]) = []" by (induction fs) simp_all
  then show "in_order (\<lambda>_. 0) {} as" by (simp add: as critical_def in_order_def)
qed simp_all

end
