(* ===== verification/Sentinel_Threads.thy ===== *)
theory Sentinel_Threads
  imports Leadership Interleavings
begin

text \<open>
  The threads of one master and the four mutexes of its sentinel: \<open>kyrin_master_sentinel.cc\<close> action by
  action. The accessors and the critical sections of the loop are programs of \<open>Locks\<close>; the control
  of a thread says which it runs next. What is shown: no race and no deadlock, every
  interleaving is one of whole operations, a turn of \<open>Sentinel.sync_step\<close> and an answered
  ticket are such runs, and what the loop can do to a master that was asked for its vote
  between the count and the election.
\<close>

section \<open>The critical sections\<close>

text \<open>One mutex for each member.\<close>

datatype sentinel_lock = M_status_lock | M_vote_lock | M_leader_lock | M_epoch_lock

fun same_member :: "sentinel_lock \<Rightarrow> sentinel \<Rightarrow> sentinel \<Rightarrow> bool" where
  "same_member M_status_lock s s' \<longleftrightarrow> m_status s = m_status s'"
| "same_member M_vote_lock s s' \<longleftrightarrow> m_vote s = m_vote s'"
| "same_member M_leader_lock s s' \<longleftrightarrow> m_leader s = m_leader s'"
| "same_member M_epoch_lock s s' \<longleftrightarrow> m_epoch s = m_epoch s'"

type_synonym 'l sentinel_code = "(sentinel_lock, sentinel, 'l) program"

text \<open>An accessor: the local state afterwards depends on what was read.\<close>

definition get_vote_ticket_code :: "(string \<Rightarrow> 'l) \<Rightarrow> 'l sentinel_code" where
  "get_vote_ticket_code c =
     [Lock M_vote_lock, Lock M_epoch_lock, Do {M_vote_lock, M_epoch_lock} (\<lambda>s _. (s, c (get_vote_ticket s))),
      Unlock M_vote_lock, Unlock M_epoch_lock]"

definition get_epoch_code :: "(u64 \<Rightarrow> 'l) \<Rightarrow> 'l sentinel_code" where
  "get_epoch_code c = [Lock M_epoch_lock, Do {M_epoch_lock} (\<lambda>s _. (s, c (m_epoch s))), Unlock M_epoch_lock]"

definition set_epoch_code :: "u64 \<Rightarrow> 'l \<Rightarrow> 'l sentinel_code" where
  "set_epoch_code e x = [Lock M_epoch_lock, Do {M_epoch_lock} (\<lambda>s _. (s\<lparr>m_epoch := e\<rparr>, x)), Unlock M_epoch_lock]"

definition get_vote_code :: "(u64 \<Rightarrow> 'l) \<Rightarrow> 'l sentinel_code" where
  "get_vote_code c = [Lock M_vote_lock, Do {M_vote_lock} (\<lambda>s _. (s, c (m_vote s))), Unlock M_vote_lock]"

definition set_vote_code :: "u64 \<Rightarrow> 'l \<Rightarrow> 'l sentinel_code" where
  "set_vote_code v x = [Lock M_vote_lock, Do {M_vote_lock} (\<lambda>s _. (s\<lparr>m_vote := v\<rparr>, x)), Unlock M_vote_lock]"

definition get_leader_code :: "(u32 \<Rightarrow> 'l) \<Rightarrow> 'l sentinel_code" where
  "get_leader_code c = [Lock M_leader_lock, Do {M_leader_lock} (\<lambda>s _. (s, c (m_leader s))), Unlock M_leader_lock]"

definition set_leader_code :: "u32 \<Rightarrow> 'l \<Rightarrow> 'l sentinel_code" where
  "set_leader_code i x = [Lock M_leader_lock, Do {M_leader_lock} (\<lambda>s _. (s\<lparr>m_leader := i\<rparr>, x)), Unlock M_leader_lock]"

definition get_status_code :: "(master_status \<Rightarrow> 'l) \<Rightarrow> 'l sentinel_code" where
  "get_status_code c = [Lock M_status_lock, Do {M_status_lock} (\<lambda>s _. (s, c (m_status s))), Unlock M_status_lock]"

definition set_status_code :: "master_status \<Rightarrow> 'l \<Rightarrow> 'l sentinel_code" where
  "set_status_code i x = [Lock M_status_lock, Do {M_status_lock} (\<lambda>s _. (s\<lparr>m_status := i\<rparr>, x)), Unlock M_status_lock]"

text \<open>The critical sections inside \<open>sentinel_sync\<close>.\<close>

definition abdicate_code :: "u32 \<Rightarrow> 'l \<Rightarrow> 'l sentinel_code" where
  "abdicate_code kbid x =
     [Lock M_status_lock, Lock M_vote_lock, Lock M_epoch_lock,
      Do {M_status_lock} (\<lambda>s l. (s\<lparr>m_status := K_status_consensus\<rparr>, l)),
      Do {M_epoch_lock} (\<lambda>s l. (s\<lparr>m_epoch := m_epoch s + 1\<rparr>, l)),
      Do {M_vote_lock} (\<lambda>s _. (s\<lparr>m_vote := ucast kbid\<rparr>, x)),
      Unlock M_epoch_lock, Unlock M_vote_lock, Unlock M_status_lock]"

definition take_epoch_code :: "u32 \<Rightarrow> u64 \<Rightarrow> 'l \<Rightarrow> 'l sentinel_code" where
  "take_epoch_code kbid epoch x =
     [Lock M_leader_lock, Lock M_epoch_lock,
      Do {M_leader_lock} (\<lambda>s l. (s\<lparr>m_leader := kbid\<rparr>, l)),
      Do {M_epoch_lock} (\<lambda>s _. (s\<lparr>m_epoch := epoch\<rparr>, x)),
      Unlock M_leader_lock, Unlock M_epoch_lock]"

definition elect_code :: "u32 \<Rightarrow> nat \<Rightarrow> 'l \<Rightarrow> 'l sentinel_code" where
  "elect_code kbid leader x =
     [Lock M_status_lock, Lock M_leader_lock,
      Do {M_leader_lock} (\<lambda>s l. (s\<lparr>m_leader := of_nat leader\<rparr>, l)),
      Do {M_status_lock} (\<lambda>s _.
        (s\<lparr>m_status := (if leader \<noteq> unat kbid then K_status_follower else K_status_leader)\<rparr>, x)),
      Unlock M_leader_lock, Unlock M_status_lock]"

lemmas sentinel_codes = get_vote_ticket_code_def get_epoch_code_def set_epoch_code_def get_vote_code_def
  set_vote_code_def get_leader_code_def set_leader_code_def get_status_code_def set_status_code_def
  abdicate_code_def take_epoch_code_def elect_code_def

text \<open>Run without interference they are the operations of \<open>Sentinel\<close>.\<close>

lemma exec_codes [simp]:
  "exec (get_vote_ticket_code ct) s l = (s, ct (get_vote_ticket s))"
  "exec (get_epoch_code ce) s l = (s, ce (get_epoch s))" "exec (set_epoch_code e x) s l = (set_epoch e s, x)"
  "exec (get_vote_code cv) s l = (s, cv (get_vote s))" "exec (set_vote_code v x) s l = (set_vote v s, x)"
  "exec (get_leader_code cl) s l = (s, cl (get_leader s))" "exec (set_leader_code i x) s l = (set_leader i s, x)"
  "exec (get_status_code cs) s l = (s, cs (get_status s))" "exec (set_status_code j x) s l = (set_status j s, x)"
  "exec (abdicate_code k x) s l = (s\<lparr>m_status := K_status_consensus, m_epoch := m_epoch s + 1, m_vote := ucast k\<rparr>, x)"
  "exec (take_epoch_code k e x) s l = (s\<lparr>m_leader := k, m_epoch := e\<rparr>, x)"
  "exec (elect_code k n x) s l
    = (set_status (if n \<noteq> unat k then K_status_follower else K_status_leader) (set_leader (of_nat n) s), x)"
  by (simp_all add: sentinel_codes sentinel_ops)

section \<open>The threads\<close>

text \<open>
  Where a thread is between two critical sections, with its local variables. A worker answers
  requests: for the status (\<open>/GetStatus\<close>, \<open>/UploadFile\<close>, \<open>/ConfirmOplog\<close>), for the leader
  (\<open>update_oplog\<close>) and for a vote. The others are the positions of \<open>sentinel_sync\<close>.
\<close>

datatype sentinel_local =
    Worker_idle
  | Ask_status | Status_is master_status
  | Ask_leader | Leader_is u32
  | Vote_ticket u64 | Vote_compare u64 u64 | Vote_set_vote | Vote_set_status | Vote_reply | Vote_replied string
  | Sync_top "nat option" | Sync_case "nat option" master_status | Sync_abdicate "nat option"
  | Sync_ticket "(u64 \<times> u64) list" "bool list"
  | Sync_ask string "nat list" "(u64 \<times> u64) list" "bool list"
  | Sync_take u64 "(u64 \<times> u64) list" "bool list"
  | Sync_tally "(u64 \<times> u64) list" "bool list"
  | Sync_candidate nat "(u64 \<times> u64) list" "bool list"
  | Sync_elect nat

text \<open>The next critical section.\<close>

fun sentinel_start :: "cluster \<Rightarrow> tid \<Rightarrow> sentinel_local \<Rightarrow> sentinel_local sentinel_code option" where
  "sentinel_start cl t Ask_status = Some (get_status_code Status_is)"
| "sentinel_start cl t Ask_leader = Some (get_leader_code Leader_is)"
| "sentinel_start cl t (Vote_ticket epoch) = Some (get_epoch_code (Vote_compare epoch))"
| "sentinel_start cl t (Vote_compare epoch now_epoch) =
     (if now_epoch < epoch then Some (set_epoch_code epoch Vote_set_vote) else Some (get_vote_ticket_code Vote_replied))"
| "sentinel_start cl t Vote_set_vote = Some (set_vote_code (ucast (m_kbid cl)) Vote_set_status)"
| "sentinel_start cl t Vote_set_status = Some (set_status_code K_status_consensus Vote_reply)"
| "sentinel_start cl t Vote_reply = Some (get_vote_ticket_code Vote_replied)"
| "sentinel_start cl t (Sync_top leader) = Some (get_status_code (Sync_case leader))"
| "sentinel_start cl t (Sync_abdicate leader) = Some (abdicate_code (m_kbid cl) (Sync_top leader))"
| "sentinel_start cl t (Sync_case leader K_status_consensus) =
     (let n = unat (m_master_server_count cl) + 1 in
      Some (set_vote_code (ucast (m_kbid cl)) (Sync_ticket (replicate n (0, 0)) (replicate n False))))"
| "sentinel_start cl t (Sync_ticket votes voted) =
     Some (get_vote_ticket_code (\<lambda>me_vote. Sync_ask me_vote (masters cl) votes voted))"
| "sentinel_start cl t (Sync_take epoch votes voted) = Some (take_epoch_code (m_kbid cl) epoch (Sync_tally votes voted))"
| "sentinel_start cl t (Sync_candidate c votes voted) = Some (set_vote_code (of_nat c) (Sync_ticket votes voted))"
| "sentinel_start cl t (Sync_elect l) = Some (elect_code (m_kbid cl) l (Sync_top (Some l)))"
| "sentinel_start cl t _ = None"

text \<open>
  What happens outside the critical sections: requests and replies arrive and votes are counted.
  The comparison of a reply with \<open>m_epoch\<close> reads that member without its lock, so the value it
  sees is open; both of its outcomes are steps here.
\<close>

inductive sentinel_react :: "cluster \<Rightarrow> tid \<Rightarrow> sentinel_local \<Rightarrow> sentinel_local \<Rightarrow> bool" for cl t where
  "sentinel_react cl t Worker_idle Ask_status"
| "sentinel_react cl t Worker_idle Ask_leader"
| "sentinel_react cl t Worker_idle (Vote_ticket epoch)"
| "sentinel_react cl t (Status_is x) Worker_idle"
| "sentinel_react cl t (Leader_is l) Worker_idle"
| "sentinel_react cl t (Vote_replied msg) Worker_idle"
| leading: "sentinel_react cl t (Sync_case leader K_status_leader) (Sync_top leader)"
| answered: "sentinel_react cl t (Sync_case leader K_status_follower) (Sync_top leader)"
| unanswered: "sentinel_react cl t (Sync_case leader K_status_follower) (Sync_abdicate leader)"
| silent: "sentinel_react cl t (Sync_ask me_vote (i # is) votes voted) (Sync_ask me_vote is votes voted)"
| counted: "sentinel_react cl t (Sync_ask me_vote (i # is) votes voted)
      (Sync_ask me_vote is (votes[i := (epoch, vote)]) (voted[i := True]))"
    if "check_response response" and "scan_llu2 response = Ret (Some epoch, Some vote)"
| outdated: "sentinel_react cl t (Sync_ask me_vote (i # is) votes voted) (Sync_take epoch votes voted)"
    if "check_response response" and "scan_llu2 response = Ret (Some epoch, vote)"
| asked: "sentinel_react cl t (Sync_ask me_vote [] votes voted) (Sync_tally votes voted)"
| nobody: "sentinel_react cl t (Sync_tally votes voted) (Sync_top leader)"
    if "count_votes (masters cl) votes voted (replicate (unat (m_master_server_count cl) + 1) 0) = Ret result"
      and "pick_leader (masters cl) (unat (m_master_server_count cl)) result None None = (leader, None)"
| candidate: "sentinel_react cl t (Sync_tally votes voted) (Sync_candidate c votes voted)"
    if "count_votes (masters cl) votes voted (replicate (unat (m_master_server_count cl) + 1) 0) = Ret result"
      and "pick_leader (masters cl) (unat (m_master_server_count cl)) result None None = (None, Some c)"
| elected: "sentinel_react cl t (Sync_tally votes voted) (Sync_elect l)"
    if "count_votes (masters cl) votes voted (replicate (unat (m_master_server_count cl) + 1) 0) = Ret result"
      and "pick_leader (masters cl) (unat (m_master_server_count cl)) result None None = (Some l, Some c)"

fun sentinel_rank :: "sentinel_lock \<Rightarrow> nat" where
  "sentinel_rank M_status_lock = 0"
| "sentinel_rank M_vote_lock = 1"
| "sentinel_rank M_leader_lock = 2"
| "sentinel_rank M_epoch_lock = 3"

abbreviation sentinel_step where
  "sentinel_step cl \<equiv> step (sentinel_start cl) (sentinel_react cl)"

abbreviation sentinel_atomic where
  "sentinel_atomic cl \<equiv> atomic (sentinel_start cl) (sentinel_react cl)"

section \<open>Discipline\<close>

lemma all_sentinel_locks: "(\<forall>k. P k) \<longleftrightarrow> P M_status_lock \<and> P M_vote_lock \<and> P M_leader_lock \<and> P M_epoch_lock"
  by (metis sentinel_lock.exhaust)

lemma confined_member [simp]:
  "confined same_member {M_status_lock} (\<lambda>s l. (s\<lparr>m_status := fs l\<rparr>, gs l))"
  "confined same_member {M_vote_lock} (\<lambda>s l. (s\<lparr>m_vote := fv l\<rparr>, gv l))"
  "confined same_member {M_leader_lock} (\<lambda>s l. (s\<lparr>m_leader := fl l\<rparr>, gl l))"
  "confined same_member {M_epoch_lock} (\<lambda>s l. (s\<lparr>m_epoch := fe l\<rparr>, ge l))"
  "confined same_member {M_epoch_lock} (\<lambda>s l. (s\<lparr>m_epoch := m_epoch s + 1\<rparr>, l))"
  "confined same_member {M_status_lock} (\<lambda>s l. (s, cs (m_status s)))"
  "confined same_member {M_vote_lock} (\<lambda>s l. (s, cv (m_vote s)))"
  "confined same_member {M_leader_lock} (\<lambda>s l. (s, cl (m_leader s)))"
  "confined same_member {M_epoch_lock} (\<lambda>s l. (s, ce (m_epoch s)))"
  "confined same_member {M_vote_lock, M_epoch_lock} (\<lambda>s l. (s, ct (get_vote_ticket s)))"
  by (simp_all add: confined_def all_sentinel_locks get_vote_ticket_def)

lemma code_two_phase [simp]:
  "two_phase same_member (get_vote_ticket_code ct)" "two_phase same_member (get_epoch_code ce)"
  "two_phase same_member (set_epoch_code e x)" "two_phase same_member (get_vote_code cv)"
  "two_phase same_member (set_vote_code v x)" "two_phase same_member (get_leader_code cl)"
  "two_phase same_member (set_leader_code i x)" "two_phase same_member (get_status_code cs)"
  "two_phase same_member (set_status_code j x)" "two_phase same_member (abdicate_code k x)"
  "two_phase same_member (take_epoch_code k e x)" "two_phase same_member (elect_code k n x)"
  by (rule two_phase_by_parts; auto simp: sentinel_codes)+

lemma code_in_order [simp]:
  "in_order sentinel_rank {} (get_vote_ticket_code ct)" "in_order sentinel_rank {} (get_epoch_code ce)"
  "in_order sentinel_rank {} (set_epoch_code e x)" "in_order sentinel_rank {} (get_vote_code cv)"
  "in_order sentinel_rank {} (set_vote_code v x)" "in_order sentinel_rank {} (get_leader_code cl)"
  "in_order sentinel_rank {} (set_leader_code i x)" "in_order sentinel_rank {} (get_status_code cs)"
  "in_order sentinel_rank {} (set_status_code j x)" "in_order sentinel_rank {} (abdicate_code k x)"
  "in_order sentinel_rank {} (take_epoch_code k e x)" "in_order sentinel_rank {} (elect_code k n x)"
  by (simp_all add: sentinel_codes)

lemma sentinel_start_cases:
  assumes "sentinel_start cl t l = Some as"
  shows "two_phase same_member as" and "in_order sentinel_rank {} as"
  using assms by (cases "(cl, t, l)" rule: sentinel_start.cases; auto simp: Let_def split: if_splits)+

lemma same_member_all: "(\<And>k. same_member k s s') \<Longrightarrow> s = (s' :: sentinel)"
  by (metis same_member.simps sentinel.equality old.unit.exhaust)

interpretation sentinel_threads: ordered_threads "sentinel_start cl" "sentinel_react cl" same_member sentinel_rank 4
  for cl
proof unfold_locales
  fix k :: sentinel_lock and s s' s'' :: sentinel
  show "same_member k s s" "same_member k s s' \<Longrightarrow> same_member k s' s"
    "same_member k s s' \<Longrightarrow> same_member k s' s'' \<Longrightarrow> same_member k s s''" "sentinel_rank k < 4"
    by (cases k; simp)+
qed (blast intro: same_member_all sentinel_start_cases)+

section \<open>Whole operations\<close>

text \<open>
  The own sentinel inside the world is a place of its own, and requests to other masters, of which this
  one is not among those that answer meanwhile, leave it alone.
\<close>

definition undisturbed :: "'w curl_ops \<Rightarrow> 'w self \<Rightarrow> bool" where
  "undisturbed C me \<longleftrightarrow> (\<forall>s w. peek me (poke me s w) = s)
     \<and> (\<forall>ip port uri response data w ok response' w'.
          make_request_post C ip port uri response data w = Ret (ok, response', w') \<longrightarrow> peek me w' = peek me w)
     \<and> (\<forall>ip port uri response w ok response' w'.
          make_request_get C ip port uri response w = Ret (ok, response', w') \<longrightarrow> peek me w' = peek me w)"

fun local_of :: "sync_pc \<Rightarrow> sentinel_local" where
  "local_of (Outer leader) = Sync_top leader"
| "local_of (Inner votes voted) = Sync_ticket votes voted"

lemma run_step:
  assumes "sentinel_start cl t (l t) = Some as" and "exec as s (l t) = (s', x)"
    and "(sentinel_atomic cl)\<^sup>*\<^sup>* (s', l(t := x)) b"
  shows "(sentinel_atomic cl)\<^sup>*\<^sup>* (s, l) b"
  by (rule converse_rtranclp_into_rtranclp [OF atomic.run [where start = "sentinel_start cl" and react = "sentinel_react cl" and l = l and t = t, OF assms(1,2)] assms(3)])

lemma react_step:
  assumes "sentinel_react cl t (l t) x" and "(sentinel_atomic cl)\<^sup>*\<^sup>* (s, l(t := x)) b"
  shows "(sentinel_atomic cl)\<^sup>*\<^sup>* (s, l) b"
  by (rule converse_rtranclp_into_rtranclp [OF atomic.react [where start = "sentinel_start cl" and react = "sentinel_react cl" and l = l and t = t, OF assms(1)] assms(2)])

lemma collect_runs:
  assumes "undisturbed C me" and "collect C cl me me_vote is votes voted w = Ret (votes', voted', w')"
    and "l t = Sync_ask me_vote is votes voted"
  shows "(sentinel_atomic cl)\<^sup>*\<^sup>* (peek me w, l) (peek me w', l(t := Sync_tally votes' voted'))"
  using assms(2,3)
proof (induction "is" arbitrary: votes voted w l)
  case Nil
  then have "votes' = votes" "voted' = voted" "w' = w" by simp_all
  moreover have "sentinel_react cl t (l t) (Sync_tally votes voted)" using Nil.prems(2) by (simp add: asked)
  ultimately show ?case using react_step [where t = t, OF _ rtranclp.rtrancl_refl] by metis
next
  case (Cons i js)
  obtain ip port ok response w1 where
    req: "get_master_ip cl (of_nat i) = Ret ip" "get_master_sentinel_port cl (of_nat i) = Ret port"
      "make_request_post C ip port ''/GetVote'' [] me_vote w = Ret (ok, response, w1)"
    using Cons.prems(1) by (auto elim!: obind_RetE split: prod.splits)
  then have peek: "peek me w1 = peek me w" using assms(1) unfolding undisturbed_def by blast
  show ?case
  proof (cases "check_response response")
    case False
    then have "collect C cl me me_vote js votes voted w1 = Ret (votes', voted', w')" using Cons.prems(1) req by simp
    from Cons.IH [OF this, of "l(t := Sync_ask me_vote js votes voted)"] show ?thesis
      using peek Cons.prems(2) by - (rule react_step [where t = t and x = "Sync_ask me_vote js votes voted"], auto intro: silent simp: fun_upd_def cong: if_cong)
  next
    case True
    then obtain epoch vote where scan: "scan_llu2 response = Ret (Some epoch, vote)"
      and rest: "(if epoch \<noteq> m_epoch (peek me w1)
         then Ret (votes, voted, poke me ((peek me w1)\<lparr>m_leader := m_kbid cl, m_epoch := epoch\<rparr>) w1)
         else case vote of None \<Rightarrow> Undef | Some vote \<Rightarrow>
           collect C cl me me_vote js (votes[i := (epoch, vote)]) (voted[i := True]) w1) = Ret (votes', voted', w')"
      using Cons.prems(1) req by (auto elim!: obind_RetE split: option.splits)
    show ?thesis
    proof (cases "epoch = m_epoch (peek me w1)")
      case False
      then have w': "votes' = votes" "voted' = voted" "peek me w' = (peek me w)\<lparr>m_leader := m_kbid cl, m_epoch := epoch\<rparr>"
        using rest assms(1) peek unfolding undisturbed_def by auto
      have "(sentinel_atomic cl)\<^sup>*\<^sup>* (peek me w, l(t := Sync_take epoch votes voted)) (peek me w', l(t := Sync_tally votes' voted'))"
        by - (rule run_step [where t = t], simp, auto simp: w')
      then show ?thesis
        using Cons.prems(2) by - (rule react_step [where t = t], auto intro: outdated [OF True scan] simp: fun_upd_def cong: if_cong)
    next
      case same: True
      then obtain v where v: "vote = Some v"
        "collect C cl me me_vote js (votes[i := (epoch, v)]) (voted[i := True]) w1 = Ret (votes', voted', w')"
        using rest by (auto split: option.splits)
      from Cons.IH [OF v(2), of "l(t := Sync_ask me_vote js (votes[i := (epoch, v)]) (voted[i := True]))"]
      show ?thesis
        using peek Cons.prems(2) counted [OF True scan [unfolded v(1)]]
        by - (rule react_step [where t = t and x = "Sync_ask me_vote js (votes[i := (epoch, v)]) (voted[i := True])"], auto simp: fun_upd_def cong: if_cong)
    qed
  qed
qed

lemma inner_turn_runs:
  assumes "undisturbed C me" and "inner_turn C cl me votes voted w = Ret (pc, w')" and "l t = Sync_ticket votes voted"
  shows "(sentinel_atomic cl)\<^sup>*\<^sup>* (peek me w, l) (peek me w', l(t := local_of pc))"
proof -
  let ?n = "unat (m_master_server_count cl)" and ?ask = "Sync_ask (get_vote_ticket (peek me w)) (masters cl) votes voted"
  obtain votes' voted' w1 result where
    c: "collect C cl me (get_vote_ticket (peek me w)) (masters cl) votes voted w = Ret (votes', voted', w1)"
    and r: "count_votes (masters cl) votes' voted' (replicate (?n + 1) 0) = Ret result"
    and rest: "(let (leader, max_candidate) = pick_leader (masters cl) ?n result None None in
      case max_candidate of
        None \<Rightarrow> Ret (Outer leader, w1)
      | Some candidate \<Rightarrow>
          (case leader of
             None \<Rightarrow> Ret (Inner votes' voted', poke me (set_vote (of_nat candidate) (peek me w1)) w1)
           | Some l \<Rightarrow>
               Ret (Outer leader, poke me
                 (set_status (if l \<noteq> unat (m_kbid cl) then K_status_follower else K_status_leader)
                   (set_leader (of_nat l) (peek me w1))) w1))) = Ret (pc, w')"
    using assms(2) unfolding inner_turn_def Let_def by (auto elim!: obind_RetE split: prod.splits)
  obtain leader cand where p: "pick_leader (masters cl) ?n result None None = (leader, cand)" by fastforce
  have poke: "peek me (poke me s w1) = s" for s using assms(1) by (simp add: undisturbed_def)
  have tail: "(sentinel_atomic cl)\<^sup>*\<^sup>* (peek me w1, m) (peek me w', m(t := local_of pc))" if "m t = Sync_tally votes' voted'" for m
  proof (cases cand)
    case None
    then have "pc = Outer leader" "w' = w1" using rest p by simp_all
    then show ?thesis
      using nobody [OF r p [unfolded None]] that by - (rule react_step [where t = t and x = "Sync_top leader"], simp_all)
  next
    case (Some c)
    show ?thesis
    proof (cases leader)
      case None
      have "(sentinel_atomic cl)\<^sup>*\<^sup>* (peek me w1, m(t := Sync_candidate c votes' voted')) (peek me w', m(t := local_of pc))"
        by - (rule run_step [where t = t], (use rest p None Some poke in auto))
      then show ?thesis
        using candidate [OF r p [unfolded None Some]] that by - (rule react_step [where t = t], auto)
    next
      case l: (Some x)
      have "(sentinel_atomic cl)\<^sup>*\<^sup>* (peek me w1, m(t := Sync_elect x)) (peek me w', m(t := local_of pc))"
        by - (rule run_step [where t = t], (use rest p Some l poke in auto))
      then show ?thesis
        using elected [OF r p [unfolded l Some]] that by - (rule react_step [where t = t], auto)
    qed
  qed
  have "(sentinel_atomic cl)\<^sup>*\<^sup>* (peek me w, l(t := ?ask)) (peek me w1, l(t := Sync_tally votes' voted'))"
    using collect_runs [OF assms(1) c, of "l(t := ?ask)" t] by simp
  then have "(sentinel_atomic cl)\<^sup>*\<^sup>* (peek me w, l(t := ?ask)) (peek me w', l(t := local_of pc))"
    using tail [of "l(t := Sync_tally votes' voted')"] by (simp add: rtranclp_trans)
  then show ?thesis using assms(3) by - (rule run_step [where t = t], simp, simp_all)
qed

lemma follow_loop_undisturbed:
  assumes "undisturbed C me" and "follow_loop C ip port retry response w = Ret (r, w')"
  shows "peek me w' = peek me w"
  using assms
proof (induction C ip port retry response w rule: follow_loop.induct)
  case (1 C ip port retry response w)
  obtain ok response' w1 where req: "make_request_get C ip port ''/GetStatus'' response w = Ret (ok, response', w1)"
    and rest: "(if \<not> ok \<and> retry < 3 then follow_loop C ip port (retry + 1) response' w1 else Ret (retry, w1)) = Ret (r, w')"
    using "1.prems"(2) by (auto simp: follow_loop.simps [of C] elim!: obind_RetE)
  then have "peek me w1 = peek me w" using "1.prems"(1) unfolding undisturbed_def by blast
  then show ?case using "1.IH" [OF _ "1.prems"(1)] rest by (auto split: if_splits)
qed

text \<open>One turn of the loop.\<close>

lemma sync_step_runs:
  assumes "undisturbed C me" and "sync_step C cl me pc w = Ret (pc', w')" and "l t = local_of pc"
  shows "(sentinel_atomic cl)\<^sup>*\<^sup>* (peek me w, l) (peek me w', l(t := local_of pc'))"
proof (cases pc)
  case (Inner votes voted)
  then show ?thesis using inner_turn_runs [OF assms(1)] assms(2,3) by (simp add: sync_step_def)
next
  case (Outer leader)
  let ?case = "l(t := Sync_case leader (get_status (peek me w)))"
  have "(sentinel_atomic cl)\<^sup>*\<^sup>* (peek me w, ?case) (peek me w', l(t := local_of pc'))"
  proof (cases "get_status (peek me w)")
    case K_status_leader
    then show ?thesis
      using assms(2) Outer by - (rule react_step [where t = t and x = "Sync_top leader"], auto simp: sync_step_def intro: leading)
  next
    case K_status_follower
    then obtain ip port retry w1 where f: "follow_loop C ip port 0 [] w = Ret (retry, w1)" "pc' = Outer leader"
      "w' = (if retry = 3 then poke me ((peek me w1)\<lparr>m_status := K_status_consensus,
         m_epoch := m_epoch (peek me w1) + 1, m_vote := ucast (m_kbid cl)\<rparr>) w1 else w1)"
      using assms(2) Outer by (auto simp: sync_step_def Let_def elim!: obind_RetE)
    have peek: "peek me w1 = peek me w" by (rule follow_loop_undisturbed [OF assms(1) f(1)])
    show ?thesis
    proof (cases "retry = 3")
      case True
      have "(sentinel_atomic cl)\<^sup>*\<^sup>* (peek me w, l(t := Sync_abdicate leader)) (peek me w', l(t := local_of pc'))"
        by - (rule run_step [where t = t], simp, use f True peek assms(1) in \<open>auto simp: undisturbed_def\<close>)
      then show ?thesis
        using K_status_follower by - (rule react_step [where t = t and x = "Sync_abdicate leader"], auto intro: unanswered)
    next
      case False
      then show ?thesis
        using f peek K_status_follower by - (rule react_step [where t = t and x = "Sync_top leader"], auto intro: answered)
    qed
  next
    case K_status_consensus
    let ?n = "unat (m_master_server_count cl) + 1" and ?w = "poke me (set_vote (ucast (m_kbid cl)) (peek me w)) w"
    have "inner_turn C cl me (replicate ?n (0, 0)) (replicate ?n False) ?w = Ret (pc', w')"
      using assms(2) Outer K_status_consensus by (simp add: sync_step_def Let_def)
    from inner_turn_runs [OF assms(1) this, of "l(t := Sync_ticket (replicate ?n (0, 0)) (replicate ?n False))" t]
    show ?thesis
      using K_status_consensus assms(1)
      by - (rule run_step [where t = t], simp add: Let_def, auto simp: undisturbed_def)
  qed
  then show ?thesis
    using assms(3) Outer by - (rule run_step [where t = t], simp, simp_all)
qed

text \<open>An answered ticket.\<close>

lemma vote_thread_runs:
  assumes "l u = Vote_ticket epoch"
    and "s' = (if get_epoch s < epoch then set_status K_status_consensus (set_vote (ucast (m_kbid cl)) (set_epoch epoch s)) else s)"
  shows "(sentinel_atomic cl)\<^sup>*\<^sup>* (s, l) (s', l(u := Vote_replied (get_vote_ticket s')))"
proof -
  have "(sentinel_atomic cl)\<^sup>*\<^sup>* (s, l(u := Vote_compare epoch (get_epoch s))) (s', l(u := Vote_replied (get_vote_ticket s')))"
  proof (cases "get_epoch s < epoch")
    case True
    let ?s1 = "set_epoch epoch s"
    let ?s2 = "set_vote (ucast (m_kbid cl)) ?s1"
    have "(sentinel_atomic cl)\<^sup>*\<^sup>* (s', l(u := Vote_reply)) (s', l(u := Vote_replied (get_vote_ticket s')))"
      by - (rule run_step [where t = u], simp, auto)
    then have "(sentinel_atomic cl)\<^sup>*\<^sup>* (?s2, l(u := Vote_set_status)) (s', l(u := Vote_replied (get_vote_ticket s')))"
      by - (rule run_step [where t = u], simp, auto simp: assms(2) True)
    then have "(sentinel_atomic cl)\<^sup>*\<^sup>* (?s1, l(u := Vote_set_vote)) (s', l(u := Vote_replied (get_vote_ticket s')))"
      by - (rule run_step [where t = u], simp, auto)
    then show ?thesis using True by - (rule run_step [where t = u], simp, auto)
  next
    case False
    then show ?thesis by - (rule run_step [where t = u], simp, auto simp: assms(2))
  qed
  then show ?thesis using assms(1) by - (rule run_step [where t = u], simp, simp_all)
qed

lemma vote_handler_runs:
  assumes "get_sentinel_vote_handler (m_kbid cl) req s = Ret (reply, s')"
    and "scan_llu2 (snd (server_get_postdata req [])) = Ret (Some epoch, vote)" and "l u = Vote_ticket epoch"
  shows "reply = server_send_reply_ok (get_vote_ticket s')"
    and "(sentinel_atomic cl)\<^sup>*\<^sup>* (s, l) (s', l(u := Vote_replied (get_vote_ticket s')))"
proof -
  show "reply = server_send_reply_ok (get_vote_ticket s')"
    using assms(1,2) by (auto simp: get_sentinel_vote_handler_def Let_def)
  show "(sentinel_atomic cl)\<^sup>*\<^sup>* (s, l) (s', l(u := Vote_replied (get_vote_ticket s')))"
    by (rule vote_thread_runs [where u = u and epoch = epoch]) (use assms in \<open>auto simp: get_sentinel_vote_handler_def Let_def\<close>)
qed

section \<open>Properties\<close>

text \<open>
  C12: The locks make operations atomic. Whatever the threads of a master do to its sentinel with
  their actions interleaved in any order, whenever none of them is inside a critical section
  the members and the local variables are what some sequence of whole operations
  gives, and every such sequence is possible.
\<close>

theorem sentinel_interleavings:
  "(sentinel_step cl)\<^sup>*\<^sup>* (pool_new s l) p \<and> (\<forall>t. code p t = [])
    \<longleftrightarrow> (\<exists>s' l'. p = pool_new s' l' \<and> (sentinel_atomic cl)\<^sup>*\<^sup>* (s, l) (s', l'))"
  by (rule sentinel_threads.interleavings_iff)

text \<open>
  C13: No race and no deadlock. In every reachable state of the threads no two of them are about to
  access one member inside critical sections, and all critical sections under way come to
  their end in exactly as many actions as are left of them, without a new one being started.
\<close>

theorem sentinel_no_deadlock:
  assumes "(sentinel_step cl)\<^sup>*\<^sup>* (pool_new s l) p" and "finite T" and "\<forall>t. t \<notin> T \<longrightarrow> code p t = []"
  shows "\<not> racing p t u \<and> (\<exists>p'. ((\<lambda>p p'. \<exists>t. work t p p') ^^ pending T p) p p' \<and> (\<forall>t. code p' t = []))"
  using sentinel_threads.race_free [OF assms(1)] sentinel_threads.no_deadlock [OF assms] by blast

text \<open>
  C14: Elected in an epoch nobody voted in. When the votes counted elect master \<open>i\<close>, and a ticket of
  a later epoch \<open>e\<close> is answered before the loop takes the locks to say so, the
  threads can end with the master out of the consensus state again, in epoch \<open>e\<close>, as
  leader or follower of \<open>i\<close>, although it has just answered that in epoch \<open>e\<close> it votes for itself
  and no vote of that epoch was counted.
\<close>

theorem stale_election:
  assumes "t \<noteq> u" and "l t = Sync_tally votes voted" and "l u = Vote_ticket e" and "m_epoch s < e"
    and "count_votes (masters cl) votes voted (replicate (unat (m_master_server_count cl) + 1) 0) = Ret result"
    and "pick_leader (masters cl) (unat (m_master_server_count cl)) result None None = (Some i, Some c)"
    and "s' = \<lparr>m_status = (if i \<noteq> unat (m_kbid cl) then K_status_follower else K_status_leader),
      m_leader = of_nat i, m_vote = ucast (m_kbid cl), m_epoch = e\<rparr>"
  shows "(sentinel_step cl)\<^sup>*\<^sup>* (pool_new s l)
    (pool_new s' (l(t := Sync_top (Some i), u := Vote_replied (ticket e (ucast (m_kbid cl))))))"
proof -
  let ?s = "set_status K_status_consensus (set_vote (ucast (m_kbid cl)) (set_epoch e s))"
  let ?l = "l(t := Sync_elect i)" and ?msg = "Vote_replied (ticket e (ucast (m_kbid cl)))"
  have "sentinel_react cl t (l t) (Sync_elect i)" using elected [OF assms(5,6)] assms(2) by simp
  moreover have "(sentinel_atomic cl)\<^sup>*\<^sup>* (s, ?l) (?s, ?l(u := ?msg))"
    using vote_thread_runs [of ?l u e ?s s cl] assms(1,3,4) by (simp add: vote_ticket sentinel_ops)
  moreover have "sentinel_atomic cl (?s, ?l(u := ?msg)) (s', (?l(u := ?msg))(t := Sync_top (Some i)))"
    by (rule atomic.run [where as = "elect_code (m_kbid cl) i (Sync_top (Some i))"])
      (use assms(1,7) in \<open>simp_all add: sentinel_ops\<close>)
  ultimately have "(sentinel_atomic cl)\<^sup>*\<^sup>* (s, l) (s', (?l(u := ?msg))(t := Sync_top (Some i)))"
    by (meson react_step rtranclp.rtrancl_into_rtrancl)
  then show ?thesis using sentinel_threads.atomic_realised assms(1) by (simp add: fun_upd_twist)
qed

section \<open>Concrete runs\<close>

text \<open>One thread is giving up its leader, another is reading a ticket; each holds one mutex.\<close>

definition contested :: "cluster \<Rightarrow> sentinel \<Rightarrow> (sentinel_lock, sentinel, sentinel_local) pool" where
  "contested cl s = \<lparr>shared = s,
     mutexes = (\<lambda>_. mutex_new)(M_status_lock := \<lparr>m_mutex = Some 0\<rparr>, M_vote_lock := \<lparr>m_mutex = Some 1\<rparr>),
     code = (\<lambda>_. [])(0 := tl (abdicate_code (m_kbid cl) (Sync_top None)), 1 := tl (get_vote_ticket_code Vote_replied)),
     locals = (\<lambda>_. Worker_idle)(0 := Sync_abdicate None, 1 := Vote_reply)\<rparr>"

lemma contested_reachable:
  "(sentinel_step cl)\<^sup>*\<^sup>* (pool_new s ((\<lambda>_. Worker_idle)(0 := Sync_abdicate None, 1 := Vote_reply))) (contested cl s)"
proof -
  let ?p0 = "pool_new s ((\<lambda>_. Worker_idle)(0 := Sync_abdicate None, 1 := Vote_reply))"
  let ?p1 = "?p0\<lparr>code := (code ?p0)(0 := abdicate_code (m_kbid cl) (Sync_top None))\<rparr>"
  let ?p2 = "?p1\<lparr>code := (code ?p1)(1 := get_vote_ticket_code Vote_replied)\<rparr>"
  let ?p3 = "?p2\<lparr>mutexes := (mutexes ?p2)(M_status_lock := \<lparr>m_mutex = Some 0\<rparr>),
    code := (code ?p2)(0 := tl (abdicate_code (m_kbid cl) (Sync_top None)))\<rparr>"
  let ?p4 = "?p3\<lparr>mutexes := (mutexes ?p3)(M_vote_lock := \<lparr>m_mutex = Some 1\<rparr>),
    code := (code ?p3)(1 := tl (get_vote_ticket_code Vote_replied))\<rparr>"
  have "sentinel_step cl ?p0 ?p1" "sentinel_step cl ?p1 ?p2"
    by (rule step.start; simp add: pool_new_def)+
  moreover have "work 0 ?p2 ?p3"
    by (rule work.lock [where r = 0]) (simp_all add: pool_new_def mutex_lock_def mutex_new_def abdicate_code_def)
  then have "sentinel_step cl ?p2 ?p3" by (rule step.work)
  moreover have "work 1 ?p3 ?p4"
    by (rule work.lock [where r = 0]) (simp_all add: pool_new_def mutex_lock_def mutex_new_def get_vote_ticket_code_def)
  then have "sentinel_step cl ?p3 ?p4" by (rule step.work)
  moreover have "?p4 = contested cl s" by (auto simp: contested_def pool_new_def fun_eq_iff)
  ultimately show ?thesis by (metis (no_types, lifting) converse_rtranclp_into_rtranclp rtranclp.rtrancl_refl)
qed

lemma sentinel_no_deadlock_witness:
  "\<exists>p'. ((\<lambda>p p'. \<exists>t. work t p p') ^^ 12) (contested trio (start_sentinel 1 1)) p' \<and> (\<forall>t. code p' t = [])"
proof -
  let ?p = "contested trio (start_sentinel 1 1)"
  have "pending {0, 1} ?p = 12"
    by (simp add: pending_def contested_def abdicate_code_def get_vote_ticket_code_def)
  moreover have "\<forall>t. t \<notin> {0, 1} \<longrightarrow> code ?p t = []" by (simp add: contested_def)
  ultimately show ?thesis
    using sentinel_no_deadlock [OF contested_reachable [of trio "start_sentinel 1 1"], of "{0, 1}" 0 1] by simp
qed

text \<open>The third master has counted three votes for itself in epoch 0 and is asked about epoch 1.\<close>

lemma stale_election_witness:
  "(sentinel_step (trio\<lparr>m_kbid := 3\<rparr>))\<^sup>*\<^sup>*
    (pool_new (start_sentinel 3 3) ((\<lambda>_. Worker_idle)
      (0 := Sync_tally (replicate 4 (0, 3)) [False, True, True, True], 1 := Vote_ticket 1)))
    (pool_new (sent K_status_leader 3 3 1) ((\<lambda>_. Worker_idle)(0 := Sync_top (Some 3), 1 := Vote_replied (ticket 1 3))))"
proof -
  let ?cl = "trio\<lparr>m_kbid := 3\<rparr>"
  have tally: "count_votes (masters ?cl) (replicate 4 (0, 3)) [False, True, True, True]
      (replicate (unat (m_master_server_count ?cl) + 1) 0) = Ret [0, 0, 0, 3]"
    "pick_leader (masters ?cl) (unat (m_master_server_count ?cl)) [0, 0, 0, 3] None None = (Some 3, Some 3)"
    unfolding trio_lookups by (simp_all add: quad)
  have "(0 :: tid) \<noteq> 1" "m_epoch (start_sentinel 3 3) < 1" by (simp_all add: start_sentinel_def)
  from stale_election [OF this(1) _ _ this(2) tally refl, of "(\<lambda>_. Worker_idle)
      (0 := Sync_tally (replicate 4 (0, 3)) [False, True, True, True], 1 := Vote_ticket 1)"]
  show ?thesis by simp
qed

end
