(* ===== verification/Startup.thy ===== *)
theory Startup
  imports Servers Sentinel_Threads
begin

text \<open>
  How the four programs come up and go down: the connections to redis made by the constructors of the
  request handlers and by the copying thread of a slave node, the threads started beside the
  servers, the remaining \<open>main\<close> functions and \<open>server_free\<close>. hiredis, thread
  creation and the event loops are parameters.
\<close>

section \<open>Connecting to redis\<close>

text \<open>
  \<open>redisConnect\<close> gives the null pointer (None) only when memory runs out; when the server cannot be
  reached it gives a context with \<open>err\<close> set, \<open>rc_err\<close> its text. The reply to \<open>auth\<close> is not looked at.
\<close>

record ('c, 'r) hiredis =
  rc_connect :: "string \<Rightarrow> u32 \<Rightarrow> 'r \<Rightarrow> 'c option \<times> 'r"
  rc_err :: "'c \<Rightarrow> string option"
  rc_command :: "'c \<Rightarrow> string \<Rightarrow> 'r \<Rightarrow> 'r"

partial_function (option) redis_connect_loop ::
  "('c, 'r) hiredis \<Rightarrow> string \<Rightarrow> u32 \<Rightarrow> 'r \<Rightarrow> ('c \<times> 'r) option" where
  "redis_connect_loop K host port r =
     (case rc_connect K host port r of
        (Some c, r') \<Rightarrow> Some (c, r')
      | (None, r') \<Rightarrow> redis_connect_loop K host port r')"

definition get_kyrin_key_handler_new ::
  "('c, 'r) hiredis \<Rightarrow> string \<Rightarrow> u32 \<Rightarrow> 'r \<Rightarrow> ('c \<times> 'r) option" where
  "get_kyrin_key_handler_new K host port r =
     map_option (\<lambda>(c, r'). (c, rc_command K c ''auth asdf'' r')) (redis_connect_loop K host port r)"

definition set_kyrin_key_handler_new ::
  "('c, 'r) hiredis \<Rightarrow> string \<Rightarrow> u32 \<Rightarrow> 'r \<Rightarrow> ('c \<times> 'r) option" where
  "set_kyrin_key_handler_new K host port r =
     map_option (\<lambda>(c, r'). (c, rc_command K c ''auth asdf'' r')) (redis_connect_loop K host port r)"

text \<open>The first attempt stands before the loop.\<close>

definition download_file_handler_new ::
  "('c, 'r) hiredis \<Rightarrow> string \<Rightarrow> u32 \<Rightarrow> 'r \<Rightarrow> ('c \<times> 'r) option" where
  "download_file_handler_new K host port r =
     map_option (\<lambda>(c, r'). (c, rc_command K c ''auth asdf'' r'))
       (case rc_connect K host port r of
          (Some c, r') \<Rightarrow> Some (c, r')
        | (None, r') \<Rightarrow> redis_connect_loop K host port r')"

text \<open>
  The thread of a slave node up to its loop, then \<open>rnds\<close> turns of the loop. A command on the null
  pointer comes before the test of it. None: the thread has returned.
\<close>

definition kyrin_slavenode_sync_func ::
  "codecs \<Rightarrow> 'w curl_ops \<Rightarrow> ('c, 'r) hiredis \<Rightarrow> ('c \<Rightarrow> 'r redis_ops) \<Rightarrow> cluster \<Rightarrow> string option \<Rightarrow> u32 list
     \<Rightarrow> 'r \<Rightarrow> 'w \<Rightarrow> (string option \<times> 'r \<times> 'w) outcome" where
  "kyrin_slavenode_sync_func M C K R cl file rnds r w =
     (let config = read_config_file file in
      obind (slavenode_redis_host config) (\<lambda>redis_host. obind (slavenode_redis_port config) (\<lambda>redis_port.
      case rc_connect K (c_str redis_host) redis_port r of
        (None, r1) \<Rightarrow> Undef
      | (Some c, r1) \<Rightarrow>
          let r2 = rc_command K c ''auth asdf'' r1 in
          if rc_err K c \<noteq> None then Ret (None, r2, w)
          else obind (slavenode_sync M C (R c) cl rnds r2 w) (\<lambda>(current_id, r3, w1). Ret (Some current_id, r3, w1)))))"

section \<open>Starting threads\<close>

text \<open>\<open>T f\<close> is \<open>pthread_create\<close> on the function \<open>f\<close>: 0 when the thread runs.\<close>

datatype thread_func =
  Sentinel_thread_func | Sentinel_sync_func | Gossip_server_thread_func | Gossip_sync_func | Slavenode_sync_func

definition start_sentinel_threads ::
  "(thread_func \<Rightarrow> 'w \<Rightarrow> s32 \<times> 'w) \<Rightarrow> cluster \<Rightarrow> u64 \<Rightarrow> 'w \<Rightarrow> bool \<times> sentinel \<times> 'w" where
  "start_sentinel_threads T cl vote w =
     (let s = start_sentinel (m_kbid cl) vote;
          (r, w1) = T Sentinel_thread_func w in
      if r \<noteq> 0 then (False, s, w1)
      else
        let (r, w2) = T Sentinel_sync_func w1 in
        if r \<noteq> 0 then (False, s, w2) else (True, s, w2))"

text \<open>The threads run before the status they share is initialised.\<close>

definition start_gossip_threads ::
  "(thread_func \<Rightarrow> 'w \<Rightarrow> s32 \<times> 'w) \<Rightarrow> cluster \<Rightarrow> u64 \<Rightarrow> status \<Rightarrow> 'w \<Rightarrow> (bool \<times> status \<times> 'w) outcome" where
  "start_gossip_threads T cl now s w =
     (let (r, w1) = T Gossip_server_thread_func w in
      if r \<noteq> 0 then Ret (False, s, w1)
      else
        let (r, w2) = T Gossip_sync_func w1 in
        if r \<noteq> 0 then Ret (False, s, w2)
        else obind (start_gossip cl now s) (\<lambda>s'. Ret (True, s', w2)))"

definition start_sync :: "(thread_func \<Rightarrow> 'w \<Rightarrow> s32 \<times> 'w) \<Rightarrow> 'w \<Rightarrow> bool \<times> 'w" where
  "start_sync T w = (let (r, w1) = T Slavenode_sync_func w in if r = 0 then (False, w1) else (True, w1))"

section \<open>The other main functions\<close>

text \<open>What the servers are when \<open>main\<close> enters \<open>server_free\<close>. No result on the way is looked at.\<close>

definition chunk_main ::
  "(thread_func \<Rightarrow> 'w \<Rightarrow> s32 \<times> 'w) \<Rightarrow> 's sock_ops \<Rightarrow> string option \<Rightarrow> cluster \<Rightarrow> u64 \<Rightarrow> 'w \<Rightarrow> 's
     \<Rightarrow> (status \<times> chunk_server \<times> chunk_callback evhttp list \<times> 'w \<times> 's) outcome" where
  "chunk_main T S file cl now w s =
     obind (start_gossip_threads T cl now status_new w) (\<lambda>(_, gossiper, w').
     obind (chunk_initialize S file cl (Some ()) chunk_new s) (\<lambda>(_, m, s').
     Ret (gossiper, m, chunk_start m, w', s')))"

definition keycenter_main ::
  "'s sock_ops \<Rightarrow> cluster \<Rightarrow> 's \<Rightarrow> (keycenter_server \<times> keycenter_callback evhttp list \<times> 's) outcome" where
  "keycenter_main S cl s =
     obind (keycenter_initialize S cl keycenter_new s) (\<lambda>(_, m, s'). Ret (m, keycenter_start m, s'))"

definition slavenode_main ::
  "(thread_func \<Rightarrow> 'w \<Rightarrow> s32 \<times> 'w) \<Rightarrow> 's sock_ops \<Rightarrow> string option \<Rightarrow> 'w \<Rightarrow> 's
     \<Rightarrow> (slavenode_server \<times> unit evhttp list \<times> 'w \<times> 's) outcome" where
  "slavenode_main T S file w s =
     (let (_, w') = start_sync T w in
      obind (slavenode_initialize S file (Some ()) slavenode_new s) (\<lambda>(_, m, s').
      Ret (m, slavenode_start m, w', s')))"

section \<open>Going down\<close>

text \<open>
  A worker runs \<open>event_base_dispatch\<close>, which returns when its base has no event left or the loop was
  broken: \<open>ends i\<close>. The joins come first, in order.
\<close>

fun server_thread_func :: "(nat \<Rightarrow> bool) \<Rightarrow> nat \<Rightarrow> unit outcome" where
  "server_thread_func ends i = (if ends i then Ret () else Diverge)"

fun join_workers :: "(nat \<Rightarrow> bool) \<Rightarrow> nat list \<Rightarrow> unit outcome" where
  "join_workers ends [] = Ret ()"
| "join_workers ends (i # is) = obind (server_thread_func ends i) (\<lambda>_. join_workers ends is)"

definition base_server_free :: "(nat \<Rightarrow> bool) \<Rightarrow> 'h evhttp list \<Rightarrow> unit outcome" where
  "base_server_free ends workers = join_workers ends [0..<length workers]"

definition master_server_free ::
  "(nat \<Rightarrow> bool) \<Rightarrow> 's sock_ops \<Rightarrow> 'h evhttp list \<Rightarrow> 'p master_server \<Rightarrow> 's \<Rightarrow> 's outcome" where
  "master_server_free ends S workers m s = obind (base_server_free ends workers) (\<lambda>_. Ret (master_free S m s))"

definition chunk_server_free :: "(nat \<Rightarrow> bool) \<Rightarrow> 's sock_ops \<Rightarrow> 'h evhttp list \<Rightarrow> chunk_server \<Rightarrow> 's \<Rightarrow> 's outcome" where
  "chunk_server_free ends S workers m s = obind (base_server_free ends workers) (\<lambda>_. Ret (chunk_free S m s))"

definition keycenter_server_free :: "(nat \<Rightarrow> bool) \<Rightarrow> 's sock_ops \<Rightarrow> 'h evhttp list \<Rightarrow> keycenter_server \<Rightarrow> 's \<Rightarrow> 's outcome" where
  "keycenter_server_free ends S workers m s = obind (base_server_free ends workers) (\<lambda>_. Ret (keycenter_free S m s))"

definition slavenode_server_free :: "(nat \<Rightarrow> bool) \<Rightarrow> 's sock_ops \<Rightarrow> 'h evhttp list \<Rightarrow> slavenode_server \<Rightarrow> 's \<Rightarrow> 's outcome" where
  "slavenode_server_free ends S workers m s = obind (base_server_free ends workers) (\<lambda>_. Ret (slavenode_free S m s))"

text \<open>\<open>server_close\<close> of the servers of the sentinel and of the gossiper, with their descriptor.\<close>

definition sentinel_server_close :: "(nat \<Rightarrow> bool) \<Rightarrow> 's sock_ops \<Rightarrow> 'h evhttp list \<Rightarrow> s32 \<Rightarrow> 's \<Rightarrow> 's outcome" where
  "sentinel_server_close ends S workers server_listen_fd s =
     obind (base_server_free ends workers) (\<lambda>_. Ret (s_close S server_listen_fd s))"

definition gossiper_server_close :: "(nat \<Rightarrow> bool) \<Rightarrow> 's sock_ops \<Rightarrow> 'h evhttp list \<Rightarrow> s32 \<Rightarrow> 's \<Rightarrow> 's outcome" where
  "gossiper_server_close ends S workers server_listen_fd s =
     obind (base_server_free ends workers) (\<lambda>_. Ret (s_close S server_listen_fd s))"

lemma join_workers_Ret: "join_workers ends is = (if \<forall>i \<in> set is. ends i then Ret () else Diverge)"
  by (induction "is") auto

lemma base_server_free_Ret: "base_server_free ends workers = (if \<forall>i < length workers. ends i then Ret () else Diverge)"
  by (auto simp: base_server_free_def join_workers_Ret)

text \<open>As long as one worker still serves, the sockets stay open.\<close>

lemma server_free_waits:
  assumes "\<exists>i < length workers. \<not> ends i"
  shows "master_server_free ends S workers m s = Diverge" and "chunk_server_free ends S workers c s = Diverge"
    and "keycenter_server_free ends S workers k s = Diverge" and "slavenode_server_free ends S workers n s = Diverge"
    and "sentinel_server_close ends S workers fd s = Diverge" and "gossiper_server_close ends S workers fd s = Diverge"
  using assms
  by (auto simp: base_server_free_Ret master_server_free_def chunk_server_free_def keycenter_server_free_def
      slavenode_server_free_def sentinel_server_close_def gossiper_server_close_def)

section \<open>hiredis\<close>

text \<open>
  What the code relies on: a context with \<open>err\<close> set is never repaired, and a command on it sends
  nothing and gives the null reply.
\<close>

locale hiredis_laws =
  fixes K :: "('c, 'r) hiredis" and R :: "'c \<Rightarrow> 'r redis_ops"
  assumes broken_command: "rc_err K c = Some e \<Longrightarrow> rc_command K c t r = r"
    and broken_reply: "rc_err K c = Some e \<Longrightarrow> r_command (R c) cmd r = (R_null, r)"
begin

text \<open>Every handler of such a context refuses.\<close>

lemma broken_get_key:
  assumes "rc_err K c = Some e"
  shows "\<exists>reply. get_kyrin_key_handler P (R c) req r = (reply, r) \<and> \<not> is_ok reply"
  using broken_reply [OF assms] by (auto simp: get_kyrin_key_handler_def Let_def split: prod.split)

lemma broken_set_key:
  assumes "rc_err K c = Some e"
  shows "\<exists>reply. set_kyrin_key_handler P (R c) ssl sha req r = Ret (reply, r) \<and> \<not> is_ok reply"
  using broken_reply [OF assms] by (auto simp: set_kyrin_key_handler_def Let_def split: prod.split)

lemma broken_download:
  assumes "rc_err K c = Some e"
  shows "\<exists>reply. download_file_handler M (R c) req r = (reply, r) \<and> \<not> is_ok reply"
  using broken_reply [OF assms] by (auto simp: download_file_handler_def Let_def split: prod.split)

end

text \<open>
  A reference: a context is the text of its error, if any; nobody listens on port 0.
\<close>

definition ref_hiredis :: "(string option, string \<rightharpoonup> string) hiredis" where
  "ref_hiredis = \<lparr>rc_connect = (\<lambda>host port m. (Some (if port = 0 then Some ''Connection refused'' else None), m)),
     rc_err = (\<lambda>c. c), rc_command = (\<lambda>c t m. m)\<rparr>"

definition ref_context :: "string option \<Rightarrow> (string \<rightharpoonup> string) redis_ops" where
  "ref_context c = (case c of None \<Rightarrow> map_redis | Some e \<Rightarrow> dead_redis)"

interpretation ref_hiredis: hiredis_laws ref_hiredis ref_context
  by unfold_locales (auto simp: ref_hiredis_def ref_context_def dead_redis_def)

text \<open>
  The loop of the constructors ends when an attempt gives a context, and then with the first one;
  it looks at nothing else.
\<close>

fun attempts :: "('c, 'r) hiredis \<Rightarrow> string \<Rightarrow> u32 \<Rightarrow> nat \<Rightarrow> 'r \<Rightarrow> 'r" where
  "attempts K host port 0 r = r"
| "attempts K host port (Suc n) r = attempts K host port n (snd (rc_connect K host port r))"

lemma connect_loop_ends:
  assumes "rc_connect K host port (attempts K host port n r) = (Some c, r')"
  shows "\<exists>m \<le> n. \<exists>c' r''. rc_connect K host port (attempts K host port m r) = (Some c', r'')
    \<and> redis_connect_loop K host port r = Some (c', r'')"
  using assms
proof (induction n arbitrary: r)
  case 0
  then show ?case by (simp add: redis_connect_loop.simps)
next
  case (Suc n)
  obtain co r1 where one: "rc_connect K host port r = (co, r1)" by fastforce
  show ?case
  proof (cases co)
    case None
    then have "\<exists>m \<le> n. \<exists>c' r''. rc_connect K host port (attempts K host port m r1) = (Some c', r'')
        \<and> redis_connect_loop K host port r1 = Some (c', r'')"
      using Suc.IH [of r1] Suc.prems one by simp
    then obtain m c' r'' where "m \<le> n" "rc_connect K host port (attempts K host port m r1) = (Some c', r'')"
      "redis_connect_loop K host port r1 = Some (c', r'')" by blast
    then show ?thesis
      using None one by (intro exI [of _ "Suc m"]) (simp add: redis_connect_loop.simps [of K host port r])
  next
    case (Some c)
    then show ?thesis using one by (intro exI [of _ 0]) (simp add: redis_connect_loop.simps)
  qed
qed

lemma connect_loop_Some:
  assumes "redis_connect_loop K host port r = Some res"
  shows "\<exists>n. rc_connect K host port (attempts K host port n r) = (Some (fst res), snd res)"
proof (rule redis_connect_loop.raw_induct [OF _ assms], goal_cases)
  case (1 loop K host port r res)
  obtain co r1 where one: "rc_connect K host port r = (co, r1)" by fastforce
  show ?case
  proof (cases co)
    case None
    then obtain n where "rc_connect K host port (attempts K host port n r1) = (Some (fst res), snd res)"
      using 1(1) [of K host port r1 res] 1(2) one by auto
    then show ?thesis using one by (intro exI [of _ "Suc n"]) simp
  next
    case (Some c)
    then show ?thesis using 1(2) one by (intro exI [of _ 0]) auto
  qed
qed

section \<open>A start without redis\<close>

text \<open>
  C24: A program started while its redis is down never gets over it. \<open>redisConnect\<close> then gives a
  context with its error set; the loops of the three constructors take it at the first attempt,
  and from then on every registration, every look-up of a key and of a file is refused and
  changes nothing, whatever becomes of redis. On a slave node the copying thread has ended in
  silence, while \<open>main\<close> goes on to serve.
\<close>

theorem redis_down_at_start:
  assumes "hiredis_laws K R" and "rc_connect K (c_str host) port r = (Some c, r1)" and "rc_err K c = Some e"
    and "slavenode_redis_host (read_config_file file) = Ret host" and "slavenode_redis_port (read_config_file file) = Ret port"
  shows "get_kyrin_key_handler_new K (c_str host) port r = Some (c, r1)
    \<and> set_kyrin_key_handler_new K (c_str host) port r = Some (c, r1)
    \<and> download_file_handler_new K (c_str host) port r = Some (c, r1)
    \<and> (\<exists>reply. get_kyrin_key_handler P (R c) req r2 = (reply, r2) \<and> \<not> is_ok reply)
    \<and> (\<exists>reply. set_kyrin_key_handler Ps (R c) ssl sha req r2 = Ret (reply, r2) \<and> \<not> is_ok reply)
    \<and> (\<exists>reply. download_file_handler M (R c) req r2 = (reply, r2) \<and> \<not> is_ok reply)
    \<and> kyrin_slavenode_sync_func M C K R cl file rnds r w = Ret (None, r1, w)"
  using assms(2-5) hiredis_laws.broken_command [OF assms(1,3)] hiredis_laws.broken_get_key [OF assms(1,3)]
    hiredis_laws.broken_set_key [OF assms(1,3)] hiredis_laws.broken_download [OF assms(1,3)]
  by (simp_all add: get_kyrin_key_handler_new_def set_kyrin_key_handler_new_def download_file_handler_new_def
      redis_connect_loop.simps kyrin_slavenode_sync_func_def)

section \<open>The programs started\<close>

lemma chunk_failed:
  assumes "chunk_initialize S file cl (Some p) m0 s = Ret (False, m, s')"
  shows "cs_filter m = cs_filter m0 \<and> cs_keyinfo_db m = cs_keyinfo_db m0"
  using assms unfolding chunk_initialize_def Let_def
  by (simp, elim init_step) (auto elim!: obind_RetE)

text \<open>\<open>start_sync\<close> says the opposite of what happened; nobody asks.\<close>

lemma start_sync_inverted: "fst (start_sync T w) \<longleftrightarrow> fst (T Slavenode_sync_func w) \<noteq> 0"
  by (auto simp: start_sync_def split: prod.split)

text \<open>
  A started chunk server serves what it can. When its initialisation succeeds, four different
  sockets listen on the four configured ports, each path is served only on the socket made for it
  and the filter asks the configured key center; when it fails, the server starts all the same and
  every request is a call on a null pointer. When a thread of the gossiper could not be made the
  gossip status has stayed empty, and the server serves as ever.
\<close>

theorem chunk_main_serves:
  assumes "socket_laws S socks" and "chunk_main T S file cl now w s = Ret (gossiper, m, workers, w', s')"
    and "upload_chunk_file_port (read_config_file file) = Ret up" and "download_chunk_file_port (read_config_file file) = Ret dp"
    and "set_file_key_info_port (read_config_file file) = Ret sp" and "get_file_key_info_port (read_config_file file) = Ret gp"
  shows "(if cs_filter m = None then chunk_process E cb req (cs_filter m) st w'' = Undef
      else distinct [upload_chunk_file_fd m, download_chunk_file_fd m, set_file_key_info_fd m, get_file_key_info_fd m]
        \<and> (\<forall>(fd, port) \<in> {(upload_chunk_file_fd m, up), (download_chunk_file_fd m, dp),
              (set_file_key_info_fd m, sp), (get_file_key_info_fd m, gp)}.
            \<exists>k. socks s' fd = Some k \<and> accepts_on (ucast port) k)
        \<and> (\<exists>host port. get_keycenter_host cl = Ret host \<and> get_keycenter_get_key_port cl = Ret port
            \<and> cs_filter m = Some (rsa_helper_new (c_str host) port)))
    \<and> (routed workers fd path cb' \<longleftrightarrow> (fd, path, cb') \<in>
        {(upload_chunk_file_fd m, ''/UploadChunkFile'', Upload_chunk_callback),
         (download_chunk_file_fd m, ''/DownloadChunkFile'', Download_chunk_callback),
         (set_file_key_info_fd m, ''/SetFileKeyinfo'', Set_key_info_callback),
         (get_file_key_info_fd m, ''/GetFileKeyinfo'', Get_key_info_callback)})
    \<and> (if fst (T Gossip_server_thread_func w) \<noteq> 0
          \<or> fst (T Gossip_sync_func (snd (T Gossip_server_thread_func w))) \<noteq> 0
       then gossiper = status_new else start_gossip cl now status_new = Ret gossiper)"
proof -
  from assms(2) obtain ok b where init: "chunk_initialize S file cl (Some ()) chunk_new s = Ret (ok, m, s')"
    and workers: "workers = chunk_start m" and g: "start_gossip_threads T cl now status_new w = Ret (b, gossiper, w')"
    by (auto simp: chunk_main_def elim!: obind_RetE)
  have serves: "if cs_filter m = None then chunk_process E cb req (cs_filter m) st w'' = Undef
      else socket_laws.opened socks s [(upload_chunk_file_fd m, up), (download_chunk_file_fd m, dp),
          (set_file_key_info_fd m, sp), (get_file_key_info_fd m, gp)] s'
        \<and> (\<exists>host port. get_keycenter_host cl = Ret host \<and> get_keycenter_get_key_port cl = Ret port
            \<and> cs_filter m = Some (rsa_helper_new (c_str host) port))"
  proof (cases ok)
    case True
    with init have "chunk_initialize S file cl (Some ()) chunk_new s = Ret (True, m, s')" by simp
    from chunk_initialized [OF assms(1) this assms(3-6)] show ?thesis by auto
  next
    case False
    with init have "cs_filter m = None" using chunk_failed by (fastforce simp: chunk_new_def)
    then show ?thesis by (simp add: chunk_process_filtered filtered_def)
  qed
  have "if fst (T Gossip_server_thread_func w) \<noteq> 0
          \<or> fst (T Gossip_sync_func (snd (T Gossip_server_thread_func w))) \<noteq> 0
       then gossiper = status_new else start_gossip cl now status_new = Ret gossiper"
    using g by (auto simp: start_gossip_threads_def split: prod.splits if_splits elim!: obind_RetE)
  then show ?thesis
    using serves unfolding workers chunk_routes socket_laws.opened_def [OF assms(1)] by (auto split: if_splits)
qed

section \<open>Concrete runs\<close>

text \<open>A slave node whose configuration names port 0.\<close>

definition down_file :: string where
  "down_file = render ''x'' [(''SlavenodeRedisHost'', ''r''), (''SlavenodeRedisPort'', ''0'')]"

lemma down_config:
  "slavenode_redis_host (read_config_file (Some down_file)) = Ret ''r''"
  "slavenode_redis_port (read_config_file (Some down_file)) = Ret 0"
  by code_simp+

lemma redis_down_at_start_witness:
  "get_kyrin_key_handler_new ref_hiredis ''r'' 0 Map.empty = Some (Some ''Connection refused'', Map.empty)
    \<and> kyrin_slavenode_sync_func ref_codecs demo_center ref_hiredis ref_context (small_cluster 1) (Some down_file) [7] Map.empty ()
        = Ret (None, Map.empty, ())
    \<and> \<not> is_ok (fst (get_kyrin_key_handler ref_codec (ref_context (Some ''Connection refused'')) demo_request [''me'' \<mapsto> ''K'']))"
proof -
  have "rc_connect ref_hiredis (c_str ''r'') 0 Map.empty = (Some (Some ''Connection refused''), Map.empty)"
    and "rc_err ref_hiredis (Some ''Connection refused'') = Some ''Connection refused''"
    by (simp_all add: ref_hiredis_def)
  from redis_down_at_start [OF ref_hiredis.hiredis_laws_axioms this down_config, of ref_codec demo_request
      "[''me'' \<mapsto> ''K'']" admin_codec demo_ssl demo_sha ref_codecs demo_center "small_cluster 1" "[7]" "()"]
  show ?thesis by (auto simp: c_str_def)
qed

text \<open>A chunk server with ports 80 to 83.\<close>

definition up_file :: string where
  "up_file = render ''x'' [(''ChunkUploadChunkFilePort'', ''80''), (''ChunkDownloadChunkFilePort'', ''81''),
     (''ChunkSetFileKeyInfoPort'', ''82''), (''ChunkGetFileKeyInfoPort'', ''83'')]"

definition up_cluster :: cluster where
  "up_cluster = cluster_zero\<lparr>m_kbid := 3001, m_chunk_seed_count := 1,
     m_chunk_configs := [[(''ChunkKeyinfoDatabasePath'', ''i'')]],
     m_keycenter_config := [(''KeyCenterGetKyrinKeyPort'', ''90''), (''MachineAddress'', ''k'')]\<rparr>"

lemma up_config:
  "upload_chunk_file_port (read_config_file (Some up_file)) = Ret 80"
  "download_chunk_file_port (read_config_file (Some up_file)) = Ret 81"
  "set_file_key_info_port (read_config_file (Some up_file)) = Ret 82"
  "get_file_key_info_port (read_config_file (Some up_file)) = Ret 83"
  by code_simp+

text \<open>Its second thread cannot be made.\<close>

lemma up_runs:
  "chunk_main (\<lambda>f n. (if n = 0 then 0 else 11, n + 1)) kernel (Some up_file) up_cluster 0 (0 :: nat) [] = Ret
     (status_new,
      \<lparr>upload_chunk_file_fd = 3, download_chunk_file_fd = 4, set_file_key_info_fd = 5, get_file_key_info_fd = 6,
       cs_keyinfo_db = Some ''i'', cs_filter = Some (rsa_helper_new ''k'' 90)\<rparr>,
      [\<lparr>callbacks = [(''/UploadChunkFile'', Upload_chunk_callback)], accept_fds = [3]\<rparr>,
       \<lparr>callbacks = [(''/DownloadChunkFile'', Download_chunk_callback)], accept_fds = [4]\<rparr>,
       \<lparr>callbacks = [(''/SetFileKeyinfo'', Set_key_info_callback)], accept_fds = [5]\<rparr>,
       \<lparr>callbacks = [(''/GetFileKeyinfo'', Get_key_info_callback)], accept_fds = [6]\<rparr>], 2,
      map (\<lambda>p. Some \<lparr>bound = Some p, listening = True, flags = 2050\<rparr>) [80, 81, 82, 83])"
  by code_simp

lemma chunk_main_serves_witness:
  "\<exists>m workers w' s'. chunk_main (\<lambda>f n. (if n = 0 then 0 else 11, n + 1)) kernel (Some up_file) up_cluster 0 (0 :: nat) []
      = Ret (status_new, m, workers, w', s')
    \<and> routed workers 5 ''/SetFileKeyinfo'' Set_key_info_callback
    \<and> (\<exists>k. kernel_socks s' 5 = Some k \<and> accepts_on 82 k)"
  using chunk_main_serves [OF kernel.socket_laws_axioms up_runs up_config,
      where fd = 5 and path = "''/SetFileKeyinfo''" and cb' = Set_key_info_callback] up_runs
  by auto

end
