(* ===== verification/Gossip_Threads.thy ===== *)
theory Gossip_Threads
  imports Gossiper Interleavings
begin

text \<open>
  The two threads of a chunk server that share one view of the cluster: \<open>gossip_sync\<close> and the
  server that answers \<open>/GetStatus\<close>, \<open>server/chunk/kyrin_chunk_gossiper_status.cc\<close> statement by
  statement under its single mutex. The control lets each thread run any locked operation at any
  time: what \<open>get_random_*\<close> and \<open>get_timestamp\<close> read without the lock decides which, and is left
  open. Shown: the view is well-formed whenever the mutex is free, a published view is one the
  server really had although it is copied piece by piece, every operation ends, and
  what happens when a server says hello between the comparison of timestamps and the takeover.
\<close>

section \<open>The critical sections\<close>

text \<open>
  Where a thread is, with its local variables: \<open>check_commons\<close>, \<open>get_config\<close>, \<open>to_protobuf\<close> (the
  message under construction), \<open>set_item\<close> behind \<open>set_dead\<close> and \<open>set_alive\<close>, and \<open>from_string\<close> after the
  text was parsed.
\<close>

datatype gossip_local =
    Gossip_idle
  | Hello gossip_data u64 | Hello_counted gossip_data u64 bool | Hello_done bool
  | Lookup u32 chunk_conf | Looked_up bool chunk_conf
  | Publish | Publishing cluster_status | Published cluster_status
  | Mark u32 int u64 | Marked
  | Adopt cluster_status | Adopted

type_synonym gossip_statement = "status \<Rightarrow> gossip_local \<Rightarrow> status \<times> gossip_local"

definition when_new :: "(gossip_data \<Rightarrow> u64 \<Rightarrow> status \<Rightarrow> status) \<Rightarrow> gossip_statement" where
  "when_new f s l = (case l of Hello_counted d now True \<Rightarrow> (f d now s, l) | _ \<Rightarrow> (s, l))"

definition check_commons_code :: "gossip_data \<Rightarrow> u64 \<Rightarrow> gossip_statement list" where
  "check_commons_code d now =
     [\<lambda>s _. (s, Hello_counted d now (om_count (m_configs s) (gd_kbid d) = 0)),
      when_new (\<lambda>d now s. s\<lparr>m_commons := m_commons s @ [gd_kbid d]\<rparr>),
      when_new (\<lambda>d now s. s\<lparr>m_configs := om_set (gd_kbid d) (gd_conf d) (m_configs s)\<rparr>),
      when_new (\<lambda>d now s. s\<lparr>m_timestamp := now\<rparr>),
      \<lambda>s l. (s, case l of Hello_counted _ _ ret \<Rightarrow> Hello_done ret | _ \<Rightarrow> l)]"

definition get_config_code :: "u32 \<Rightarrow> chunk_conf \<Rightarrow> gossip_statement list" where
  "get_config_code kbid config =
     [\<lambda>s _. (s, case get_chunk_conf kbid config s of (ret, config') \<Rightarrow> Looked_up ret config')]"

text \<open>The fields of the message are filled one after the other.\<close>

definition fill :: "(status \<Rightarrow> cluster_status \<Rightarrow> cluster_status) \<Rightarrow> gossip_statement" where
  "fill f s l = (s, case l of Publishing m \<Rightarrow> Publishing (f s m) | _ \<Rightarrow> l)"

definition to_protobuf_code :: "gossip_statement list" where
  "to_protobuf_code =
     [\<lambda>s _. (s, Publishing (Cluster_status [] [] [] [] [] None)),
      fill (\<lambda>s m. Cluster_status (m_seeds s) (cs_commons m) (cs_dead_seeds m) (cs_dead_commons m) (cs_datas m) (cs_timestamp m)),
      fill (\<lambda>s m. Cluster_status (cs_seeds m) (m_commons s) (cs_dead_seeds m) (cs_dead_commons m) (cs_datas m) (cs_timestamp m)),
      fill (\<lambda>s m. Cluster_status (cs_seeds m) (cs_commons m) (m_dead_seeds s) (cs_dead_commons m) (cs_datas m) (cs_timestamp m)),
      fill (\<lambda>s m. Cluster_status (cs_seeds m) (cs_commons m) (cs_dead_seeds m) (m_dead_commons s) (cs_datas m) (cs_timestamp m)),
      fill (\<lambda>s m. Cluster_status (cs_seeds m) (cs_commons m) (cs_dead_seeds m) (cs_dead_commons m)
        (map (\<lambda>(k, c). Gossip_data k c) (m_configs s)) (cs_timestamp m)),
      fill (\<lambda>s m. Cluster_status (cs_seeds m) (cs_commons m) (cs_dead_seeds m) (cs_dead_commons m) (cs_datas m) (Some (m_timestamp s))),
      \<lambda>s l. (s, case l of Publishing m \<Rightarrow> Published m | _ \<Rightarrow> l)]"

definition set_item_code :: "u32 \<Rightarrow> int \<Rightarrow> u64 \<Rightarrow> gossip_statement list" where
  "set_item_code kbid flag now =
     [\<lambda>s l. (s\<lparr>m_timestamp := now\<rparr>, l),
      \<lambda>s _. (if flag = 1 then let (a, b) = move_item (m_seeds s) (m_dead_seeds s) kbid in s\<lparr>m_seeds := a, m_dead_seeds := b\<rparr>
        else if flag = 2 then let (a, b) = move_item (m_commons s) (m_dead_commons s) kbid in s\<lparr>m_commons := a, m_dead_commons := b\<rparr>
        else if flag = -1 then let (a, b) = move_item (m_dead_seeds s) (m_seeds s) kbid in s\<lparr>m_dead_seeds := a, m_seeds := b\<rparr>
        else let (a, b) = move_item (m_dead_commons s) (m_commons s) kbid in s\<lparr>m_dead_commons := a, m_commons := b\<rparr>, Marked)]"

definition from_string_code :: "cluster_status \<Rightarrow> gossip_statement list" where
  "from_string_code m =
     [\<lambda>s l. (s\<lparr>m_seeds := [], m_commons := [], m_dead_seeds := [], m_dead_commons := [], m_configs := []\<rparr>, l),
      \<lambda>s l. (s\<lparr>m_seeds := m_seeds s @ cs_seeds m\<rparr>, l),
      \<lambda>s l. (s\<lparr>m_commons := m_commons s @ cs_commons m\<rparr>, l),
      \<lambda>s l. (s\<lparr>m_dead_seeds := m_dead_seeds s @ cs_dead_seeds m\<rparr>, l),
      \<lambda>s l. (s\<lparr>m_dead_commons := m_dead_commons s @ cs_dead_commons m\<rparr>, l),
      \<lambda>s l. (s\<lparr>m_configs := fold (\<lambda>d. om_set (gd_kbid d) (gd_conf d)) (cs_datas m) (m_configs s)\<rparr>, l),
      \<lambda>s _. (s\<lparr>m_timestamp := (case cs_timestamp m of Some t \<Rightarrow> t | None \<Rightarrow> 0)\<rparr>, Adopted)]"

text \<open>Run without interference they are the operations of \<open>Gossip_Status\<close>.\<close>

lemma run_codes [simp]:
  "run_all (check_commons_code d now) s l = (snd (check_commons d now s), Hello_done (fst (check_commons d now s)))"
  "run_all (get_config_code k c) s l = (s, Looked_up (fst (get_chunk_conf k c s)) (snd (get_chunk_conf k c s)))"
  "run_all to_protobuf_code s l = (s, Published (to_protobuf s))"
  "flag \<in> {1, 2} \<Longrightarrow> run_all (set_item_code k flag now) s l = (set_dead k flag now s, Marked)"
  "flag \<in> {-1, -2} \<Longrightarrow> run_all (set_item_code k flag now) s l = (set_alive k flag now s, Marked)"
  "run_all (from_string_code m) s l = (of_message m, Adopted)"
  by (auto simp: check_commons_code_def when_new_def check_commons_def get_config_code_def to_protobuf_code_def fill_def
      to_protobuf_def set_item_code_def set_dead_def set_alive_def from_string_code_def of_message_def
      split: prod.splits bool.splits)

section \<open>The threads\<close>

text \<open>A flag of none of the four lists takes no lock and does nothing.\<close>

fun gossip_start :: "tid \<Rightarrow> gossip_local \<Rightarrow> (unit, status, gossip_local) program option" where
  "gossip_start t (Hello d now) = Some (critical (check_commons_code d now))"
| "gossip_start t (Lookup k c) = Some (critical (get_config_code k c))"
| "gossip_start t Publish = Some (critical to_protobuf_code)"
| "gossip_start t (Mark k flag now) =
     (if flag \<in> {1, 2, -1, -2} then Some (critical (set_item_code k flag now)) else None)"
| "gossip_start t (Adopt m) = Some (critical (from_string_code m))"
| "gossip_start t _ = None"

text \<open>\<open>peer m\<close>: another server may answer with the message \<open>m\<close>.\<close>

inductive gossip_react :: "(cluster_status \<Rightarrow> bool) \<Rightarrow> tid \<Rightarrow> gossip_local \<Rightarrow> gossip_local \<Rightarrow> bool" for peer t where
  "gossip_react peer t Gossip_idle (Hello d now)"
| "gossip_react peer t Gossip_idle (Lookup k c)"
| "gossip_react peer t Gossip_idle Publish"
| "gossip_react peer t Gossip_idle (Mark k flag now)"
| "gossip_react peer t Gossip_idle (Adopt m)" if "peer m"
| "gossip_react peer t (Hello_done ret) Publish"
| "gossip_react peer t (Looked_up ret c) Gossip_idle"
| "gossip_react peer t (Published m) Gossip_idle"
| "gossip_react peer t (Mark k flag now) Gossip_idle" if "flag \<notin> {1, 2, -1, -2}"
| "gossip_react peer t Marked Gossip_idle"
| "gossip_react peer t Adopted Gossip_idle"

inductive_cases gossip_reactE: "gossip_react peer t l l'"

abbreviation gossip_step where
  "gossip_step peer \<equiv> step gossip_start (gossip_react peer)"

interpretation gossip_threads: monitor gossip_start "gossip_react peer" for peer
  by unfold_locales (auto elim!: gossip_start.elims split: if_splits)

section \<open>The view under concurrency\<close>

definition views_ok :: "(cluster_status \<Rightarrow> bool) \<Rightarrow> status \<times> (tid \<Rightarrow> gossip_local) \<Rightarrow> bool" where
  "views_ok peer a \<longleftrightarrow> status_ok (fst a)
     \<and> (\<forall>t m. snd a t = Published m \<longrightarrow> (\<exists>v. status_ok v \<and> m = to_protobuf v))
     \<and> (\<forall>t m. snd a t = Adopt m \<longrightarrow> peer m)"

lemma views_ok_atomic:
  assumes "atomic gossip_start (gossip_react peer) a a'" and "views_ok peer a" and "\<forall>m. peer m \<longrightarrow> status_ok (of_message m)"
  shows "views_ok peer a'"
  using assms(1)
proof cases
  case (run t l "as" s s' x)
  have s: "status_ok s" using assms(2) run(1) by (simp add: views_ok_def)
  show ?thesis
  proof (cases "l t")
    case (Hello d now)
    then show ?thesis using run assms(2) check_commons_wf [OF s, of d now] by (auto simp: views_ok_def)
  next
    case (Mark k flag now)
    then have "flag \<in> {1, 2} \<or> flag \<in> {-1, -2}" using run(3) by (auto split: if_splits)
    then show ?thesis using Mark run assms(2) by (auto simp: views_ok_def)
  next
    case (Adopt m)
    then show ?thesis using run assms(2,3) by (auto simp: views_ok_def)
  qed (use run assms(2) s in \<open>auto simp: views_ok_def\<close>)
next
  case (react t l x s)
  then show ?thesis using assms(2) by (auto simp: views_ok_def elim!: gossip_reactE)
qed


text \<open>
  C28: A hello can be lost. The loop compares the timestamp of a view it received with its own
  without the mutex and takes the view over later. When another server says hello in between,
  the two threads can end with exactly the received view: the server that was just
  added and answered is gone and the timestamp runs backwards, although in either
  order of the whole turns the added server is kept.
\<close>

theorem lost_hello:
  assumes "parse Ps str = (True, m)" and "l t = Adopt m" and "l u = Hello d now" and "t \<noteq> u"
    and "m_timestamp s < m_timestamp (of_message m)" and "m_timestamp (of_message m) < now"
    and "status_ok s" and "gd_kbid d \<notin># members s"
    and "status_ok (of_message m)" and "gd_kbid d \<notin># members (of_message m)"
  shows "(gossip_step peer)\<^sup>*\<^sup>* (pool_new s l) (pool_new (of_message m) (l(u := Hello_done True, t := Adopted)))
    \<and> gd_kbid d \<in># members (adopt Ps str (snd (check_commons d now s)))
    \<and> gd_kbid d \<in># members (snd (check_commons d now (adopt Ps str s)))"
proof -
  let ?s = "snd (check_commons d now s)"
  have hello: "check_commons d now s = (True, ?s)" "m_timestamp ?s = now" "gd_kbid d \<in># members ?s"
    using check_commons_cases [OF assms(7), of d now] check_commons_wf [OF assms(7), of d now] assms(8) by auto
  have "atomic gossip_start (gossip_react peer) (s, l) (?s, l(u := Hello_done True))"
    by (rule atomic.run [where as = "critical (check_commons_code d now)"]) (use assms(3) hello(1) in \<open>simp_all add: prod_eq_iff\<close>)
  moreover have "atomic gossip_start (gossip_react peer) (?s, l(u := Hello_done True))
      (of_message m, (l(u := Hello_done True))(t := Adopted))"
    by (rule atomic.run [where as = "critical (from_string_code m)"]) (use assms(2,4) in simp_all)
  ultimately have "(gossip_step peer)\<^sup>*\<^sup>* (pool_new s l) (pool_new (of_message m) (l(u := Hello_done True, t := Adopted)))"
    by (intro gossip_threads.atomic_realised) (meson rtranclp.rtrancl_into_rtrancl rtranclp.rtrancl_refl)
  moreover have "gd_kbid d \<in># members (adopt Ps str ?s)"
    using assms(1) hello order.asym [OF assms(6)] by (auto simp: adopt_def from_string_def)
  moreover have "adopt Ps str s = of_message m"
    using assms(1,5) by (simp add: adopt_def from_string_def)
  then have "gd_kbid d \<in># members (snd (check_commons d now (adopt Ps str s)))"
    using check_commons_wf [OF assms(9), of d now] assms(10) by auto
  ultimately show ?thesis by blast
qed

section \<open>Concrete runs\<close>

lemma empty_view_ok: "status_ok status_new" "status_ok (status_new\<lparr>m_timestamp := n\<rparr>)" "gd_kbid d \<notin># members status_new"
  "gd_kbid d \<notin># members (status_new\<lparr>m_timestamp := n\<rparr>)"
  by (simp_all add: status_ok_def status_new_def dom_def members_def)


text \<open>Server 7 says hello at time 9, while a view of time 5 that does not know it is taken over.\<close>

lemma lost_hello_witness:
  "(gossip_step (\<lambda>_. False))\<^sup>*\<^sup>*
    (pool_new status_new ((\<lambda>_. Gossip_idle)(0 := Adopt (Cluster_status [] [] [] [] [] (Some 5)), 1 := Hello (Gossip_data 7 no_conf) 9)))
    (pool_new (status_new\<lparr>m_timestamp := 5\<rparr>) ((\<lambda>_. Gossip_idle)(1 := Hello_done True, 0 := Adopted)))"
proof -
  let ?m = "Cluster_status [] [] [] [] [] (Some 5)"
  let ?P = "\<lparr>ser = (\<lambda>_. (True, [])), parse = (\<lambda>_. (True, ?m))\<rparr> :: cluster_status codec"
  let ?l = "(\<lambda>_. Gossip_idle)(0 :: tid := Adopt ?m, 1 := Hello (Gossip_data 7 no_conf) 9)"
  have m: "of_message ?m = status_new\<lparr>m_timestamp := 5\<rparr>" by (simp add: of_message_def status_new_def)
  have f: "parse ?P [] = (True, ?m)" "?l 0 = Adopt ?m" "?l 1 = Hello (Gossip_data 7 no_conf) 9" "(0 :: tid) \<noteq> 1"
    "m_timestamp status_new < m_timestamp (of_message ?m)" "m_timestamp (of_message ?m) < (9 :: u64)"
    by (simp_all add: m, simp_all add: status_new_def)
  have ok: "status_ok (of_message ?m)" "gd_kbid (Gossip_data 7 no_conf) \<notin># members (of_message ?m)"
    unfolding m by (rule empty_view_ok)+
  have "(gossip_step (\<lambda>_. False))\<^sup>*\<^sup>* (pool_new status_new ?l) (pool_new (of_message ?m) (?l(1 := Hello_done True, 0 := Adopted)))"
    using lost_hello [where l = ?l and t = 0 and u = 1, OF f empty_view_ok(1,3) ok] by blast
  moreover have "?l(1 := Hello_done True, 0 := Adopted) = (\<lambda>_. Gossip_idle)(1 := Hello_done True, 0 := Adopted)"
    by (auto simp: fun_eq_iff)
  ultimately show ?thesis using m by metis
qed

end
