(* ===== verification/Lru_Threads.thy ===== *)
theory Lru_Threads
  imports Lru_Cache Interleavings
begin

text \<open>
  \<open>src/common/kyrin_lru_cache.h\<close> used by several threads: both operations statement by statement under
  \<open>m_lock\<close>. The workers of a server share the key cache of their signature checker. Any
  interleaving is free of undefined behaviour and behaves as some sequence of whole
  operations on the list in recency order, so the cache is thread safe, whatever its
  comment says.
\<close>

section \<open>The operations\<close>

text \<open>
  Where a thread is, with the iterator \<open>finder\<close>; None is \<open>end()\<close>. The shared object is an outcome:
  a dangling iterator makes it \<open>Undef\<close>.
\<close>

datatype ('k, 'v) lru_local =
    Lru_idle
  | Get_call 'k | Get_found "nat option" | Get_ret "'v option"
  | Set_call 'k 'v | Set_found 'k 'v "nat option" | Set_evict 'k 'v | Set_room 'k 'v | Set_ret

type_synonym ('k, 'v) lru_statement =
  "('k, 'v) lru outcome \<Rightarrow> ('k, 'v) lru_local \<Rightarrow> ('k, 'v) lru outcome \<times> ('k, 'v) lru_local"

definition on_cache ::
  "(('k, 'v) lru \<Rightarrow> ('k, 'v) lru_local \<Rightarrow> ('k, 'v) lru outcome \<times> ('k, 'v) lru_local) \<Rightarrow> ('k, 'v) lru_statement" where
  "on_cache f o' l = (case o' of Ret c \<Rightarrow> f c l | _ \<Rightarrow> (o', l))"

definition lru_get_code :: "'k :: linorder \<Rightarrow> ('k, 'v) lru_statement list" where
  "lru_get_code key =
     [on_cache (\<lambda>c _. (Ret c, Get_found (om_find (m_map c) key))),
      on_cache (\<lambda>c l. case l of
          Get_found None \<Rightarrow> (Ret c, Get_ret None)
        | Get_found (Some a) \<Rightarrow>
            (case node_at a (m_data c) of
               None \<Rightarrow> (Undef, l)
             | Some (k, v) \<Rightarrow> (Ret (c\<lparr>m_data := (a, k, v) # node_erase a (m_data c)\<rparr>), Get_ret (Some v)))
        | _ \<Rightarrow> (Ret c, l))]"

definition lru_set_code :: "'k :: linorder \<Rightarrow> 'v \<Rightarrow> ('k, 'v) lru_statement list" where
  "lru_set_code key value =
     [on_cache (\<lambda>c _. (Ret c, Set_found key value (om_find (m_map c) key))),
      on_cache (\<lambda>c l. case l of
          Set_found k v (Some a) \<Rightarrow>
            if node_at a (m_data c) = None then (Undef, l)
            else (Ret (c\<lparr>m_data := node_erase a (m_data c)\<rparr>), l)
        | Set_found k v None \<Rightarrow>
            if lru_full c then
              if m_data c = [] then (Undef, l)
              else (Ret (c\<lparr>m_map := om_erase (fst (snd (last (m_data c)))) (m_map c)\<rparr>), Set_evict k v)
            else (Ret c, Set_room k v)
        | _ \<Rightarrow> (Ret c, l)),
      on_cache (\<lambda>c l. case l of
          Set_found k v (Some a) \<Rightarrow> (Ret (c\<lparr>m_map := om_erase k (m_map c)\<rparr>), l)
        | Set_evict k v \<Rightarrow> (Ret (c\<lparr>m_data := butlast (m_data c)\<rparr>), l)
        | _ \<Rightarrow> (Ret c, l)),
      on_cache (\<lambda>c l. (Ret (c\<lparr>m_data := (next_node c, key, value) # m_data c, next_node := Suc (next_node c)\<rparr>), l)),
      on_cache (\<lambda>c _. (Ret (c\<lparr>m_map := om_set key (fst (hd (m_data c))) (m_map c)\<rparr>), Set_ret))]"

lemma run_lru_codes:
  "lru_get k c = Ret (r, c') \<Longrightarrow> run_all (lru_get_code k) (Ret c) l = (Ret c', Get_ret r)"
  "lru_set k v c = Ret c' \<Longrightarrow> run_all (lru_set_code k v) (Ret c) l = (Ret c', Set_ret)"
  by (auto simp: lru_get_code_def lru_set_code_def on_cache_def lru_get_def lru_set_def lru_push_def
      split: option.splits if_splits)

section \<open>The threads\<close>

fun lru_start :: "tid \<Rightarrow> ('k :: linorder, 'v) lru_local \<Rightarrow> (unit, ('k, 'v) lru outcome, ('k, 'v) lru_local) program option" where
  "lru_start t (Get_call k) = Some (critical (lru_get_code k))"
| "lru_start t (Set_call k v) = Some (critical (lru_set_code k v))"
| "lru_start t _ = None"

inductive lru_react :: "tid \<Rightarrow> ('k, 'v) lru_local \<Rightarrow> ('k, 'v) lru_local \<Rightarrow> bool" for t where
  "lru_react t Lru_idle (Get_call k)"
| "lru_react t Lru_idle (Set_call k v)"
| "lru_react t (Get_ret r) Lru_idle"
| "lru_react t Set_ret Lru_idle"

interpretation lru_threads: monitor lru_start lru_react
  by unfold_locales (auto elim!: lru_start.elims)

text \<open>The same calls on the list in recency order.\<close>

inductive lru_spec_step ::
  "nat \<Rightarrow> ('k \<times> 'v) list \<times> (tid \<Rightarrow> ('k, 'v) lru_local) \<Rightarrow> ('k \<times> 'v) list \<times> (tid \<Rightarrow> ('k, 'v) lru_local) \<Rightarrow> bool" for cap where
  get: "lru_spec_step cap (xs, l) (snd (spec_get k xs), l(t := Get_ret (fst (spec_get k xs))))" if "l t = Get_call k"
| set: "lru_spec_step cap (xs, l) (spec_set cap k v xs, l(t := Set_ret))" if "l t = Set_call k v"
| react: "lru_spec_step cap (xs, l) (xs, l(t := x))" if "lru_react t (l t) x"

lemma atomic_refines:
  assumes "atomic lru_start lru_react (Ret c, l) a" and "lru_ok c"
  obtains c' l' where "a = (Ret c', l')" "lru_ok c'" "m_capacity c' = m_capacity c"
    "lru_spec_step (nat (m_capacity c)) (lru_abs c, l) (lru_abs c', l')"
  using assms(1)
proof cases
  case (run t "as" s' x)
  show ?thesis
  proof (cases "l t")
    case (Get_call k)
    obtain c' where "lru_get k c = Ret (fst (spec_get k (lru_abs c)), c')" "lru_ok c'"
      "lru_abs c' = snd (spec_get k (lru_abs c))" "m_capacity c' = m_capacity c"
      using lru_get_Ret [OF assms(2)] by blast
    then show ?thesis
      using run Get_call lru_spec_step.get [of l t k _ "lru_abs c"] run_lru_codes(1) that by force
  next
    case (Set_call k v)
    obtain c' where "lru_set k v c = Ret c'" "lru_ok c'"
      "lru_abs c' = spec_set (nat (m_capacity c)) k v (lru_abs c)" "m_capacity c' = m_capacity c"
      using lru_set_Ret [OF assms(2)] by blast
    then show ?thesis
      using run Set_call lru_spec_step.set [of l t k v "nat (m_capacity c)" "lru_abs c"] run_lru_codes(2) that by force
  qed (use run in simp_all)
next
  case (react t x)
  then show ?thesis using that [of c] assms(2) lru_spec_step.react by blast
qed

text \<open>
  C34: The cache is thread safe. However the statements of threads calling \<open>get\<close> and \<open>set\<close> on a new
  cache are interleaved, no iterator ever dangles, and whenever no call is under way the
  cache and the values returned are those of some sequence of the calls on the
  recency-ordered list, each thread's own calls in its order.
\<close>

theorem lru_thread_safe:
  assumes "1 \<le> cap" and "cap < 2 ^ 31"
    and "(step lru_start lru_react)\<^sup>*\<^sup>* (pool_new (Ret (lru_new cap)) (\<lambda>_. Lru_idle)) p" and "\<forall>t. code p t = []"
  shows "\<exists>c. shared p = Ret c \<and> lru_ok c \<and> (lru_spec_step (nat cap))\<^sup>*\<^sup>* ([], \<lambda>_. Lru_idle) (lru_abs c, locals p)"
proof -
  have "(atomic lru_start lru_react)\<^sup>*\<^sup>* (Ret (lru_new cap), \<lambda>_. Lru_idle) (shared p, locals p)"
    by (rule lru_threads.serialised [OF assms(3)]) (use assms(4) in simp)
  moreover have "\<exists>c l. a = (Ret c, l) \<and> lru_ok c \<and> m_capacity c = cap
      \<and> (lru_spec_step (nat cap))\<^sup>*\<^sup>* ([], \<lambda>_. Lru_idle) (lru_abs c, l)"
    if "(atomic lru_start lru_react)\<^sup>*\<^sup>* (Ret (lru_new cap), \<lambda>_. Lru_idle) a" for a
    using that
  proof (induction rule: rtranclp_induct)
    case base
    show ?case using lru_ok_new [OF assms(1,2)] by (intro exI [of _ "lru_new cap"]) (simp add: lru_abs_def lru_new_def)
  next
    case (step a b)
    then obtain c l where c: "a = (Ret c, l)" "lru_ok c" "m_capacity c = cap"
      "(lru_spec_step (nat cap))\<^sup>*\<^sup>* ([], \<lambda>_. Lru_idle) (lru_abs c, l)" by blast
    from step.hyps(2) [unfolded c(1)] c(2) obtain c' l' where "b = (Ret c', l')" "lru_ok c'" "m_capacity c' = m_capacity c"
      "lru_spec_step (nat (m_capacity c)) (lru_abs c, l) (lru_abs c', l')" by (rule atomic_refines)
    then show ?case using c(3,4) by (auto intro: rtranclp.rtrancl_into_rtrancl)
  qed
  ultimately show ?thesis by fastforce
qed

text \<open>Thread 0 stores a value, thread 1 finds it.\<close>

definition one_entry :: "(nat, string) lru" where
  "one_entry = \<lparr>m_capacity = 1, m_map = [(7, 0)], m_data = [(0, 7, ''x'')], next_node = 1\<rparr>"

lemma one_entry_run:
  "(atomic lru_start lru_react)\<^sup>*\<^sup>* (Ret (lru_new 1), \<lambda>_. Lru_idle)
    (Ret one_entry, (\<lambda>_. Lru_idle)(0 := Set_ret, 1 := Get_ret (Some ''x'')))"
proof -
  let ?l0 = "\<lambda>_. Lru_idle :: (nat, string) lru_local"
  let ?l1 = "?l0(0 := Set_call 7 ''x'')" and ?l2 = "?l0(0 := Set_ret)"
  let ?l3 = "?l2(1 := Get_call 7)" and ?l4 = "?l2(1 := Get_ret (Some ''x''))"
  have ops: "lru_set 7 ''x'' (lru_new 1) = Ret one_entry" "lru_get 7 one_entry = Ret (Some ''x'', one_entry)"
    by code_simp+
  have "atomic lru_start lru_react (Ret (lru_new 1), ?l0) (Ret (lru_new 1), ?l1)"
    by (rule atomic.react) (simp add: lru_react.intros)
  moreover have "atomic lru_start lru_react (Ret (lru_new 1), ?l1) (Ret one_entry, ?l1(0 := Set_ret))"
    by (rule atomic.run [where as = "critical (lru_set_code 7 ''x'')"]) (simp_all add: run_lru_codes(2) [OF ops(1)])
  moreover have "atomic lru_start lru_react (Ret one_entry, ?l2) (Ret one_entry, ?l3)"
    by (rule atomic.react) (simp add: lru_react.intros)
  moreover have "atomic lru_start lru_react (Ret one_entry, ?l3) (Ret one_entry, ?l3(1 := Get_ret (Some ''x'')))"
    by (rule atomic.run [where as = "critical (lru_get_code 7)"]) (simp_all add: run_lru_codes(1) [OF ops(2)])
  ultimately show ?thesis by (simp add: converse_rtranclp_into_rtranclp)
qed

lemma lru_thread_safe_witness:
  "\<exists>c. (lru_spec_step 1)\<^sup>*\<^sup>* ([], \<lambda>_. Lru_idle)
    (lru_abs c, (\<lambda>_. Lru_idle)(0 := Set_ret, 1 := Get_ret (Some ''x'')) :: tid \<Rightarrow> (nat, string) lru_local)"
proof -
  let ?p = "pool_new (Ret one_entry) ((\<lambda>_. Lru_idle)(0 := Set_ret, 1 := Get_ret (Some ''x'')))
    :: (unit, (nat, string) lru outcome, (nat, string) lru_local) pool"
  have "(step lru_start lru_react)\<^sup>*\<^sup>* (pool_new (Ret (lru_new 1)) (\<lambda>_. Lru_idle)) ?p"
    by (rule lru_threads.atomic_realised [OF one_entry_run])
  from lru_thread_safe [OF _ _ this] show ?thesis by (auto simp: pool_new_def)
qed

end
