(* ===== verification/Logging.thy ===== *)
theory Logging
  imports Prelude
begin

text \<open>
  \<open>src/common/kyrin_log.{h,cc}\<close>: the log file \<open>kyrinbox.log\<close> every program appends its remarks to.
  The file system is a parameter: \<open>fopen\<close> is whether the file could be opened for appending. The
  other theories leave the calls of \<open>log\<close> out, since nothing reads the file back.
\<close>

text \<open>
  \<open>kyrin_log\<close>: the one instance, once it is made (whether its \<open>m_log_fp\<close> is not
  the null pointer); \<open>log_text\<close>: what the file holds.
\<close>

record log_state =
  kyrin_log :: "bool option"
  log_text :: string

definition log_get_instance :: "bool \<Rightarrow> log_state \<Rightarrow> log_state" where
  "log_get_instance fopen s =
     (if kyrin_log s = None then s\<lparr>kyrin_log := Some fopen\<rparr> else s)"

text \<open>\<open>asctime\<close> ends its text with a newline, which is cut off; \<open>fprintf\<close> to the null pointer is undefined.\<close>

definition log_write :: "string \<Rightarrow> string \<Rightarrow> string \<Rightarrow> log_state \<Rightarrow> log_state outcome" where
  "log_write asctime key msg s =
     (case kyrin_log s of
        Some True \<Rightarrow> Ret (s\<lparr>log_text := log_text s @ ''['' @ butlast asctime @ ''] ['' @ c_str key @ ''] '' @ c_str msg @ [CHR 0x0A]\<rparr>)
      | _ \<Rightarrow> Undef)"

fun log_writes :: "(string \<times> string \<times> string) list \<Rightarrow> log_state \<Rightarrow> log_state outcome" where
  "log_writes [] s = Ret s"
| "log_writes ((t, key, msg) # es) s = obind (log_write t key msg s) (log_writes es)"

text \<open>
  The first \<open>get_instance\<close> decides for good: the file opened, every remark becomes one line behind
  what the file already held; not opened, the first remark is undefined.
\<close>

lemma log_get_instance_once: "log_get_instance b (log_get_instance a s) = log_get_instance a s"
  by (simp add: log_get_instance_def)

lemma log_writes_append:
  assumes "kyrin_log s = None"
  shows "log_writes es (log_get_instance fopen s) =
    (if es = [] \<or> fopen
     then Ret ((log_get_instance fopen s)\<lparr>log_text := log_text s
       @ concat (map (\<lambda>(t, key, msg). ''['' @ butlast t @ ''] ['' @ c_str key @ ''] '' @ c_str msg @ [CHR 0x0A]) es)\<rparr>)
     else Undef)"
proof -
  have run: "log_writes es s' = Ret (s'\<lparr>log_text := log_text s'
      @ concat (map (\<lambda>(t, key, msg). ''['' @ butlast t @ ''] ['' @ c_str key @ ''] '' @ c_str msg @ [CHR 0x0A]) es)\<rparr>)"
    if "kyrin_log s' = Some True" for s'
    using that
  proof (induction es arbitrary: s')
    case (Cons e es)
    then show ?case by (cases e) (simp add: log_write_def)
  qed simp
  show ?thesis
  proof (cases fopen)
    case True
    then show ?thesis using run assms by (simp add: log_get_instance_def)
  next
    case False
    then show ?thesis
    proof (cases es)
      case (Cons e es)
      then show ?thesis using assms False by (cases e) (simp add: log_get_instance_def log_write_def)
    qed (simp add: log_get_instance_def assms)
  qed
qed

end
