(* ===== verification/Spec2Isabelle.thy ===== *)
theory Spec2Isabelle
  imports Auth Replication Chunk_Files Startup Gossip_Threads Lru_Threads Logging
begin

text \<open>
  KyrinBox: a distributed file store in C++ (the directory \<open>src/\<close>).

  The program. Clients upload a file's description to the leader of the master servers
  (\<open>/UploadFile\<close>). The leader picks three chunk servers from the view of one of them, agrees
  with the other masters in two phases (\<open>/ConfirmOplog\<close>) and records the operation in its log
  and the file's record in its user data, two LevelDB stores. Slave nodes copy the log
  (\<open>/GetOplog\<close>) into redis and answer \<open>/DownloadFile\<close>. Chunk servers keep the pieces and the
  key infos of files and spread their view of the cluster by gossip. The key center keeps
  public keys in redis; master and chunk servers ask it to examine the signature of requests.
  The masters elect their leader by exchanging votes (\<open>/GetVote\<close>).

  Reading order and what each theory models (sources under \<open>src/\<close>):

  \<^item> \<open>Prelude\<close>: machine types, C strings, the outcome of a C++ call (returns, never returns,
    undefined), replies. \<open>Std_Map\<close>: \<open>std::map\<close> as a sorted association list behind the locale
    \<open>ordered_map\<close>. \<open>Text_Format\<close>: \<open>printf\<close>, \<open>atoi\<close> and \<open>sscanf\<close> as the code uses them.
    \<open>Logging\<close> (\<open>kyrin_log\<close>): the log file, which no other theory writes to.
  \<^item> \<open>Base64\<close>, \<open>Op_Id\<close>, \<open>Lru_Cache\<close> (\<open>common/crypto\<close>, \<open>kyrin_lexicographically_helper.h\<close>,
    \<open>kyrin_lru_cache.h\<close>): the pure helpers. The encoder computes the text of RFC 4648 and the decoder
    inverts it; ids count in byte order; the cache refines a recency-ordered list.
  \<^item> \<open>Config_Files\<close>, \<open>Cluster\<close> (\<open>common/configs\<close>, \<open>kyrin_cluster\<close>): configuration files and the
    lookups in them, with the round trip of the reader and the bounds of the lookups.
  \<^item> \<open>Database\<close>, \<open>Http_Client\<close>, \<open>Protobuf\<close>, \<open>Redis\<close>, \<open>Sockets\<close>: the interfaces to libraries and the
    operating system, each a record of operations with a locale for its documented behaviour and an
    interpretation on an executable instance; \<open>Database\<close> and \<open>Http_Client\<close> also hold the wrappers of
    \<open>io/\<close>, \<open>Sockets\<close> the opening of a listening socket in \<open>kyrin_base_server.cc\<close>.
  \<^item> \<open>Base_Server\<close>, \<open>Auth\<close> (\<open>kyrin_base_server.cc\<close>, \<open>kyrin_rsa.cc\<close>, \<open>kyrin_rsa_helper\<close>, the identity
    filter): reading requests and examining their signatures. A request passes only when the
    key of its issuer decrypts its signature to the digest of timestamp and body.
  \<^item> \<open>Gossip_Status\<close>, \<open>Gossiper\<close> (\<open>server/chunk\<close>): the view of the cluster, its invariant, its
    text form, and the rounds that exchange it.
  \<^item> \<open>Sentinel\<close> (\<open>kyrin_master_sentinel\<close>): the election as a step function between two sleeps, its
    refinement of an abstract election, safety (a majority in every election) and convergence
    in a connected cluster within two turns. \<open>Leadership\<close>: elected clusters never move again, and a
    run in which a broken and repaired link leaves two leaders for good.
  \<^item> \<open>Oplog_Base\<close>, \<open>Upload_File\<close>, \<open>Get_Oplog\<close>, \<open>Confirm_Oplog\<close> (\<open>server/request_handlers\<close>): the masters'
    handlers, branch by branch. \<open>Small_Cluster\<close>: a deployment for concrete runs.
  \<^item> \<open>Replication\<close>: the handlers over a network of masters. Uploads keep the masters in step;
    resynchronisation works for gaps of at most a hundred entries and fails for larger ones.
  \<^item> \<open>Key_Center\<close>, \<open>Chunk_Files\<close>, \<open>Slavenode\<close>: the handlers of the other servers and the copying
    loop of the slave node.
  \<^item> \<open>Servers\<close> (\<open>server/*/kyrin_*_server.cc\<close>): initialisation, routes, workers and filters;
    runs of a chunk server refine a guarded store.
  \<^item> \<open>Startup\<close> (the \<open>main\<close> functions, the constructors that connect to redis, \<open>start_*\<close>,
    \<open>server_free\<close>): how the programs come up and go down; what a start without redis means.
  \<^item> \<open>Locks\<close>, \<open>Interleavings\<close> (\<open>kyrin_lock.h\<close>): threads that lock, unlock and run statements, one action
    at a time. Three locales prove once what a locking discipline gives: \<open>guarded_threads\<close> (two-phase
    locking: no race, and every interleaving is one of whole operations, by a forward simulation),
    \<open>ordered_threads\<close> (mutexes taken in one order: no deadlock), \<open>monitor\<close> (one mutex).
  \<^item> \<open>Sentinel_Threads\<close>, \<open>Gossip_Threads\<close>, \<open>Lru_Threads\<close>: the sentinel with its four mutexes, the
    gossip view and the LRU cache as interpretations of these locales on the code, statement by statement.
    The sequential theories \<open>Sentinel\<close>, \<open>Gossiper\<close> and \<open>Lru_Cache\<close> are tied to them: a turn of the loop,
    an answered ticket and each operation are runs of the threads. What the mutexes do not
    cover is shown by runs too: an election in an epoch nobody voted in, a lost hello.
  \<^item> This theory: properties of the whole, from upload to the slave node's redis, and what the
    missing filter on \<open>/ConfirmOplog\<close> allows.

  Correspondence. A class is a record, a method a function from the state to the result and the new
  state; an integer is a word of its width; \<open>string\<close> is a list of 8-bit characters; reading out
  of range, a null pointer or a buffer overflow is \<open>Undef\<close>, a loop that spins is \<open>Diverge\<close>.
  The singleton \<open>KyrinCluster\<close>, values of \<open>rand()\<close> and the clock are arguments.

  Parameters. libcurl (\<open>curl_ops\<close>), LevelDB (\<open>leveldb_ops\<close>), hiredis (\<open>redis_ops\<close>), OpenSSL
  (\<open>openssl\<close>, SHA-1 as a function), protobuf (\<open>codec\<close>), the file system (\<open>file_ops\<close>), the socket
  calls (\<open>sock_ops\<close>), the creation of threads and the connections of hiredis (\<open>hiredis\<close>).
  Theorems assume of them only the locales \<open>leveldb\<close>, \<open>reliable_db\<close>, \<open>redis_laws\<close>, \<open>redis_up\<close>,
  \<open>hiredis_laws\<close>, \<open>message_codec\<close>, \<open>file_laws\<close>, \<open>socket_laws\<close>; each has an instance.

  Fuel and bounds. \<open>Confirm_Oplog.update_loop\<close> counts turns of a \<open>while (true)\<close>; the theorems on it
  give the number that is enough (a hundred entries a turn) or show that no number is.
  \<open>Sentinel.run_turns\<close> is the number of turns taken, not a bound. The loop that waits for
  redis is a partial function: it returns when some attempt gives a context. All other loops are
  structurally recursive or have a termination proof. Ids are bounded by \<open>2 ^ 64\<close>.

  Not modelled. Outside the three theories on threads each handler runs to its end before the
  next one, though a server's workers share its databases without a mutex (a reconnection deletes
  the connection others may be using). Accesses without a mutex to guarded members (the epoch
  compared in \<open>sentinel_sync\<close>, the choice of gossip partners, \<open>get_timestamp\<close>) are data races of
  the code: the thread theories leave their results open. \<open>Gossip_Threads\<close> starts behind
  \<open>initialize\<close>, though the threads already run when it is called. Sleeps and the inside of the
  event loops are left out. The remarks written to the log are not part of the handlers. The
  C++ client SDK does not compile. The Python SDK, the web console, deployment scripts and test
  programs are clients of the program; macros have no effect on results.
\<close>

section \<open>From upload to download\<close>

lemma fold_om_set_find:
  "om_ok m \<Longrightarrow> om_find (fold (\<lambda>(key, _, data). om_set key data) us m)
    = fold (\<lambda>(key, _, data) t. t(key \<mapsto> data)) us (om_find m)"
proof (induction us arbitrary: m)
  case (Cons u us)
  obtain key response data where u: "u = (key, response, data)" by (cases u)
  have "om_find (om_set key data m) = (om_find m)(key \<mapsto> data)"
    using Cons.prems by (simp add: om_find_om_set fun_eq_iff)
  then show ?case using Cons.IH [OF om_ok_om_set [OF Cons.prems, of key data]] u by simp
qed simp


section \<open>What is not protected\<close>

lemma unsigned_upload_refused:
  assumes "ms_filter m = Some h"
  shows "\<exists>r. process_upload_file_request P ssl sha M Ps C L cl rnd draws sentinel (post_of body) m s w
    = Ret (r, m, s, w) \<and> \<not> is_ok r"
proof -
  have "\<nexists>issuer sig payload. signed_parts (post_of body) issuer sig payload"
    by (simp add: signed_parts_def post_of_def)
  then obtain r where "filter_request P C ssl sha (post_of body) h w = Ret (Some r, h, w)" "\<not> is_ok r"
    using filter_request_no_parts [of "post_of body" P C ssl sha h w] by blast
  then show ?thesis using assms by (simp add: process_upload_file_request_def filtered_def)
qed

text \<open>
  C9: The filter can be walked around. Two posts to \<open>/ConfirmOplog\<close> without any header, a
  proposal under the follower's next id and its commit, make a follower with working stores
  record any upload the sender likes, while no post without headers to \<open>/UploadFile\<close> is ever
  answered 200 or changes anything.
\<close>

theorem unsigned_confirm_writes:
  assumes "reliable_db L stored" and "faithful M" and "get_status sentinel \<noteq> K_status_leader" and "dbs_up s"
    and "log_ok stored n s" and "Suc n < 2 ^ 64" and "uploadable M n (key, response, data)"
    and "ms_filter m = Some h" and "ms_oplog_db m \<noteq> None"
    and "propose = post_of (phase_post M (Operation_log_message (Some 1) (Some (op_id n)) (Some (upload_op_log M key response))))"
    and "confirm = post_of (phase_post M (Operation_log_message (Some 2) (Some (op_id n)) None))"
  shows "(\<exists>r1 st1 s1 r2 st2 s2.
      process_confirm_oplog_request M Cf L cl fuel sentinel propose m st s () = Ret (r1, st1, s1, ())
      \<and> process_confirm_oplog_request M Cf L cl fuel sentinel confirm m st1 s1 () = Ret (r2, st2, s2, ())
      \<and> log_ok stored (Suc n) s2 \<and> files_of stored s2 = om_set key data (files_of stored s))
    \<and> (\<forall>body. \<exists>r. process_upload_file_request P ssl sha M Ps C L cl rnd draws sentinel (post_of body) m s w = Ret (r, m, s, w)
        \<and> \<not> is_ok r)"
proof -
  let ?op_log = "upload_op_log M key response" and ?item = "item_of M (key, response, data)"
  have run: "confirm_oplog_handler M Cf L cl fuel sentinel (post_of body) (fst x) (snd x) () = Ret (reply, fst y, snd y, ())"
    if "run_follower M Cf L (\<lambda>_. cl) fuel (\<lambda>_. sentinel) 1 body x = Some (reply, y)" for body x reply y
    using that by (auto simp: run_follower_def split: outcome.splits)
  have u: "fst (ser (c_operation M) (Upload_file_operation (Some key) (Some response)))"
    "ser (c_oplog M) ?op_log = (True, ?item)" "ser (c_response M) response = (True, data)"
    "postable M (Operation_log_message (Some 1) (Some (op_id n)) (Some ?op_log))"
    "postable M (Operation_log_message (Some 2) (Some (op_id n)) None)"
    using assms(7) by (simp_all add: uploadable_def item_of_def prod_eq_iff)
  obtain s' where s': "log_of stored s' = om_set (op_id n) ?item (log_of stored s)"
    "files_of stored s' = om_set key data (files_of stored s)"
    using record_operation_works [OF assms(1,4)] by blast
  have "in_step stored s (st, s)" using assms(4) by (simp add: in_step_def)
  from follower_proposes [where i = 1 and sents = "\<lambda>_. sentinel" and cl_of = "\<lambda>_. cl" and Cf = Cf and fuel = fuel,
      OF assms(1,2) assms(3) assms(5) refl u(4) this] obtain r1 y1 where
    1: "run_follower M Cf L (\<lambda>_. cl) fuel (\<lambda>_. sentinel) 1
        (phase_post M (Operation_log_message (Some 1) (Some (op_id n)) (Some ?op_log))) (st, s) = Some (r1, y1)"
      "in_step stored s y1" "fst y1 = \<lparr>m_state = True, m_state_id = op_id n, m_state_data = ?op_log\<rparr>" by blast
  from follower_commits [where i = 1 and sents = "\<lambda>_. sentinel" and cl_of = "\<lambda>_. cl" and Cf = Cf and fuel = fuel,
      OF assms(1,2) assms(3) refl u(1-3) refl u(5) 1(2,3) s'] obtain r2 y2 where
    2: "run_follower M Cf L (\<lambda>_. cl) fuel (\<lambda>_. sentinel) 1
        (phase_post M (Operation_log_message (Some 2) (Some (op_id n)) None)) y1 = Some (r2, y2)"
      "in_step stored s' y2" by blast
  have "log_ok stored (Suc n) s'"
    using log_ok_append [OF reliable_db.axioms(1) [OF assms(1)] assms(5) s'(1) assms(6)] by blast
  then have "log_ok stored (Suc n) (snd y2)" "files_of stored (snd y2) = om_set key data (files_of stored s)"
    using 2(2) s'(2) by (simp_all add: in_step_def log_ok_def)
  then show ?thesis
    using run [OF 1(1)] run [OF 2(1)] unsigned_upload_refused [OF assms(8)] assms(9,10,11)
    by (auto simp: process_confirm_oplog_request_def)
qed

section \<open>Concrete runs\<close>

text \<open>The small deployment, with pages that can always be written.\<close>

definition paged_M :: codecs where
  "paged_M = (small_codecs [] [])\<lparr>c_page := tagged_codec (Get_oplog_response None [])\<rparr>"

lemma paged_M_ok: "faithful paged_M" "fst (ser (c_page paged_M) m)" "no_page paged_M ''No such op id''"
proof -
  show "faithful paged_M"
    using small_faithful [of "[]" "[]"] by (simp add: faithful_def paged_M_def tagged_codec_ok)
  show "fst (ser (c_page paged_M) m)" by (simp add: paged_M_def tagged_codec_def)
  have "base64_decode ''No such op id'' = ''6''" by code_simp
  then show "no_page paged_M ''No such op id''" by (simp add: no_page_def paged_M_def tagged_codec_def)
qed

lemma small_uploadable:
  "uploadable (small_codecs [] []) 0 (''uf'', small_response, ''0'')" "uploadable paged_M 0 (''uf'', small_response, ''0'')"
proof -
  let ?M = "small_codecs [] []"
  have posts: "phase_post ?M small_propose = ''MA==''" "phase_post ?M small_confirm = ''MQ==''" by code_simp+
  have "postable ?M small_propose" "postable ?M small_confirm"
    unfolding postable_def posts by (simp_all add: k_server_max_post_data_size_def small_codecs_def table_codec_def)
  moreover have "fst (ser (c_operation ?M) (Upload_file_operation (Some ''uf'') (Some small_response)))"
    "fst (ser (c_oplog ?M) small_oplog)" "ser (c_response ?M) small_response = (True, ''0'')"
    by code_simp+
  moreover have "upload_op_log ?M ''uf'' small_response = small_oplog" by (simp only: small_codes)
  ultimately show up: "uploadable ?M 0 (''uf'', small_response, ''0'')"
    by (simp add: uploadable_def small_propose_def small_confirm_def)
  then show "uploadable paged_M 0 (''uf'', small_response, ''0'')"
    by (simp add: paged_M_def uploadable_def postable_def phase_post_def upload_op_log_def)
qed


lemma unsigned_confirm_writes_witness:
  "\<exists>r1 st1 s1 r2 st2 s2. process_confirm_oplog_request (small_codecs [] []) refusing_net journal_ldb (small_cluster 2) 0 small_follower
      (post_of ''MA=='') (master_new\<lparr>ms_filter := Some demo_helper, ms_oplog_db := Some ''o''\<rparr> :: unit master_server) confirm_new empty_dbs ()
      = Ret (r1, st1, s1, ())
    \<and> process_confirm_oplog_request (small_codecs [] []) refusing_net journal_ldb (small_cluster 2) 0 small_follower
      (post_of ''MQ=='') (master_new\<lparr>ms_filter := Some demo_helper, ms_oplog_db := Some ''o''\<rparr> :: unit master_server) st1 s1 ()
      = Ret (r2, st2, s2, ())
    \<and> files_of replay s2 = om_set ''uf'' ''0'' (files_of replay empty_dbs)"
proof -
  let ?M = "small_codecs [] []" and ?m = "master_new\<lparr>ms_filter := Some demo_helper, ms_oplog_db := Some ''o''\<rparr> :: unit master_server"
  have posts: "phase_post ?M small_propose = ''MA==''" "phase_post ?M small_confirm = ''MQ==''" by code_simp+
  have "upload_op_log ?M ''uf'' small_response = small_oplog" by (simp only: small_codes)
  then have p: "post_of ''MA=='' = post_of (phase_post ?M (Operation_log_message (Some 1) (Some (op_id 0)) (Some (upload_op_log ?M ''uf'' small_response))))"
    using posts(1) by (simp add: small_propose_def)
  have c: "post_of ''MQ=='' = post_of (phase_post ?M (Operation_log_message (Some 2) (Some (op_id 0)) None))"
    using posts(2) by (simp add: small_confirm_def)
  have m: "ms_filter ?m = Some demo_helper" "ms_oplog_db ?m \<noteq> None" by simp_all
  have n: "Suc 0 < 2 ^ 64" by simp
  have f: "get_status small_follower \<noteq> K_status_leader" by (simp add: small_follows)
  have faithful: "faithful ?M" by (rule small_faithful) simp_all
  from unsigned_confirm_writes [OF journal.reliable_db_axioms faithful f empty_dbs_ok(1,2) n small_uploadable(1) m p c,
      where Cf = refusing_net and cl = "small_cluster 2" and fuel = 0 and st = confirm_new, THEN conjunct1]
  show ?thesis by blast
qed

end
